(* ===== verification/Prelude.thy ===== *)
theory Prelude
  imports Main "HOL-Library.AList" "HOL-Library.Multiset" "HOL-Library.Product_Lexorder" "HOL-Library.Word"
begin

text \<open>
  Shared vocabulary of the netwatch development: the machine types of the Rust sources, the
  model of \<open>std::collections::HashMap\<close> and \<open>HashSet\<close>, of locks, of bounded channels
  (\<open>try_send\<close>) and of the rate gates (\<open>at most one per window\<close>) that several
  components share, each with the interface its clients rely on stated as a locale.

  \<^item> Machine integers keep their width (\<open>u8\<close> ... \<open>u128\<close>); \<open>usize\<close> lengths are \<open>nat\<close>.
  \<^item> \<open>Instant\<close> and \<open>Duration\<close> are natural numbers of nanoseconds; every operation that reads
    the clock takes the reading as an argument.
  \<^item> A \<open>HashMap\<close> is an association list with distinct keys. Its iteration order, which the
    standard library leaves unspecified, is an argument (\<open>iter\<close>) wherever the code iterates;
    the only thing assumed of it is \<open>iteration_order\<close>: it visits the entries once each.
  \<^item> A \<open>Mutex\<close> or \<open>RwLock\<close> is the option type: \<open>None\<close> is a poisoned lock. No code path of
    netwatch reads through a poisoned lock, so the lost contents are unobservable.
\<close>

section \<open>Types\<close>

type_synonym u8 = "8 word"
type_synonym u16 = "16 word"
type_synonym u32 = "32 word"
type_synonym u64 = "64 word"
type_synonym u128 = "128 word"
type_synonym instant = nat
type_synonym duration = nat
type_synonym 'a lock = "'a option"
type_synonym ('k, 'v) hmap = "('k \<times> 'v) list"
type_synonym 'a hset = "'a list"

named_theorems hm_simps \<open>lookup laws of the hash map operations\<close>
named_theorems wf_intros \<open>invariants kept by the operations of the components\<close>

definition from_secs :: "nat \<Rightarrow> duration" where
  "from_secs s = s * 1000000000"

definition from_millis :: "nat \<Rightarrow> duration" where
  "from_millis s = s * 1000000"

definition as_secs :: "duration \<Rightarrow> nat" where
  "as_secs d = d div 1000000000"

text \<open>\<open>Instant::duration_since\<close> returns zero when the argument is later.\<close>

definition duration_since :: "instant \<Rightarrow> instant \<Rightarrow> duration" where
  "duration_since now t = now - t"

section \<open>Hash maps and hash sets\<close>

definition hm_get :: "('k, 'v) hmap \<Rightarrow> 'k \<Rightarrow> 'v option" where
  "hm_get m k = map_of m k"

definition hm_insert :: "'k \<Rightarrow> 'v \<Rightarrow> ('k, 'v) hmap \<Rightarrow> ('k, 'v) hmap" where
  "hm_insert k v m = AList.update k v m"

definition hm_remove :: "'k \<Rightarrow> ('k, 'v) hmap \<Rightarrow> ('k, 'v) hmap" where
  "hm_remove k m = AList.delete k m"

definition hm_retain :: "('k \<Rightarrow> 'v \<Rightarrow> bool) \<Rightarrow> ('k, 'v) hmap \<Rightarrow> ('k, 'v) hmap" where
  "hm_retain P m = filter (\<lambda>(k, v). P k v) m"

text \<open>\<open>entry(k).or_insert(v)\<close>: an existing value is kept.\<close>

definition hm_or_insert :: "'k \<Rightarrow> 'v \<Rightarrow> ('k, 'v) hmap \<Rightarrow> ('k, 'v) hmap" where
  "hm_or_insert k v m = (case hm_get m k of None \<Rightarrow> hm_insert k v m | Some _ \<Rightarrow> m)"

definition hm_ok :: "('k, 'v) hmap \<Rightarrow> bool" where
  "hm_ok m = distinct (map fst m)"

definition hs_insert :: "'a \<Rightarrow> 'a hset \<Rightarrow> 'a hset" where
  "hs_insert x s = List.insert x s"

text \<open>An iteration order of a \<open>HashMap\<close>: every entry once, in some order.\<close>

definition iteration_order :: "('a list \<Rightarrow> 'a list) \<Rightarrow> bool" where
  "iteration_order iter \<longleftrightarrow> (\<forall>xs. mset (iter xs) = mset xs)"

lemma iteration_order_set: "iteration_order iter \<Longrightarrow> set (iter xs) = set xs"
  by (metis iteration_order_def set_mset_mset)

lemma iteration_order_length: "iteration_order iter \<Longrightarrow> length (iter xs) = length xs"
  by (metis iteration_order_def size_mset)

lemma iteration_order_distinct:
  "iteration_order iter \<Longrightarrow> distinct (map fst (iter xs)) = distinct (map fst xs)"
  by (metis iteration_order_def mset_eq_imp_distinct_iff mset_map)

lemma iteration_order_id: "iteration_order id"
  by (simp add: iteration_order_def)

lemma iteration_order_rev: "iteration_order rev"
  by (simp add: iteration_order_def)

text \<open>
  What the rest of the program relies on about a hash map. \<open>inv\<close> is the representation
  invariant, \<open>get\<close> the observation; the laws say what every operation does to the observation
  and that \<open>len\<close> counts the keys.
\<close>

locale hash_map =
  fixes empty :: "'m"
    and get :: "'m \<Rightarrow> 'k \<Rightarrow> 'v option"
    and insert :: "'k \<Rightarrow> 'v \<Rightarrow> 'm \<Rightarrow> 'm"
    and remove :: "'k \<Rightarrow> 'm \<Rightarrow> 'm"
    and retain :: "('k \<Rightarrow> 'v \<Rightarrow> bool) \<Rightarrow> 'm \<Rightarrow> 'm"
    and len :: "'m \<Rightarrow> nat"
    and inv :: "'m \<Rightarrow> bool"
  assumes get_empty: "get empty k = None"
    and get_insert: "get (insert k v m) k' = (if k' = k then Some v else get m k')"
    and get_remove: "get (remove k m) k' = (if k' = k then None else get m k')"
    and get_retain: "inv m \<Longrightarrow>
      get (retain P m) k = (case get m k of None \<Rightarrow> None | Some v \<Rightarrow> if P k v then Some v else None)"
    and len_card: "inv m \<Longrightarrow> len m = card {k. get m k \<noteq> None}"
    and keys_finite: "finite {k. get m k \<noteq> None}"
    and inv_empty: "inv empty"
    and inv_insert: "inv m \<Longrightarrow> inv (insert k v m)"
    and inv_remove: "inv m \<Longrightarrow> inv (remove k m)"
    and inv_retain: "inv m \<Longrightarrow> inv (retain P m)"
begin

lemma len_insert:
  assumes "inv m"
  shows "len (insert k v m) = (if get m k = None then Suc (len m) else len m)"
proof -
  have "{k'. get (insert k v m) k' \<noteq> None} = Set.insert k {k'. get m k' \<noteq> None}"
    by (auto simp: get_insert)
  then show ?thesis
    using assms keys_finite by (simp add: len_card inv_insert card_insert_if)
qed

lemma len_insert_le: "inv m \<Longrightarrow> len (insert k v m) \<le> Suc (len m)"
  by (simp add: len_insert)

lemma len_remove:
  assumes "inv m"
  shows "len (remove k m) = (if get m k = None then len m else len m - 1)"
proof -
  have "{k'. get (remove k m) k' \<noteq> None} = {k'. get m k' \<noteq> None} - {k}"
    by (auto simp: get_remove)
  then show ?thesis
    using assms keys_finite by (simp add: len_card inv_remove card_Diff_singleton_if)
qed

lemma len_retain_le:
  assumes "inv m"
  shows "len (retain P m) \<le> len m"
proof -
  have "{k. get (retain P m) k \<noteq> None} \<subseteq> {k. get m k \<noteq> None}"
    using assms by (auto simp: get_retain split: option.splits)
  then show ?thesis
    using assms keys_finite by (simp add: len_card inv_retain card_mono)
qed

lemma len_empty: "len empty = 0"
  by (simp add: len_card inv_empty get_empty)

end

lemma map_of_filter_distinct:
  "distinct (map fst m) \<Longrightarrow> map_of (filter (\<lambda>(k, v). P k v) m) k =
     (case map_of m k of None \<Rightarrow> None | Some v \<Rightarrow> if P k v then Some v else None)"
  by (induction m) (auto split: option.splits simp: map_of_eq_None_iff image_iff)

interpretation hm: hash_map "[]" hm_get hm_insert hm_remove hm_retain length hm_ok
proof (unfold_locales, goal_cases)
  case (4 m P k)
  then show ?case by (simp add: hm_get_def hm_retain_def hm_ok_def map_of_filter_distinct)
next
  case (5 m)
  have "{k. hm_get m k \<noteq> None} = set (map fst m)"
    using dom_map_of_conv_image_fst [of m] by (simp add: hm_get_def dom_def)
  with 5 show ?case by (metis hm_ok_def distinct_card length_map)
next
  case (6 m)
  show ?case using finite_dom_map_of [of m] by (simp add: hm_get_def dom_def)
next
  case (10 m P)
  then show ?case by (simp add: hm_ok_def hm_retain_def distinct_map_filter)
qed (auto simp: hm_get_def hm_insert_def hm_remove_def hm_ok_def update_conv' delete_conv'
       distinct_update distinct_delete)

lemmas hm_laws [hm_simps] = hm.get_empty hm.get_insert hm.get_remove hm.get_retain

lemmas hm_wf [wf_intros] = hm.inv_empty hm.inv_insert hm.inv_remove hm.inv_retain

lemmas hm_defs = hm_get_def hm_insert_def hm_remove_def hm_retain_def hm_or_insert_def

lemma hm_get_or_insert [hm_simps]:
  "hm_get (hm_or_insert k v m) k' =
     (if k' = k \<and> hm_get m k = None then Some v else hm_get m k')"
  by (auto simp: hm_or_insert_def hm_simps split: option.splits)

lemma hm_ok_or_insert [wf_intros]: "hm_ok m \<Longrightarrow> hm_ok (hm_or_insert k v m)"
  by (auto simp: hm_or_insert_def wf_intros split: option.splits)

lemma hm_len_or_insert:
  "hm_ok m \<Longrightarrow> length (hm_or_insert k v m) = (if hm_get m k = None then Suc (length m) else length m)"
  by (auto simp: hm_or_insert_def hm.len_insert split: option.splits)

lemma hm_insert_same: "hm_get m k = Some v \<Longrightarrow> hm_insert k v m = m"
  by (induction m) (auto simp: hm_get_def hm_insert_def split: if_splits)

lemma hm_remove_absent: "hm_get m k = None \<Longrightarrow> hm_remove k m = m"
  by (simp add: hm_get_def hm_remove_def map_of_eq_None_iff delete_id)

lemma hm_get_in_set: "hm_get m k = Some v \<Longrightarrow> (k, v) \<in> set m"
  by (simp add: hm_get_def map_of_SomeD)

lemma hm_get_iff: "hm_ok m \<Longrightarrow> hm_get m k = Some v \<longleftrightarrow> (k, v) \<in> set m"
  by (simp add: hm_get_def hm_ok_def)

lemma hm_get_None_iff: "hm_get m k = None \<longleftrightarrow> k \<notin> fst ` set m"
  by (simp add: hm_get_def map_of_eq_None_iff)

lemma hs_insert_set [simp]: "set (hs_insert x s) = insert x (set s)"
  by (simp add: hs_insert_def)

lemma hs_insert_distinct [wf_intros]: "distinct s \<Longrightarrow> distinct (hs_insert x s)"
  by (simp add: hs_insert_def)

section \<open>Bounded queues\<close>

text \<open>
  A channel of fixed depth written with \<open>try_send\<close>: an operation is appended while the receiver is
  alive and there is room, and otherwise leaves the queue alone. \<open>lossy_queue\<close> adds a counter of the
  operations that were refused.
\<close>

locale bounded_queue =
  fixes send :: "'op \<Rightarrow> 's \<Rightarrow> 's"
    and queue :: "'s \<Rightarrow> 'op list"
    and alive :: "'s \<Rightarrow> bool"
    and depth :: nat
  assumes accept: "alive s \<Longrightarrow> length (queue s) < depth \<Longrightarrow> queue (send op s) = queue s @ [op]"
    and refuse: "\<not> (alive s \<and> length (queue s) < depth) \<Longrightarrow> queue (send op s) = queue s"
    and alive_send: "alive (send op s) = alive s"
begin

lemma bounded: "length (queue s) \<le> depth \<Longrightarrow> length (queue (fold send ops s)) \<le> depth"
proof (induction ops arbitrary: s)
  case (Cons op ops)
  have "length (queue (send op s)) \<le> depth"
    using Cons.prems accept [of s op] refuse [of s op] by (cases "alive s \<and> length (queue s) < depth") auto
  then show ?case using Cons.IH by simp
qed simp

lemma fifo:
  "alive s \<Longrightarrow> queue (fold send ops s) = queue s @ take (depth - length (queue s)) ops"
proof (induction ops arbitrary: s)
  case (Cons op ops)
  then show ?case
    using accept [of s op] refuse [of s op] alive_send [of op s]
    by (cases "length (queue s) < depth") (auto simp: Suc_diff_Suc [symmetric] not_less)
qed simp

end

locale lossy_queue = bounded_queue +
  fixes drops :: "'s \<Rightarrow> u64"
  assumes drop_accept: "alive s \<Longrightarrow> length (queue s) < depth \<Longrightarrow> drops (send op s) = drops s"
    and drop_refuse: "\<not> (alive s \<and> length (queue s) < depth) \<Longrightarrow> drops (send op s) = drops s + 1"
begin

lemma conserved:
  "word_of_nat (length (queue (fold send ops s))) + drops (fold send ops s) =
     word_of_nat (length (queue s)) + drops s + word_of_nat (length ops)"
proof (induction ops arbitrary: s)
  case (Cons op ops)
  show ?case
    using accept [of s op] refuse [of s op] drop_accept [of s op] drop_refuse [of s op] Cons.IH [of "send op s"]
    by (cases "alive s \<and> length (queue s) < depth") (auto simp: algebra_simps)
qed simp

end

section \<open>Rate gates\<close>

text \<open>
  Something done at most once per window. \<open>gate_run\<close> collects the times at which the gate was passed
  during a sequence of events: an attempt to pass it (\<open>None\<close>), or something else that happens to the
  state.
\<close>

fun gate_run :: "(instant \<Rightarrow> 's \<Rightarrow> 's \<times> bool) \<Rightarrow> ('e \<Rightarrow> instant \<Rightarrow> 's \<Rightarrow> 's) \<Rightarrow> (instant \<times> 'e option) list \<Rightarrow> 's \<Rightarrow> instant list" where
  "gate_run attempt other [] s = []"
| "gate_run attempt other ((t, None) # es) s =
     (if snd (attempt t s) then [t] else []) @ gate_run attempt other es (fst (attempt t s))"
| "gate_run attempt other ((t, Some e) # es) s = gate_run attempt other es (other e t s)"

locale rate_gate =
  fixes attempt :: "instant \<Rightarrow> 's \<Rightarrow> 's \<times> bool"
    and other :: "'e \<Rightarrow> instant \<Rightarrow> 's \<Rightarrow> 's"
    and passed :: "'s \<Rightarrow> instant option"
    and inv :: "'s \<Rightarrow> bool"
    and window :: nat
  assumes attempt_iff: "inv s \<Longrightarrow> snd (attempt now s) \<longleftrightarrow> (\<forall>t. passed s = Some t \<longrightarrow> window \<le> now - t)"
    and attempt_passed: "inv s \<Longrightarrow> snd (attempt now s) \<Longrightarrow> passed (fst (attempt now s)) = Some now"
    and attempt_refused: "inv s \<Longrightarrow> \<not> snd (attempt now s) \<Longrightarrow> passed (fst (attempt now s)) = passed s"
    and attempt_inv: "inv s \<Longrightarrow> inv (fst (attempt now s))"
    and other_passed: "inv s \<Longrightarrow> passed (other e now s) = passed s \<or>
      passed (other e now s) = None \<and> (\<exists>t. passed s = Some t \<and> window \<le> now - t)"
    and other_inv: "inv s \<Longrightarrow> inv (other e now s)"
begin

lemma run_times: "set (gate_run attempt other es s) \<subseteq> fst ` set es"
proof (induction attempt other es s rule: gate_run.induct)
  case (2 attempt other t es s)
  then show ?case by (auto simp: image_iff)
qed auto

lemma run_after:
  assumes "\<forall>(t, _) \<in> set es. a \<le> t" "g \<in> set (gate_run attempt other es s)"
  shows "a \<le> g"
proof -
  from assms(2) run_times [of es s] obtain e where "e \<in> set es" "fst e = g" by auto
  with assms(1) show ?thesis by auto
qed

lemma run_gap:
  "sorted (map fst es) \<Longrightarrow> \<forall>(t, _) \<in> set es. t0 \<le> t \<Longrightarrow> inv s \<Longrightarrow> passed s = Some t0 \<Longrightarrow>
     g \<in> set (gate_run attempt other es s) \<Longrightarrow> t0 + window \<le> g"
proof (induction es arbitrary: s t0)
  case (Cons e es)
  obtain t k where e: "e = (t, k)" by fastforce
  have later: "\<forall>(u, _) \<in> set es. t \<le> u" "t0 \<le> t" using Cons.prems(1,2) by (auto simp: e)
  have rest: "sorted (map fst es)" "\<forall>(u, _) \<in> set es. t0 \<le> u" using Cons.prems(1,2) by auto
  show ?case
  proof (cases "k = None \<and> snd (attempt t s)")
    case True
    then have "t0 + window \<le> t" using attempt_iff [of s t] Cons.prems(3,4) later(2) by auto
    moreover have "g = t \<or> t + window \<le> g"
      using Cons.IH [OF rest(1) later(1) attempt_inv attempt_passed] True Cons.prems(3,5) by (auto simp: e)
    ultimately show ?thesis by auto
  next
    case False
    let ?s = "case k of None \<Rightarrow> fst (attempt t s) | Some x \<Rightarrow> other x t s"
    have g: "g \<in> set (gate_run attempt other es ?s)"
      using Cons.prems(5) False by (cases k) (auto simp: e)
    have "inv ?s" using Cons.prems(3) attempt_inv other_inv by (cases k) auto
    moreover have "passed ?s = Some t0 \<or> t0 + window \<le> t"
      using False attempt_refused [of s t] other_passed [of s _ t] Cons.prems(3,4) later(2) by (cases k) fastforce+
    ultimately show ?thesis
      using Cons.IH [OF rest _ _ g] run_after [OF later(1) g] by auto
  qed
qed simp

lemma run_spaced:
  "sorted (map fst es) \<Longrightarrow> inv s \<Longrightarrow> successively (\<lambda>a b. a + window \<le> b) (gate_run attempt other es s)"
proof (induction es arbitrary: s)
  case (Cons e es)
  obtain t k where e: "e = (t, k)" by fastforce
  have "\<forall>(u, _) \<in> set es. t \<le> u" using Cons.prems by (auto simp: e)
  then have gap: "\<forall>g \<in> set (gate_run attempt other es (fst (attempt t s))). t + window \<le> g" if "snd (attempt t s)"
    using run_gap [OF _ _ attempt_inv attempt_passed] that Cons.prems by auto
  have ih: "successively (\<lambda>a b. a + window \<le> b) (gate_run attempt other es s')" if "inv s'" for s'
    using Cons that by simp
  show ?case
  proof (cases k)
    case None
    then show ?thesis
      using gap ih [OF attempt_inv [OF Cons.prems(2)]]
      by (auto simp: e successively_Cons) (metis list.set_sel(1))
  qed (simp add: e ih other_inv Cons.prems(2))
qed simp

lemma spaced_count:
  "successively (\<lambda>a b. a + window \<le> b) (t # ts) \<Longrightarrow> t + length ts * window \<le> last (t # ts)"
  by (induction ts arbitrary: t) (auto simp: algebra_simps split: if_splits, fastforce)

lemma at_most_per_window:
  assumes "inv s" "sorted (map fst es)" "\<forall>(t, _) \<in> set es. a \<le> t \<and> t \<le> b" "0 < window"
  shows "length (gate_run attempt other es s) \<le> (b - a) div window + 1"
proof (cases "gate_run attempt other es s")
  case (Cons t ts)
  have "set (gate_run attempt other es s) \<subseteq> {a..b}"
    using assms(3) run_times [of es s] by fastforce
  then have "a \<le> t" "last (t # ts) \<le> b" using Cons last_in_set [of "t # ts"] by auto
  moreover have "t + length ts * window \<le> last (t # ts)"
    using run_spaced [OF assms(2,1)] spaced_count by (simp add: Cons)
  ultimately have "length ts * window \<le> b - a" by linarith
  then show ?thesis using assms(4) by (simp add: Cons less_eq_div_iff_mult_less_eq)
qed simp

end

section \<open>Event systems and simulations\<close>

text \<open>What every event of a kind keeps, every sequence of them keeps.\<close>

locale event_system =
  fixes step :: "'e \<Rightarrow> 's \<Rightarrow> 's"
    and allowed :: "'e \<Rightarrow> bool"
    and inv :: "'s \<Rightarrow> bool"
  assumes step_keeps: "inv s \<Longrightarrow> allowed e \<Longrightarrow> inv (step e s)"
begin

lemma run_keeps: "inv s \<Longrightarrow> list_all allowed es \<Longrightarrow> inv (fold step es s)"
  by (induction es arbitrary: s) (simp_all add: step_keeps)

end

text \<open>The steps of an implementation seen through \<open>abs\<close> are those of an abstract machine.\<close>

locale simulation = event_system +
  fixes astep :: "'e \<Rightarrow> 'a \<Rightarrow> 'a"
    and abs :: "'s \<Rightarrow> 'a"
  assumes abs_step: "inv s \<Longrightarrow> allowed e \<Longrightarrow> abs (step e s) = astep e (abs s)"
begin

lemma run_refines: "inv s \<Longrightarrow> list_all allowed es \<Longrightarrow> abs (fold step es s) = fold astep es (abs s)"
  by (induction es arbitrary: s) (simp_all add: step_keeps abs_step)

end

section \<open>Transition systems\<close>

text \<open>What the steps of a system keep holds in every state it can reach.\<close>

locale reachable_invariant =
  fixes init :: "'s"
    and step :: "'s \<Rightarrow> 's \<Rightarrow> bool"
    and inv :: "'s \<Rightarrow> bool"
  assumes inv_init: "inv init"
    and inv_step: "step s s' \<Longrightarrow> inv s \<Longrightarrow> inv s'"
begin

lemma reachable: "step\<^sup>*\<^sup>* init s \<Longrightarrow> inv s"
  by (induction rule: rtranclp_induct) (auto intro: inv_init inv_step)

end

text \<open>A system that can always make progress on the work it has.\<close>

locale draining =
  fixes step :: "'s \<Rightarrow> 's \<Rightarrow> bool"
    and work :: "'s \<Rightarrow> nat"
  assumes progress: "0 < work s \<Longrightarrow> \<exists>s'. step s s' \<and> work s' < work s"
begin

lemma drains: "\<exists>s'. step\<^sup>*\<^sup>* s s' \<and> work s' = 0"
proof (induction "work s" arbitrary: s rule: less_induct)
  case less
  show ?case
  proof (cases "work s")
    case (Suc n)
    then obtain s1 where s1: "step s s1" "work s1 < work s" using progress [of s] by auto
    then show ?thesis using less [OF s1(2)] converse_rtranclp_into_rtranclp [of step] by blast
  qed blast
qed

end

section \<open>Descending order\<close>

text \<open>A sort key under \<open>DESC\<close>: the same values in the opposite order.\<close>

datatype 'a desc = Desc (undesc: 'a)

instantiation desc :: (linorder) linorder
begin

definition less_eq_desc :: "'a desc \<Rightarrow> 'a desc \<Rightarrow> bool" where
  "less_eq_desc x y \<longleftrightarrow> undesc y \<le> undesc x"

definition less_desc :: "'a desc \<Rightarrow> 'a desc \<Rightarrow> bool" where
  "less_desc x y \<longleftrightarrow> undesc y < undesc x"

instance
  by standard (auto simp: less_eq_desc_def less_desc_def intro: desc.expand)

end

lemma Desc_le [simp]: "Desc a \<le> Desc b \<longleftrightarrow> b \<le> a"
  by (simp add: less_eq_desc_def)

lemma Desc_less [simp]: "Desc a < Desc b \<longleftrightarrow> b < a"
  by (simp add: less_desc_def)

section \<open>Lists\<close>

text \<open>A list cut into pages of \<open>n\<close>.\<close>

lemma pages_concat: "concat (map (\<lambda>k. take n (drop (k * n) xs)) [0..<m]) = take (m * n) xs"
  by (induction m) (simp_all add: take_add [symmetric] add.commute)

lemma sorted_wrt_distinct:
  "sorted_wrt R xs \<Longrightarrow> distinct (map f xs) \<Longrightarrow> (\<And>a b. R a b \<Longrightarrow> f a \<noteq> f b \<Longrightarrow> S a b) \<Longrightarrow> sorted_wrt S xs"
  by (induction xs) (auto simp: image_iff)

lemma sum_indicator: "distinct ks \<Longrightarrow> x \<in> set ks \<Longrightarrow> (\<Sum>k\<leftarrow>ks. if x = k then Suc (h k) else h k) = Suc (\<Sum>k\<leftarrow>ks. h k)"
proof (induction ks)
  case (Cons k ks)
  have "(\<Sum>k\<leftarrow>ks. if x = k then Suc (h k) else h k) = (\<Sum>k\<leftarrow>ks. h k)" if "x \<notin> set ks"
    using that by (induction ks) auto
  then show ?case using Cons by auto
qed simp

text \<open>Grouping splits the rows: the sizes of the groups add up.\<close>

lemma groups_partition:
  "distinct ks \<Longrightarrow> g ` set rows \<subseteq> set ks \<Longrightarrow> (\<Sum>k\<leftarrow>ks. length (filter (\<lambda>e. g e = k) rows)) = length rows"
proof (induction rows)
  case (Cons e rows)
  then show ?case using sum_indicator [of ks "g e" "\<lambda>k. length (filter (\<lambda>e. g e = k) rows)"]
    by (simp add: if_distrib [of length] cong: if_cong)
qed simp

text \<open>Counting pairs by the first component or by the second.\<close>

lemma count_swap: "(\<Sum>d\<leftarrow>ds. length (filter (P d) rows)) = (\<Sum>e\<leftarrow>rows. length (filter (\<lambda>d. P d e) ds))"
proof (induction rows)
  case (Cons e rows)
  have "(\<Sum>d\<leftarrow>ds. length (filter (P d) (e # rows))) =
      length (filter (\<lambda>d. P d e) ds) + (\<Sum>d\<leftarrow>ds. length (filter (P d) rows))"
    by (induction ds) auto
  then show ?case using Cons by simp
qed simp

lemma sum_le_length: "(\<And>e. e \<in> set rows \<Longrightarrow> h e \<le> (1 :: nat)) \<Longrightarrow> (\<Sum>e\<leftarrow>rows. h e) \<le> length rows"
  using sum_list_mono [of rows h "\<lambda>_. 1"] by (simp add: sum_list_triv)

lemma counts_at_most:
  "(\<And>e. e \<in> set rows \<Longrightarrow> length (filter (\<lambda>d. P d e) ds) \<le> 1) \<Longrightarrow> (\<Sum>d\<leftarrow>ds. length (filter (P d) rows)) \<le> length rows"
  by (subst count_swap) (rule sum_le_length)

lemma sort_key_last: "\<forall>y \<in> set xs. f x < f y \<Longrightarrow> sort_key f (xs @ [x]) = x # sort_key f xs"
  by (induction xs) (auto simp: not_le)

end
