(* ===== verification/Rust_Str.thy ===== *)
theory Rust_Str
  imports Prelude "HOL-Library.Monad_Syntax"
begin

text \<open>
  The string functions of the Rust standard library that netwatch calls. A \<open>str\<close> is its
  sequence of UTF-8 bytes (\<open>char list\<close>), so \<open>length\<close> is Rust's \<open>len\<close>. The ASCII functions
  act on bytes as Rust's do; \<open>trim\<close> and \<open>split_whitespace\<close> know every UTF-8 encoding of a
  character with the Unicode property \<open>White_Space\<close>.
\<close>

section \<open>Characters\<close>

abbreviation ch :: "char \<Rightarrow> nat" where
  "ch c \<equiv> of_char c"

definition is_ascii_digit :: "char \<Rightarrow> bool" where
  "is_ascii_digit c \<longleftrightarrow> 48 \<le> ch c \<and> ch c \<le> 57"

definition is_ascii_lower :: "char \<Rightarrow> bool" where
  "is_ascii_lower c \<longleftrightarrow> 97 \<le> ch c \<and> ch c \<le> 122"

definition is_ascii_upper :: "char \<Rightarrow> bool" where
  "is_ascii_upper c \<longleftrightarrow> 65 \<le> ch c \<and> ch c \<le> 90"

definition is_ascii_alphanumeric :: "char \<Rightarrow> bool" where
  "is_ascii_alphanumeric c \<longleftrightarrow> is_ascii_digit c \<or> is_ascii_lower c \<or> is_ascii_upper c"

definition is_ascii_hexdigit :: "char \<Rightarrow> bool" where
  "is_ascii_hexdigit c \<longleftrightarrow> is_ascii_digit c \<or> (97 \<le> ch c \<and> ch c \<le> 102) \<or> (65 \<le> ch c \<and> ch c \<le> 70)"

definition ascii_lower :: "char \<Rightarrow> char" where
  "ascii_lower c = (if is_ascii_upper c then char_of (ch c + 32) else c)"

definition ascii_upper :: "char \<Rightarrow> char" where
  "ascii_upper c = (if is_ascii_lower c then char_of (ch c - 32) else c)"

definition to_ascii_lowercase :: "string \<Rightarrow> string" where
  "to_ascii_lowercase s = map ascii_lower s"

definition eq_ignore_ascii_case :: "string \<Rightarrow> string \<Rightarrow> bool" where
  "eq_ignore_ascii_case a b \<longleftrightarrow> to_ascii_lowercase a = to_ascii_lowercase b"

text \<open>\<open>char::to_digit\<close> for radix 10 and 16.\<close>

definition digit_val :: "char \<Rightarrow> nat" where
  "digit_val c =
     (if is_ascii_digit c then ch c - 48
      else if 97 \<le> ch c \<and> ch c \<le> 122 then ch c - 87
      else if 65 \<le> ch c \<and> ch c \<le> 90 then ch c - 55
      else 1000)"

definition is_digit :: "nat \<Rightarrow> char \<Rightarrow> bool" where
  "is_digit radix c \<longleftrightarrow> digit_val c < radix"

definition digit_char :: "nat \<Rightarrow> char" where
  "digit_char d = (if d < 10 then char_of (48 + d) else char_of (87 + d))"

section \<open>Whitespace\<close>

text \<open>The three-byte encodings: U+1680, U+2000 to U+200A, U+2028, U+2029, U+202F, U+205F, U+3000.\<close>

definition ws3 :: "nat \<Rightarrow> nat \<Rightarrow> nat \<Rightarrow> bool" where
  "ws3 x y z \<longleftrightarrow>
     (x = 225 \<and> y = 154 \<and> z = 128)
     \<or> (x = 226 \<and> y = 128 \<and> ((128 \<le> z \<and> z \<le> 138) \<or> z = 168 \<or> z = 169 \<or> z = 175))
     \<or> (x = 226 \<and> y = 129 \<and> z = 159)
     \<or> (x = 227 \<and> y = 128 \<and> z = 128)"

definition ws2 :: "nat \<Rightarrow> nat \<Rightarrow> bool" where
  "ws2 x y \<longleftrightarrow> x = 194 \<and> (y = 133 \<or> y = 160)"

definition ws1 :: "nat \<Rightarrow> bool" where
  "ws1 x \<longleftrightarrow> (9 \<le> x \<and> x \<le> 13) \<or> x = 32"

text \<open>The number of bytes of the whitespace character a string starts with, 0 if none.\<close>

fun ws_front :: "string \<Rightarrow> nat" where
  "ws_front [] = 0"
| "ws_front (a # s) =
     (if ws1 (ch a) then 1
      else case s of [] \<Rightarrow> 0
      | b # t \<Rightarrow> if ws2 (ch a) (ch b) then 2
          else case t of [] \<Rightarrow> 0
          | c # _ \<Rightarrow> if ws3 (ch a) (ch b) (ch c) then 3 else 0)"

text \<open>The same at the end, on the reversed string.\<close>

fun ws_back :: "string \<Rightarrow> nat" where
  "ws_back [] = 0"
| "ws_back (a # s) =
     (if ws1 (ch a) then 1
      else case s of [] \<Rightarrow> 0
      | b # t \<Rightarrow> if ws2 (ch b) (ch a) then 2
          else case t of [] \<Rightarrow> 0
          | c # _ \<Rightarrow> if ws3 (ch c) (ch b) (ch a) then 3 else 0)"

fun strip_ws :: "(string \<Rightarrow> nat) \<Rightarrow> string \<Rightarrow> string" where
  "strip_ws w [] = []"
| "strip_ws w (a # s) = (if w (a # s) = 0 then a # s else strip_ws w (drop (w (a # s) - 1) s))"

definition trim :: "string \<Rightarrow> string" where
  "trim s = rev (strip_ws ws_back (rev (strip_ws ws_front s)))"

fun split_ws_from :: "string \<Rightarrow> string \<Rightarrow> string list" where
  "split_ws_from acc [] = (if acc = [] then [] else [rev acc])"
| "split_ws_from acc (a # s) =
     (if ws_front (a # s) = 0 then split_ws_from (a # acc) s
      else (if acc = [] then [] else [rev acc]) @ split_ws_from [] (drop (ws_front (a # s) - 1) s))"

definition split_whitespace :: "string \<Rightarrow> string list" where
  "split_whitespace s = split_ws_from [] s"

section \<open>Splitting, searching, stripping\<close>

fun split_on :: "char \<Rightarrow> string \<Rightarrow> string list" where
  "split_on c [] = [[]]"
| "split_on c (x # s) =
     (if x = c then [] # split_on c s
      else case split_on c s of [] \<Rightarrow> [[x]] | p # ps \<Rightarrow> (x # p) # ps)"

fun join :: "string \<Rightarrow> string list \<Rightarrow> string" where
  "join sep [] = []"
| "join sep [p] = p"
| "join sep (p # ps) = p @ sep @ join sep ps"

text \<open>\<open>split([..]).next()\<close>: the part before the first of the given characters.\<close>

definition before_any :: "char list \<Rightarrow> string \<Rightarrow> string" where
  "before_any cs s = takeWhile (\<lambda>c. c \<notin> set cs) s"

fun find_any :: "char list \<Rightarrow> string \<Rightarrow> nat option" where
  "find_any cs [] = None"
| "find_any cs (x # s) = (if x \<in> set cs then Some 0 else map_option Suc (find_any cs s))"

fun split_once :: "char \<Rightarrow> string \<Rightarrow> (string \<times> string) option" where
  "split_once c [] = None"
| "split_once c (x # s) =
     (if x = c then Some ([], s) else map_option (\<lambda>(p, q). (x # p, q)) (split_once c s))"

definition strip_prefix :: "string \<Rightarrow> string \<Rightarrow> string option" where
  "strip_prefix p s = (if take (length p) s = p then Some (drop (length p) s) else None)"

definition strip_suffix :: "string \<Rightarrow> string \<Rightarrow> string option" where
  "strip_suffix p s = map_option rev (strip_prefix (rev p) (rev s))"

definition starts_with :: "string \<Rightarrow> string \<Rightarrow> bool" where
  "starts_with p s \<longleftrightarrow> take (length p) s = p"

definition trim_end_matches :: "char \<Rightarrow> string \<Rightarrow> string" where
  "trim_end_matches c s = rev (dropWhile (\<lambda>x. x = c) (rev s))"

definition trim_matches :: "char \<Rightarrow> string \<Rightarrow> string" where
  "trim_matches c s = trim_end_matches c (dropWhile (\<lambda>x. x = c) s)"

text \<open>\<open>lines\<close>: a line ends at a line feed, with a carriage return before it removed; a final
  line without line feed is kept as it is.\<close>

definition strip_cr :: "string \<Rightarrow> string" where
  "strip_cr l = (if l \<noteq> [] \<and> last l = CHR 0x0D then butlast l else l)"

definition lines :: "string \<Rightarrow> string list" where
  "lines s = (let ps = split_on CHR 0x0A s in
     map strip_cr (butlast ps) @ (if last ps = [] then [] else [last ps]))"

section \<open>Numbers\<close>

definition digits_val :: "nat \<Rightarrow> string \<Rightarrow> nat" where
  "digits_val radix s = foldl (\<lambda>n c. n * radix + digit_val c) 0 s"

text \<open>\<open>from_str\<close> and \<open>from_str_radix\<close> of an unsigned type with largest value \<open>maxv\<close>: an optional
  plus sign, at least one digit, no overflow.\<close>

definition parse_uint :: "nat \<Rightarrow> nat \<Rightarrow> string \<Rightarrow> nat option" where
  "parse_uint radix maxv s =
     (let body = (case s of [] \<Rightarrow> [] | x # t \<Rightarrow> if x = CHR ''+'' then t else x # t) in
      if body = [] \<or> \<not> list_all (is_digit radix) body then None
      else let v = digits_val radix body in if maxv < v then None else Some v)"

fun show_radix :: "nat \<Rightarrow> nat \<Rightarrow> string" where
  "show_radix r n =
     (if r < 2 \<or> n < r then [digit_char n]
      else show_radix r (n div r) @ [digit_char (n mod r)])"

declare show_radix.simps [simp del]

definition show_nat :: "nat \<Rightarrow> string" where
  "show_nat n = show_radix 10 n"

text \<open>\<open>{:0w$x}\<close>: lower-case hexadecimal, padded with zeros to width \<open>w\<close>.\<close>

definition show_hex_padded :: "nat \<Rightarrow> nat \<Rightarrow> string" where
  "show_hex_padded w n =
     (let d = show_radix 16 n in replicate (w - length d) CHR ''0'' @ d)"

section \<open>UTF-8 validity\<close>

definition utf8_cont :: "nat \<Rightarrow> bool" where
  "utf8_cont b \<longleftrightarrow> 128 \<le> b \<and> b \<le> 191"

text \<open>\<open>std::str::from_utf8\<close>: the well-formed byte sequences of the Unicode standard (table 3-7).\<close>

fun utf8_valid :: "nat list \<Rightarrow> bool" where
  "utf8_valid [] = True"
| "utf8_valid (a # s) =
     (if a < 128 then utf8_valid s
      else case s of [] \<Rightarrow> False
      | b # s2 \<Rightarrow>
        if 194 \<le> a \<and> a \<le> 223 then utf8_cont b \<and> utf8_valid s2
        else case s2 of [] \<Rightarrow> False
        | c # s3 \<Rightarrow>
          if 224 \<le> a \<and> a \<le> 239 then
            utf8_cont b \<and> utf8_cont c \<and> (a = 224 \<longrightarrow> 160 \<le> b) \<and> (a = 237 \<longrightarrow> b \<le> 159)
            \<and> utf8_valid s3
          else case s3 of [] \<Rightarrow> False
          | d # s4 \<Rightarrow>
            240 \<le> a \<and> a \<le> 244 \<and> utf8_cont b \<and> utf8_cont c \<and> utf8_cont d
            \<and> (a = 240 \<longrightarrow> 144 \<le> b) \<and> (a = 244 \<longrightarrow> b \<le> 143) \<and> utf8_valid s4)"

definition from_utf8 :: "u8 list \<Rightarrow> string option" where
  "from_utf8 bs = (if utf8_valid (map unat bs) then Some (map (\<lambda>b. char_of (unat b)) bs) else None)"

section \<open>Laws\<close>

text \<open>The graphic ASCII characters: no whitespace among them, and trimming keeps them.\<close>

definition graphic :: "char \<Rightarrow> bool" where
  "graphic c \<longleftrightarrow> 33 \<le> ch c \<and> ch c \<le> 126"

lemma alphanumeric_graphic: "is_ascii_alphanumeric c \<Longrightarrow> graphic c"
  by (auto simp: is_ascii_alphanumeric_def is_ascii_digit_def is_ascii_lower_def
      is_ascii_upper_def graphic_def)

lemma ws_front_graphic: "graphic a \<Longrightarrow> ws_front (a # s) = 0"
  by (auto simp: graphic_def ws1_def ws2_def ws3_def split: list.splits)

lemma ws_back_graphic: "graphic a \<Longrightarrow> ws_back (a # s) = 0"
  by (auto simp: graphic_def ws1_def ws2_def ws3_def split: list.splits)

lemma strip_front_graphic: "s = [] \<or> graphic (hd s) \<Longrightarrow> strip_ws ws_front s = s"
  by (cases s) (auto simp: ws_front_graphic simp del: ws_front.simps)

lemma strip_back_graphic: "s = [] \<or> graphic (hd s) \<Longrightarrow> strip_ws ws_back s = s"
  by (cases s) (auto simp: ws_back_graphic simp del: ws_back.simps)

lemma trim_ends_graphic:
  "s = [] \<or> graphic (hd s) \<and> graphic (last s) \<Longrightarrow> trim s = s"
  by (auto simp: trim_def strip_front_graphic strip_back_graphic hd_rev)

lemma trim_graphic: "list_all graphic s \<Longrightarrow> trim s = s"
  by (rule trim_ends_graphic) (cases "s = []", auto simp: list_all_iff)

lemma set_strip_ws: "set (strip_ws w s) \<subseteq> set s"
  by (induction w s rule: strip_ws.induct) (auto dest: in_set_dropD)

lemma set_trim: "set (trim s) \<subseteq> set s"
  using set_strip_ws [of ws_back "rev (strip_ws ws_front s)"] set_strip_ws [of ws_front s]
  by (auto simp: trim_def)

lemma split_ws_graphic:
  "list_all graphic s \<Longrightarrow> split_ws_from acc s = (if acc = [] \<and> s = [] then [] else [rev acc @ s])"
  by (induction acc s rule: split_ws_from.induct)
     (auto simp: ws_front_graphic simp del: ws_front.simps)

lemma split_whitespace_graphic:
  "list_all graphic s \<Longrightarrow> s \<noteq> [] \<Longrightarrow> split_whitespace s = [s]"
  by (simp add: split_whitespace_def split_ws_graphic)

lemma ch_char_of [simp]: "n < 256 \<Longrightarrow> ch (char_of n) = n"
  by (simp add: take_bit_nat_eq_self)

lemma ch_less [simp]: "ch c < 256"
  by (cases c) (simp add: of_char_def horner_sum_simps)

lemma ch_eq_iff: "ch a = ch b \<longleftrightarrow> a = b"
  by simp

lemma ascii_lower_idem [simp]: "ascii_lower (ascii_lower c) = ascii_lower c"
  by (auto simp: ascii_lower_def is_ascii_upper_def)

lemma ascii_lower_not_upper [simp]: "\<not> is_ascii_upper (ascii_lower c)"
  by (auto simp: ascii_lower_def is_ascii_upper_def)

lemma to_ascii_lowercase_idem [simp]:
  "to_ascii_lowercase (to_ascii_lowercase s) = to_ascii_lowercase s"
  by (simp add: to_ascii_lowercase_def)

lemma length_to_ascii_lowercase [simp]: "length (to_ascii_lowercase s) = length s"
  by (simp add: to_ascii_lowercase_def)

lemma lower_noop: "list_all (\<lambda>c. \<not> is_ascii_upper c) s \<Longrightarrow> to_ascii_lowercase s = s"
  by (induction s) (auto simp: to_ascii_lowercase_def ascii_lower_def)

lemma lowercase_not_upper: "c \<in> set (to_ascii_lowercase s) \<Longrightarrow> \<not> is_ascii_upper c"
  by (auto simp: to_ascii_lowercase_def)

lemma trim_end_matches_last:
  "trim_end_matches c s = [] \<or> last (trim_end_matches c s) \<noteq> c"
proof (cases "dropWhile (\<lambda>x. x = c) (rev s)")
  case (Cons a t)
  then have "a \<noteq> c" using hd_dropWhile [of "\<lambda>x. x = c" "rev s"] by auto
  with Cons show ?thesis by (simp add: trim_end_matches_def)
qed (simp add: trim_end_matches_def)

lemma trim_end_matches_noop: "s = [] \<or> last s \<noteq> c \<Longrightarrow> trim_end_matches c s = s"
  by (cases "rev s") (auto simp: trim_end_matches_def last_rev dest: arg_cong [of _ _ rev])

lemma set_trim_end_matches: "set (trim_end_matches c s) \<subseteq> set s"
  by (auto simp: trim_end_matches_def dest: set_dropWhileD)

lemma split_on_nonempty [simp]: "split_on c s \<noteq> []"
  by (induction s) (auto split: list.splits)

lemma join_split_on: "join [c] (split_on c s) = s"
proof (induction s)
  case (Cons x s)
  obtain p ps where "split_on c s = p # ps" by (metis split_on_nonempty list.exhaust)
  with Cons show ?case by (cases ps) auto
qed simp

lemma split_on_no_sep: "p \<in> set (split_on c s) \<Longrightarrow> c \<notin> set p"
  by (induction s arbitrary: p) (auto split: list.splits if_splits)

lemma split_on_single: "c \<notin> set s \<Longrightarrow> split_on c s = [s]"
  by (induction s) auto

lemma split_on_append: "c \<notin> set p \<Longrightarrow> split_on c (p @ c # s) = p # split_on c s"
  by (induction p) auto

lemma split_on_join:
  "ps \<noteq> [] \<Longrightarrow> list_all (\<lambda>p. c \<notin> set p) ps \<Longrightarrow> split_on c (join [c] ps) = ps"
proof (induction "[c]" ps rule: join.induct)
  case (3 p q ps)
  then show ?case by (simp add: split_on_append)
qed (auto simp: split_on_single)

lemma split_on_set: "x \<in> set s \<Longrightarrow> x \<noteq> c \<Longrightarrow> \<exists>p \<in> set (split_on c s). x \<in> set p"
  by (induction s) (auto split: list.splits)

lemma split_on_subset: "p \<in> set (split_on c s) \<Longrightarrow> set p \<subseteq> set s"
proof (induction s arbitrary: p)
  case (Cons x s)
  obtain q qs where q: "split_on c s = q # qs" by (metis split_on_nonempty list.exhaust)
  show ?case
  proof (cases "x = c")
    case True
    with Cons show ?thesis by auto
  next
    case False
    with Cons.prems q have "p = x # q \<or> p \<in> set qs" by auto
    with Cons.IH [of q] Cons.IH [of p] q show ?thesis by auto
  qed
qed simp

lemma is_digit_10: "is_digit 10 c \<longleftrightarrow> is_ascii_digit c"
  by (auto simp: is_digit_def digit_val_def is_ascii_digit_def)

lemma digit_val_digit_char: "d < 16 \<Longrightarrow> digit_val (digit_char d) = d"
  by (auto simp: digit_val_def digit_char_def is_ascii_digit_def)

lemma digit_val_mod: "2 \<le> r \<Longrightarrow> r \<le> 16 \<Longrightarrow> digit_val (digit_char (n mod r)) = n mod r"
  using mod_less_divisor [of r n] by (intro digit_val_digit_char) linarith

lemma digits_val_append: "digits_val r (s @ [c]) = digits_val r s * r + digit_val c"
  by (simp add: digits_val_def)

lemma show_radix_val:
  "2 \<le> r \<Longrightarrow> r \<le> 16 \<Longrightarrow> digits_val r (show_radix r n) = n"
proof (induction r n rule: show_radix.induct)
  case (1 r n)
  show ?case
  proof (cases "n < r")
    case True
    with 1 show ?thesis
      by (subst show_radix.simps) (simp add: digits_val_def digit_val_digit_char)
  next
    case False
    with 1 show ?thesis
      by (subst show_radix.simps) (simp add: digits_val_append digit_val_mod)
  qed
qed

lemma show_radix_nonempty [simp]: "show_radix r n \<noteq> []"
  by (subst show_radix.simps) simp

lemma show_radix_digits:
  "2 \<le> r \<Longrightarrow> r \<le> 16 \<Longrightarrow> list_all (is_digit r) (show_radix r n)"
proof (induction r n rule: show_radix.induct)
  case (1 r n)
  then have "is_digit r (digit_char (n mod r))" by (simp add: is_digit_def digit_val_mod)
  with 1 show ?case
    by (subst show_radix.simps) (auto simp: list_all_iff is_digit_def digit_val_digit_char)
qed

lemma show_radix_length: "2 \<le> r \<Longrightarrow> n < r ^ k \<Longrightarrow> 0 < k \<Longrightarrow> length (show_radix r n) \<le> k"
proof (induction r n arbitrary: k rule: show_radix.induct)
  case (1 r n)
  show ?case
  proof (cases "n < r")
    case True
    with 1(4) show ?thesis by (subst show_radix.simps) simp
  next
    case False
    with 1 obtain k' where k: "k = Suc k'" "0 < k'"
      by (cases k) (auto simp: not_less, metis One_nat_def gr0I power_0 mult_1_right not_less)
    with 1 have "n div r < r ^ k'"
      by (simp add: less_mult_imp_div_less mult.commute)
    with False 1 k have "length (show_radix r (n div r)) \<le> k'" by simp
    with False k 1(2) show ?thesis by (subst show_radix.simps) simp
  qed
qed

lemma digit_char_not_plus [simp]: "d < 16 \<Longrightarrow> digit_char d \<noteq> CHR ''+''"
  using digit_val_digit_char [of d] by (auto simp: digit_val_def is_ascii_digit_def)

lemma digit_not_plus: "is_digit r c \<Longrightarrow> r \<le> 16 \<Longrightarrow> c \<noteq> CHR ''+''"
  by (auto simp: is_digit_def digit_val_def is_ascii_digit_def)

lemma parse_uint_digits:
  assumes "s \<noteq> []" "list_all (is_digit r) s" "r \<le> 16"
  shows "parse_uint r m s = (if m < digits_val r s then None else Some (digits_val r s))"
proof -
  obtain x t where s: "s = x # t" using assms(1) by (cases s) auto
  with assms digit_not_plus have "x \<noteq> CHR ''+''" by auto
  with assms s show ?thesis by (simp add: parse_uint_def)
qed

lemma parse_uint_show:
  "2 \<le> r \<Longrightarrow> r \<le> 16 \<Longrightarrow> n \<le> m \<Longrightarrow> parse_uint r m (show_radix r n) = Some n"
  by (simp add: parse_uint_digits show_radix_digits show_radix_val)

lemma parse_uint_bound: "parse_uint r m s = Some n \<Longrightarrow> n \<le> m"
  by (auto simp: parse_uint_def Let_def split: if_splits list.splits)

text \<open>What \<open>simp\<close> needs to run the string functions on a literal.\<close>

lemmas str_eval = to_ascii_lowercase_def ascii_lower_def is_ascii_upper_def graphic_def
  trim_graphic is_digit_def digit_val_def digits_val_def parse_uint_def is_ascii_digit_def
  is_ascii_lower_def is_ascii_alphanumeric_def is_ascii_hexdigit_def char_of_def bit_0

end
