(* ===== verification/Db.thy ===== *)
theory Db
  imports Prelude Rust_Str
begin

text \<open>
  Storage (\<open>src/db.rs\<close>): the rows handed to the writer, its bounded queue with the drop counters, the
  writer thread's cycle, and the SQL statements as operations on lists of rows (the read queries are in
  \<open>Reports\<close>).
  A table is a list of rows in insertion order. What SQLite leaves open (the order of rows that
  compare equal, the row a bare column of an aggregate is taken from, whether a statement fails)
  is an argument. The file-level maintenance, which changes no row, is in \<open>Db_File\<close>. An \<open>i64\<close> is an integer, wrapped where the code multiplies
  values it does not bound.
\<close>

section \<open>Rows and operations\<close>

datatype QueryStatus = Forwarded | Cached | Blocked | NxDomain | ServFail_st | Refused_st

fun status_str :: "QueryStatus \<Rightarrow> string" where
  "status_str Forwarded = ''forwarded''"
| "status_str Cached = ''cached''"
| "status_str Blocked = ''blocked''"
| "status_str NxDomain = ''nxdomain''"
| "status_str ServFail_st = ''servfail''"
| "status_str Refused_st = ''refused''"

record QueryEvent =
  qe_ts :: int
  qe_client_ip :: string
  qe_domain :: string
  qe_qtype :: string
  qe_status :: QueryStatus
  qe_elapsed_ms :: "nat option"
  qe_answer :: "string option"
  qe_blocklist :: "string option"

record IfaceSample =
  if_ts :: int
  if_iface :: string
  if_rx_bytes :: int
  if_tx_bytes :: int
  if_rx_bps :: int
  if_tx_bps :: int

record LatencySample =
  la_ts :: int
  la_target :: string
  la_ms :: duration

record AlertOp =
  ao_ts :: int
  ao_kind :: string
  ao_severity :: string
  ao_subject :: string
  ao_detail :: string
  ao_notified :: bool

record DeviceOp =
  do_mac :: string
  do_ip :: "string option"
  do_hostname :: "string option"
  do_vendor :: "string option"
  do_randomized :: bool
  do_ts :: int

datatype WriteOp =
    W_Query QueryEvent
  | W_Iface IfaceSample
  | W_Latency LatencySample
  | W_Alert AlertOp
  | W_Device DeviceOp

section \<open>The writer queue\<close>

record DropCounts =
  dc_queries :: u64
  dc_devices :: u64
  dc_monitoring :: u64
  dc_alerts :: u64

text \<open>The sending side: what is queued, whether the receiving thread is alive, and the counters.\<close>

record Writer =
  w_queue :: "WriteOp list"
  w_connected :: bool
  w_dropped :: DropCounts

definition WRITER_DEPTH :: nat where
  "WRITER_DEPTH = 8192"

definition writer_new :: Writer where
  "writer_new = \<lparr>w_queue = [], w_connected = True,
     w_dropped = \<lparr>dc_queries = 0, dc_devices = 0, dc_monitoring = 0, dc_alerts = 0\<rparr>\<rparr>"

fun count_drop :: "WriteOp \<Rightarrow> DropCounts \<Rightarrow> DropCounts" where
  "count_drop (W_Query _) d = d\<lparr>dc_queries := dc_queries d + 1\<rparr>"
| "count_drop (W_Device _) d = d\<lparr>dc_devices := dc_devices d + 1\<rparr>"
| "count_drop (W_Iface _) d = d\<lparr>dc_monitoring := dc_monitoring d + 1\<rparr>"
| "count_drop (W_Latency _) d = d\<lparr>dc_monitoring := dc_monitoring d + 1\<rparr>"
| "count_drop (W_Alert _) d = d\<lparr>dc_alerts := dc_alerts d + 1\<rparr>"

definition writer_send :: "WriteOp \<Rightarrow> Writer \<Rightarrow> Writer" where
  "writer_send op w =
     (if w_connected w \<and> length (w_queue w) < WRITER_DEPTH
      then w\<lparr>w_queue := w_queue w @ [op]\<rparr>
      else w\<lparr>w_dropped := count_drop op (w_dropped w)\<rparr>)"

section \<open>Tables\<close>

record DeviceRec =
  dv_mac :: string
  dv_ip :: "string option"
  dv_hostname :: "string option"
  dv_vendor :: "string option"
  dv_randomized :: bool
  dv_first_seen :: int
  dv_last_seen :: int

record Database =
  t_queries :: "(nat \<times> QueryEvent) list"
  t_devices :: "DeviceRec list"
  t_iface :: "IfaceSample list"
  t_alerts :: "(nat \<times> AlertOp) list"
  t_latency :: "LatencySample list"
  t_next_query :: nat
  t_next_alert :: nat

definition db_empty :: Database where
  "db_empty = \<lparr>t_queries = [], t_devices = [], t_iface = [], t_alerts = [], t_latency = [],
     t_next_query = 1, t_next_alert = 1\<rparr>"

text \<open>\<open>COALESCE(new, old)\<close>.\<close>

definition coalesce :: "'a option \<Rightarrow> 'a option \<Rightarrow> 'a option" where
  "coalesce a b = (case a of Some x \<Rightarrow> Some x | None \<Rightarrow> b)"

definition release_ip :: "string \<Rightarrow> string \<Rightarrow> DeviceRec list \<Rightarrow> DeviceRec list" where
  "release_ip ip mac ds = map (\<lambda>d. if dv_ip d = Some ip \<and> dv_mac d \<noteq> mac then d\<lparr>dv_ip := None\<rparr> else d) ds"

definition upsert_device :: "DeviceOp \<Rightarrow> DeviceRec list \<Rightarrow> DeviceRec list" where
  "upsert_device op ds =
     (if list_ex (\<lambda>d. dv_mac d = do_mac op) ds
      then map (\<lambda>d. if dv_mac d = do_mac op
                    then d\<lparr>dv_ip := coalesce (do_ip op) (dv_ip d),
                           dv_hostname := coalesce (do_hostname op) (dv_hostname d),
                           dv_vendor := coalesce (do_vendor op) (dv_vendor d),
                           dv_randomized := do_randomized op,
                           dv_last_seen := do_ts op\<rparr>
                    else d) ds
      else ds @ [\<lparr>dv_mac = do_mac op, dv_ip = do_ip op, dv_hostname = do_hostname op,
                  dv_vendor = do_vendor op, dv_randomized = do_randomized op,
                  dv_first_seen = do_ts op, dv_last_seen = do_ts op\<rparr>])"

fun apply_op :: "WriteOp \<Rightarrow> Database \<Rightarrow> Database" where
  "apply_op (W_Alert a) db =
     db\<lparr>t_alerts := t_alerts db @ [(t_next_alert db, a)], t_next_alert := t_next_alert db + 1\<rparr>"
| "apply_op (W_Query e) db =
     db\<lparr>t_queries := t_queries db @ [(t_next_query db, e)], t_next_query := t_next_query db + 1\<rparr>"
| "apply_op (W_Iface s) db = db\<lparr>t_iface := t_iface db @ [s]\<rparr>"
| "apply_op (W_Latency l) db = db\<lparr>t_latency := t_latency db @ [l]\<rparr>"
| "apply_op (W_Device d) db =
     (let ds = (case do_ip d of Some ip \<Rightarrow> release_ip ip (do_mac d) (t_devices db) | None \<Rightarrow> t_devices db)
      in db\<lparr>t_devices := upsert_device d ds\<rparr>)"

text \<open>One transaction: \<open>ok\<close> says whether every statement and the commit succeed; if not, the
  transaction is rolled back.\<close>

definition flush :: "bool \<Rightarrow> WriteOp list \<Rightarrow> Database \<Rightarrow> Database \<times> bool" where
  "flush ok ops db = (if ok then (fold apply_op ops db, True) else (db, False))"

definition ALERT_RETENTION_DAYS :: int where
  "ALERT_RETENTION_DAYS = 90"

text \<open>The four statements of \<open>prune\<close>, of which the first \<open>k\<close> succeed; \<open>t1\<close> to \<open>t3\<close> are the clock
  readings.\<close>

definition prune :: "nat \<Rightarrow> nat \<Rightarrow> int \<Rightarrow> int \<Rightarrow> int \<Rightarrow> Database \<Rightarrow> Database" where
  "prune k retention_days t1 t2 t3 db =
     (let cutoff = t1 - int retention_days * 86400;
          db = (if 1 \<le> k then db\<lparr>t_queries := filter (\<lambda>(_, e). \<not> qe_ts e < cutoff) (t_queries db)\<rparr> else db);
          iface_cutoff = t2 - 3 * 86400;
          db = (if 2 \<le> k then db\<lparr>t_iface := filter (\<lambda>s. \<not> if_ts s < iface_cutoff) (t_iface db)\<rparr> else db);
          db = (if 3 \<le> k then db\<lparr>t_latency := filter (\<lambda>s. \<not> la_ts s < iface_cutoff) (t_latency db)\<rparr> else db);
          alert_cutoff = t3 - ALERT_RETENTION_DAYS * 86400
      in if 4 \<le> k then db\<lparr>t_alerts := filter (\<lambda>(_, a). \<not> ao_ts a < alert_cutoff) (t_alerts db)\<rparr> else db)"

text \<open>
  One turn of the writer thread: \<open>n\<close> operations beyond the first arrive before the flush deadline,
  at most 512 are taken in all; \<open>now\<close> is the clock at the retention check.
\<close>

definition writer_cycle ::
    "nat \<Rightarrow> bool \<Rightarrow> nat \<Rightarrow> instant \<Rightarrow> int \<Rightarrow> nat \<Rightarrow> Writer \<times> Database \<times> instant \<Rightarrow> Writer \<times> Database \<times> instant" where
  "writer_cycle n ok k now ts retention_days st =
     (case st of (w, db, last_prune) \<Rightarrow>
        if w_queue w = [] then st
        else
          let batch = take (min (Suc n) 512) (w_queue w);
              w = w\<lparr>w_queue := drop (min (Suc n) 512) (w_queue w)\<rparr>;
              db = fst (flush ok batch db)
          in if from_secs 3600 < duration_since now last_prune
             then (w, prune k retention_days ts ts ts db, now)
             else (w, db, last_prune))"

section \<open>Queries\<close>

definition wrap_i64 :: "int \<Rightarrow> int" where
  "wrap_i64 x = (x + 2 ^ 63) mod 2 ^ 64 - 2 ^ 63"

record KnownDevice =
  kd_mac :: string
  kd_ip :: "string option"
  kd_hostname :: "string option"
  kd_vendor :: "string option"
  kd_randomized :: bool

definition known_devices :: "Database \<Rightarrow> KnownDevice list" where
  "known_devices db =
     map (\<lambda>d. \<lparr>kd_mac = dv_mac d, kd_ip = dv_ip d, kd_hostname = dv_hostname d,
               kd_vendor = dv_vendor d, kd_randomized = dv_randomized d\<rparr>) (t_devices db)"

text \<open>\<open>queries q LEFT JOIN devices d ON d.ip = q.client_ip\<close>: one row per matching device, one without
  a name if there is none.\<close>

definition left_join :: "DeviceRec list \<Rightarrow> (nat \<times> QueryEvent) list \<Rightarrow> ((nat \<times> QueryEvent) \<times> DeviceRec option) list" where
  "left_join ds qs =
     concat (map (\<lambda>q. case filter (\<lambda>d. dv_ip d = Some (qe_client_ip (snd q))) ds of
                        [] \<Rightarrow> [(q, None)]
                      | ms \<Rightarrow> map (\<lambda>d. (q, Some d)) ms) qs)"

text \<open>The sizes the status page shows: \<open>size_of\<close> is the file system's answer, \<open>pragma\<close> what reading a
  setting of the connection gives.\<close>

record StorageSizes =
  db_bytes :: u64
  wal_bytes :: u64
  shm_bytes :: u64
  free_bytes :: u64
  incremental_vacuum :: bool

definition incremental_vacuum_available :: "(string \<Rightarrow> int option) \<Rightarrow> bool" where
  "incremental_vacuum_available pragma = (case pragma ''auto_vacuum'' of Some mode \<Rightarrow> mode = 2 | None \<Rightarrow> False)"

definition storage_sizes :: "(string \<Rightarrow> u64 option) \<Rightarrow> (string \<Rightarrow> int option) \<Rightarrow> string \<Rightarrow> StorageSizes" where
  "storage_sizes size_of pragma p =
     (let sz = (\<lambda>q. case size_of q of Some n \<Rightarrow> n | None \<Rightarrow> 0);
          get = (\<lambda>name. word_of_int (max (case pragma name of Some n \<Rightarrow> n | None \<Rightarrow> 0) 0) :: u64);
          page_size = get ''page_size'';
          free_pages = get ''freelist_count''
      in \<lparr>db_bytes = sz p, wal_bytes = sz (p @ ''-wal''), shm_bytes = sz (p @ ''-shm''),
          free_bytes = page_size * free_pages,
          incremental_vacuum = incremental_vacuum_available pragma\<rparr>)"

text \<open>The databases any sequence of transactions and retention passes makes of an empty one.\<close>

inductive db_run :: "Database \<Rightarrow> bool" where
  run_empty: "db_run db_empty"
| run_flush: "db_run db \<Longrightarrow> db_run (fst (flush ok ops db))"
| run_prune: "db_run db \<Longrightarrow> db_run (prune k days t1 t2 t3 db)"

section \<open>Laws\<close>

definition total_drops :: "Writer \<Rightarrow> u64" where
  "total_drops w = dc_queries (w_dropped w) + dc_devices (w_dropped w) + dc_monitoring (w_dropped w)
     + dc_alerts (w_dropped w)"

lemma total_drops_count: "total_drops (w\<lparr>w_dropped := count_drop op (w_dropped w)\<rparr>) = total_drops w + 1"
  by (cases op) (simp_all add: total_drops_def)

interpretation wq: lossy_queue writer_send w_queue w_connected WRITER_DEPTH total_drops
  by unfold_locales (auto simp: writer_send_def total_drops_count, simp add: total_drops_def)

text \<open>\<open>holds ds m ip\<close>: the row of device \<open>m\<close> has address \<open>ip\<close>.\<close>

definition holds :: "DeviceRec list \<Rightarrow> string \<Rightarrow> string \<Rightarrow> bool" where
  "holds ds m ip \<longleftrightarrow> list_ex (\<lambda>d. dv_mac d = m \<and> dv_ip d = Some ip) ds"

definition devices_wf :: "DeviceRec list \<Rightarrow> bool" where
  "devices_wf ds \<longleftrightarrow> distinct (map dv_mac ds) \<and> (\<forall>ip m m'. holds ds m ip \<and> holds ds m' ip \<longrightarrow> m = m')"

lemma release_macs [simp]: "map dv_mac (release_ip ip mac ds) = map dv_mac ds"
  by (induction ds) (simp_all add: release_ip_def)

lemma release_holds: "holds (release_ip ip mac ds) m ip' \<longleftrightarrow> holds ds m ip' \<and> (ip' = ip \<longrightarrow> m = mac)"
  by (induction ds) (auto simp: holds_def release_ip_def)

lemma upsert_macs:
  "map dv_mac (upsert_device op ds) =
     (if do_mac op \<in> dv_mac ` set ds then map dv_mac ds else map dv_mac ds @ [do_mac op])"
proof -
  have "list_ex (\<lambda>d. dv_mac d = do_mac op) ds \<longleftrightarrow> do_mac op \<in> dv_mac ` set ds"
    by (metis (mono_tags, lifting) image_iff list_ex_iff)
  moreover have "map dv_mac (map (\<lambda>d. if dv_mac d = m then d\<lparr>dv_ip := f d, dv_hostname := g d, dv_vendor := h d,
      dv_randomized := r, dv_last_seen := t\<rparr> else d) ds) = map dv_mac ds" for m f g h r t
    by (induction ds) simp_all
  ultimately show ?thesis by (simp add: upsert_device_def del: map_map)
qed

lemma upsert_holds:
  "holds (upsert_device op ds) m ip \<Longrightarrow>
     (if m = do_mac op then do_ip op = Some ip \<or> do_ip op = None \<and> holds ds m ip else holds ds m ip)"
  by (auto simp: upsert_device_def holds_def list_ex_iff coalesce_def split: if_splits option.splits)

lemma upsert_wf:
  assumes "devices_wf ds" "\<And>ip m. do_ip op = Some ip \<Longrightarrow> holds ds m ip \<Longrightarrow> m = do_mac op"
  shows "devices_wf (upsert_device op ds)"
proof -
  have "m = m'" if "holds (upsert_device op ds) m ip" "holds (upsert_device op ds) m' ip" for m m' ip
    using upsert_holds [OF that(1)] upsert_holds [OF that(2)] assms
    unfolding devices_wf_def by (auto split: if_splits)
  then show ?thesis using assms(1) by (auto simp: devices_wf_def upsert_macs)
qed

lemma apply_op_wf: "devices_wf (t_devices db) \<Longrightarrow> devices_wf (t_devices (apply_op op db))"
proof (cases op)
  case (W_Device d)
  assume wf: "devices_wf (t_devices db)"
  have "devices_wf (release_ip ip (do_mac d) (t_devices db))" for ip
    using wf by (auto simp: devices_wf_def release_holds)
  then have "devices_wf (upsert_device d (case do_ip d of Some ip \<Rightarrow> release_ip ip (do_mac d) (t_devices db)
      | None \<Rightarrow> t_devices db))"
    using wf by (intro upsert_wf) (auto simp: release_holds split: option.splits)
  then show ?thesis by (simp add: W_Device Let_def)
qed auto

lemma fold_ops_wf: "devices_wf (t_devices db) \<Longrightarrow> devices_wf (t_devices (fold apply_op ops db))"
  by (induction ops arbitrary: db) (auto simp: apply_op_wf)

lemma prune_devices [simp]: "t_devices (prune k days t1 t2 t3 db) = t_devices db"
  by (cases "1 \<le> k"; cases "2 \<le> k"; cases "3 \<le> k"; cases "4 \<le> k") (simp_all add: prune_def Let_def)

lemma empty_wf: "devices_wf []"
  by (simp add: devices_wf_def holds_def)

lemma db_run_wf: "db_run db \<Longrightarrow> devices_wf (t_devices db)"
  by (induction rule: db_run.induct) (auto simp: flush_def fold_ops_wf db_empty_def empty_wf)

lemma holds_Cons: "holds (d # ds) m ip \<longleftrightarrow> dv_mac d = m \<and> dv_ip d = Some ip \<or> holds ds m ip"
  by (simp add: holds_def)

lemma unique_filter: "devices_wf ds \<Longrightarrow> length (filter (\<lambda>d. dv_ip d = Some ip) ds) \<le> 1"
proof (induction ds)
  case (Cons d ds)
  have wf: "devices_wf ds" using Cons.prems unfolding devices_wf_def holds_Cons by simp blast
  have "filter (\<lambda>e. dv_ip e = Some ip) ds = []" if "dv_ip d = Some ip"
  proof (rule ccontr)
    assume "filter (\<lambda>e. dv_ip e = Some ip) ds \<noteq> []"
    then obtain e where e: "e \<in> set ds" "dv_ip e = Some ip" by (auto simp: filter_empty_conv)
    then have "holds (d # ds) (dv_mac e) ip" "holds (d # ds) (dv_mac d) ip"
      using that by (auto simp: holds_def list_ex_iff)
    then have "dv_mac e = dv_mac d" using Cons.prems by (auto simp: devices_wf_def)
    moreover have "dv_mac d \<notin> dv_mac ` set ds" using Cons.prems by (simp add: devices_wf_def)
    ultimately show False using e(1) by (metis imageI)
  qed
  with Cons.IH [OF wf] show ?case by auto
qed simp

lemma left_join_log: "devices_wf ds \<Longrightarrow> map fst (left_join ds qs) = qs"
proof (induction qs)
  case (Cons q qs)
  have "length (filter (\<lambda>d. dv_ip d = Some (qe_client_ip (snd q))) ds) \<le> 1" by (rule unique_filter [OF Cons.prems])
  then show ?case
    using Cons by (cases "filter (\<lambda>d. dv_ip d = Some (qe_client_ip (snd q))) ds") (auto simp: left_join_def)
qed (simp add: left_join_def)

text \<open>Row numbers grow with insertion and are never given out twice.\<close>

definition ids_wf :: "Database \<Rightarrow> bool" where
  "ids_wf db \<longleftrightarrow> distinct (map fst (t_queries db)) \<and> (\<forall>(i, _) \<in> set (t_queries db). i < t_next_query db)"

lemma apply_op_ids: "ids_wf db \<Longrightarrow> ids_wf (apply_op op db)"
  by (cases op) (force simp: ids_wf_def Let_def)+

lemma fold_ops_ids: "ids_wf db \<Longrightarrow> ids_wf (fold apply_op ops db)"
  by (induction ops arbitrary: db) (simp_all add: apply_op_ids)

lemma prune_ids: "ids_wf db \<Longrightarrow> ids_wf (prune k days t1 t2 t3 db)"
  by (auto simp: ids_wf_def prune_def Let_def distinct_map inj_on_def)

lemma db_run_ids: "db_run db \<Longrightarrow> ids_wf db"
  by (induction rule: db_run.induct)
    (auto simp: flush_def fold_ops_ids prune_ids, simp add: ids_wf_def db_empty_def)

lemma alert_ids_fold:
  "\<forall>(i, _) \<in> set (t_alerts db). i < t_next_alert db \<Longrightarrow>
     \<forall>(i, _) \<in> set (t_alerts (fold apply_op ops db)). i < t_next_alert (fold apply_op ops db)"
proof (induction ops arbitrary: db)
  case (Cons op ops)
  have "\<forall>(i, _) \<in> set (t_alerts (apply_op op db)). i < t_next_alert (apply_op op db)"
    using Cons.prems by (cases op) (auto simp: Let_def less_SucI)
  then show ?case using Cons.IH by simp
qed simp

lemma db_run_alert_ids: "db_run db \<Longrightarrow> \<forall>(i, _) \<in> set (t_alerts db). i < t_next_alert db"
  by (induction rule: db_run.induct)
    (auto simp: flush_def alert_ids_fold [rule_format] prune_def Let_def db_empty_def dest: alert_ids_fold [THEN bspec, rotated])

section \<open>Properties\<close>

text \<open>
  Attribution in the dashboard is never duplicated: in any database netwatch can have written,
  no two devices hold the same address, so joining the query log with the devices by address yields
  every logged query exactly once, in order.
\<close>

lemma one_device_per_address:
  assumes "db_run db"
  shows "distinct (map dv_mac (t_devices db)) \<and>
    map fst (left_join (t_devices db) (t_queries db)) = t_queries db"
  using db_run_wf [OF assms] by (simp add: left_join_log devices_wf_def)

definition demo_dev :: "string \<Rightarrow> DeviceOp" where
  "demo_dev mac = \<lparr>do_mac = mac, do_ip = Some ''192.168.1.5'', do_hostname = None, do_vendor = None,
     do_randomized = False, do_ts = 7\<rparr>"

lemma one_device_per_address_witness:
  "distinct (map dv_mac (t_devices (fst (flush True [W_Device (demo_dev ''a''), W_Device (demo_dev ''b'')] db_empty))))"
  using one_device_per_address [OF run_flush [OF run_empty, of True "[W_Device (demo_dev ''a''), W_Device (demo_dev ''b'')]"]]
  by blast

text \<open>
  Recording never blocks and never loses an event silently: sending any operations to a writer
  leaves at most 8192 queued, keeps what was queued and the accepted ones in order, and every refused
  operation is counted in one of the drop counters (which wrap at 64 bits).
\<close>

lemma writer_accounts_for_every_event:
  assumes "length (w_queue w) \<le> WRITER_DEPTH" "w_connected w"
  shows "length (w_queue (fold writer_send ops w)) \<le> 8192 \<and>
    w_queue (fold writer_send ops w) = w_queue w @ take (8192 - length (w_queue w)) ops \<and>
    word_of_nat (length (w_queue (fold writer_send ops w))) + total_drops (fold writer_send ops w) =
      word_of_nat (length (w_queue w)) + total_drops w + word_of_nat (length ops)"
  using wq.bounded [OF assms(1), of ops] wq.fifo [OF assms(2), of ops] wq.conserved [of ops w]
  by (simp add: WRITER_DEPTH_def)

lemma writer_accounts_for_every_event_witness:
  "w_queue (fold writer_send [W_Device (demo_dev ''a'')] writer_new) = [W_Device (demo_dev ''a'')]"
  using writer_accounts_for_every_event [of writer_new "[W_Device (demo_dev ''a'')]"]
  by (simp add: writer_new_def WRITER_DEPTH_def)

definition known :: "DeviceRec \<Rightarrow> DeviceRec list \<Rightarrow> bool" where
  "known d ds \<longleftrightarrow> list_ex (\<lambda>e. dv_mac e = dv_mac d \<and> dv_first_seen e = dv_first_seen d \<and>
     (dv_hostname d = None \<or> dv_hostname e \<noteq> None) \<and> (dv_vendor d = None \<or> dv_vendor e \<noteq> None)) ds"

lemma known_release: "known d ds \<Longrightarrow> known d (release_ip ip m ds)"
  by (induction ds) (auto simp: known_def release_ip_def)

lemma known_upsert: "known d ds \<Longrightarrow> known d (upsert_device op ds)"
proof -
  have mono: "list_ex P ds \<Longrightarrow> (\<And>e. P e \<Longrightarrow> P (f e)) \<Longrightarrow> list_ex P (map f ds)" for P f and ds :: "DeviceRec list"
    by (auto simp: list_ex_iff)
  assume "known d ds"
  then show ?thesis
    unfolding known_def upsert_device_def by (auto simp: coalesce_def split: option.splits if_splits intro!: mono)
qed

lemma known_apply: "known d (t_devices db) \<Longrightarrow> known d (t_devices (apply_op op db))"
  by (cases op) (auto simp: known_release known_upsert Let_def split: option.splits)

lemma known_fold: "known d (t_devices db) \<Longrightarrow> known d (t_devices (fold apply_op ops db))"
  by (induction ops arbitrary: db) (auto simp: known_apply)

text \<open>
  A later sighting never erases what is known of a device: whatever rows a transaction writes,
  every device of the database is still there afterwards with its first-seen time, with a name if it
  had one and with a vendor if it had one.
\<close>

lemma devices_are_never_forgotten:
  assumes "d \<in> set (t_devices db)"
  shows "list_ex (\<lambda>e. dv_mac e = dv_mac d \<and> dv_first_seen e = dv_first_seen d \<and>
     (dv_hostname d = None \<or> dv_hostname e \<noteq> None) \<and> (dv_vendor d = None \<or> dv_vendor e \<noteq> None))
    (t_devices (fst (flush ok ops db)))"
proof -
  have "known d (t_devices db)" using assms by (auto simp: known_def list_ex_iff)
  then show ?thesis using known_fold [of d db ops] by (simp add: flush_def known_def)
qed

lemma devices_are_never_forgotten_witness:
  "list_ex (\<lambda>e. dv_mac e = ''a'' \<and> dv_first_seen e = 7)
     (t_devices (fst (flush True [W_Device (demo_dev ''b'')] (fst (flush True [W_Device (demo_dev ''a'')] db_empty)))))"
proof -
  have d: "t_devices (fst (flush True [W_Device (demo_dev ''a'')] db_empty)) =
     [\<lparr>dv_mac = ''a'', dv_ip = Some ''192.168.1.5'', dv_hostname = None, dv_vendor = None,
       dv_randomized = False, dv_first_seen = 7, dv_last_seen = 7\<rparr>]"
    by (simp add: flush_def demo_dev_def db_empty_def release_ip_def upsert_device_def)
  then show ?thesis
    using devices_are_never_forgotten [of _ "fst (flush True [W_Device (demo_dev ''a'')] db_empty)" True
        "[W_Device (demo_dev ''b'')]"] by simp
qed

section \<open>Batching is invisible\<close>

text \<open>
  The abstract log: every accepted operation is applied on its own, in the order sent. The concrete
  state is the queue and the database, and stands for the database once the queue is drained.
\<close>

datatype WriterEvent = Send WriteOp | Cycle nat bool nat instant int

type_synonym writer_state = "Writer \<times> Database \<times> instant"

fun writer_event :: "nat \<Rightarrow> WriterEvent \<Rightarrow> writer_state \<Rightarrow> writer_state" where
  "writer_event days (Send op) (w, rest) = (writer_send op w, rest)"
| "writer_event days (Cycle n ok k now ts) st = writer_cycle n ok k now ts days st"

definition eventual :: "writer_state \<Rightarrow> Database" where
  "eventual st = fold apply_op (w_queue (fst st)) (fst (snd st))"

definition has_room :: "Writer \<Rightarrow> bool" where
  "has_room w \<longleftrightarrow> w_connected w \<and> length (w_queue w) < WRITER_DEPTH"

fun accepted :: "nat \<Rightarrow> WriterEvent list \<Rightarrow> writer_state \<Rightarrow> WriteOp list" where
  "accepted days [] st = []"
| "accepted days (Send op # es) st =
     (if has_room (fst st) then [op] else []) @ accepted days es (writer_event days (Send op) st)"
| "accepted days (e # es) st = accepted days es (writer_event days e st)"

text \<open>A cycle whose transaction commits, less than an hour after the last retention pass.\<close>

fun plain_cycle :: "instant \<Rightarrow> WriterEvent \<Rightarrow> bool" where
  "plain_cycle t (Send _) \<longleftrightarrow> True"
| "plain_cycle t (Cycle n ok k now ts) \<longleftrightarrow> ok \<and> \<not> from_secs 3600 < duration_since now t"

lemma send_refines:
  "eventual (writer_event days (Send op) st) = fold apply_op (if has_room (fst st) then [op] else []) (eventual st)"
  by (cases st) (simp add: eventual_def has_room_def writer_send_def)

lemma cycle_refines:
  assumes "plain_cycle (snd (snd st)) (Cycle n ok k now ts)"
  shows "eventual (writer_event days (Cycle n ok k now ts) st) = eventual st"
    "snd (snd (writer_event days (Cycle n ok k now ts) st)) = snd (snd st)"
proof -
  obtain w db t where st: "st = (w, db, t)" by (cases st)
  have "fold apply_op (drop m (w_queue w)) (fold apply_op (take m (w_queue w)) db) = fold apply_op (w_queue w) db" for m
    by (metis append_take_drop_id comp_apply fold_append)
  then show "eventual (writer_event days (Cycle n ok k now ts) st) = eventual st"
    "snd (snd (writer_event days (Cycle n ok k now ts) st)) = snd (snd st)"
    using assms by (auto simp: st eventual_def writer_cycle_def flush_def Let_def)
qed

text \<open>
  C29. Batching is invisible: however the writer thread groups operations into transactions, while its
  transactions commit and no retention pass falls in between, the database together with what is still
  queued is the one obtained by applying every accepted operation on its own, in the order sent.
\<close>

theorem writer_refines_log:
  assumes "list_all (plain_cycle (snd (snd st))) es"
  shows "eventual (fold (writer_event days) es st) = fold apply_op (accepted days es st) (eventual st)"
  using assms
proof (induction es arbitrary: st)
  case (Cons e es)
  show ?case
  proof (cases e)
    case (Send op)
    moreover have "snd (snd (writer_event days (Send op) st)) = snd (snd st)" by (cases st) simp
    ultimately show ?thesis
      using Cons.IH [of "writer_event days (Send op) st"] Cons.prems by (simp add: send_refines del: writer_event.simps)
  next
    case (Cycle n ok k now ts)
    then have p: "plain_cycle (snd (snd st)) (Cycle n ok k now ts)" using Cons.prems by simp
    show ?thesis
      using Cons.IH [of "writer_event days e st"] Cons.prems cycle_refines [OF p, of days] Cycle
      by (simp del: writer_event.simps plain_cycle.simps)
  qed
qed simp

definition demo_latency :: "int \<Rightarrow> WriteOp" where
  "demo_latency t = W_Latency \<lparr>la_ts = t, la_target = ''gateway'', la_ms = 3\<rparr>"

theorem writer_refines_log_witness:
  "list_all (plain_cycle 0) [Send (demo_latency 1), Send (demo_latency 2), Cycle 0 True 0 5 5, Send (demo_latency 3)] \<and>
   map la_ts (t_latency (eventual (fold (writer_event 14)
     [Send (demo_latency 1), Send (demo_latency 2), Cycle 0 True 0 5 5, Send (demo_latency 3)] (writer_new, db_empty, 0)))) = [1, 2, 3]"
proof -
  let ?es = "[Send (demo_latency 1), Send (demo_latency 2), Cycle 0 True 0 5 5, Send (demo_latency 3)]"
  have p: "list_all (plain_cycle (snd (snd (writer_new, db_empty, 0)))) ?es"
    by (simp add: duration_since_def from_secs_def)
  moreover have "accepted 14 ?es (writer_new, db_empty, 0) = [demo_latency 1, demo_latency 2, demo_latency 3]"
    by (simp add: has_room_def writer_new_def writer_send_def writer_cycle_def WRITER_DEPTH_def Let_def from_secs_def
        duration_since_def)
  moreover have "eventual (writer_new, db_empty, 0) = db_empty" by (simp add: eventual_def writer_new_def)
  ultimately show ?thesis
    using writer_refines_log [OF p, of 14] by (simp add: demo_latency_def db_empty_def)
qed

end
