(* ===== verification/Reports.thy ===== *)
theory Reports
  imports Db
begin

text \<open>
  The read side of \<open>src/db.rs\<close>: the queries the HTTP interface and the storm scan ask. A \<open>SELECT\<close> is a
  function of the tables. \<open>ORDER BY\<close> is a stable sort with the columns as a lexicographic key, \<open>DESC\<close>
  the opposite order; the order in which SQLite visits the rows or groups that compare equal is an
  argument (\<open>visit\<close>, \<open>order\<close>). Shown: the pages of the query log cut the matching rows, newest first, into
  consecutive pieces, and the chart counts every query of its window in exactly one bar.
\<close>

section \<open>The query log and the rankings\<close>

text \<open>\<open>now() - hours.max(1) * 3_600\<close>, as the release build computes it.\<close>

definition since_hours :: "int \<Rightarrow> int \<Rightarrow> int" where
  "since_hours now hours = wrap_i64 (now - wrap_i64 (max hours 1 * 3600))"

record QueryFilter =
  f_limit :: nat
  f_offset :: nat
  f_search :: "string option"
  f_client :: "string option"
  f_status :: "string option"

text \<open>The \<open>WHERE\<close> clause of the query log; \<open>like\<close> is SQLite's \<open>LIKE\<close> operator, pattern first.\<close>

definition query_matches :: "(string \<Rightarrow> string \<Rightarrow> bool) \<Rightarrow> QueryFilter \<Rightarrow> QueryEvent \<Rightarrow> bool" where
  "query_matches like f e \<longleftrightarrow>
     (case f_search f of Some s \<Rightarrow> like (''%'' @ s @ ''%'') (qe_domain e) | None \<Rightarrow> True)
     \<and> (case f_client f of Some c \<Rightarrow> qe_client_ip e = c | None \<Rightarrow> True)
     \<and> (case f_status f of Some s \<Rightarrow> status_str (qe_status e) = s | None \<Rightarrow> True)"

text \<open>\<open>ORDER BY q.ts DESC, q.id DESC\<close>.\<close>

definition newest_first :: "(nat \<times> QueryEvent) \<times> 'd \<Rightarrow> int desc \<times> nat desc" where
  "newest_first r = (case r of ((i, e), _) \<Rightarrow> (Desc (qe_ts e), Desc i))"

definition recent_queries ::
    "(string \<Rightarrow> string \<Rightarrow> bool) \<Rightarrow> Database \<Rightarrow> QueryFilter \<Rightarrow> ((nat \<times> QueryEvent) \<times> DeviceRec option) list" where
  "recent_queries like db f =
     (let rows = filter (\<lambda>((_, e), _). query_matches like f e) (left_join (t_devices db) (t_queries db));
          sorted = sort_key newest_first rows
      in take (min (max (f_limit f) 1) 1000) (drop (f_offset f) sorted))"

text \<open>\<open>GROUP BY\<close> a text column with a count per group; \<open>order\<close> is the order SQLite visits the groups
  in, and \<open>ORDER BY n DESC\<close> sorts them stably by it.\<close>

definition group_count :: "(string list \<Rightarrow> string list) \<Rightarrow> ('r \<Rightarrow> string) \<Rightarrow> 'r list \<Rightarrow> (string \<times> nat) list" where
  "group_count order key rows =
     map (\<lambda>k. (k, length (filter (\<lambda>r. key r = k) rows))) (order (remdups (map key rows)))"

definition by_count_desc :: "(string \<times> nat) list \<Rightarrow> (string \<times> nat) list" where
  "by_count_desc gs = sort_key (\<lambda>(_, n). Desc n) gs"

record Counted =
  cn_label :: string
  cn_sublabel :: "string option"
  cn_count :: nat

text \<open>\<open>pick\<close> is the row a bare column of an aggregate is taken from.\<close>

definition top_domains ::
    "(string list \<Rightarrow> string list) \<Rightarrow> (QueryEvent list \<Rightarrow> QueryEvent) \<Rightarrow> int \<Rightarrow> int \<Rightarrow> nat \<Rightarrow> bool \<Rightarrow> Database \<Rightarrow> Counted list" where
  "top_domains order pick now hours limit blocked db =
     (let since = since_hours now hours;
          rows = filter (\<lambda>e. since \<le> qe_ts e \<and> (status_str (qe_status e) = ''blocked'') = blocked)
                   (map snd (t_queries db))
      in take (min (max limit 1) 200)
           (map (\<lambda>(d, n). \<lparr>cn_label = d,
                cn_sublabel = (if blocked then qe_blocklist (pick (filter (\<lambda>e. qe_domain e = d) rows)) else None),
                cn_count = n\<rparr>)
             (by_count_desc (group_count order qe_domain rows))))"

definition top_clients ::
    "(string list \<Rightarrow> string list) \<Rightarrow> (((nat \<times> QueryEvent) \<times> DeviceRec option) list \<Rightarrow> DeviceRec option)
       \<Rightarrow> int \<Rightarrow> int \<Rightarrow> nat \<Rightarrow> Database \<Rightarrow> Counted list" where
  "top_clients order pick now hours limit db =
     (let since = since_hours now hours;
          rows = filter (\<lambda>((_, e), _). since \<le> qe_ts e) (left_join (t_devices db) (t_queries db));
          client = (\<lambda>((_, e), _). qe_client_ip e)
      in take (min (max limit 1) 200)
           (map (\<lambda>(c, n). \<lparr>cn_label = c,
                cn_sublabel = (case pick (filter (\<lambda>r. client r = c) rows) of
                    None \<Rightarrow> None | Some d \<Rightarrow> coalesce (dv_hostname d) (dv_vendor d)),
                cn_count = n\<rparr>)
             (by_count_desc (group_count order client rows))))"

definition query_types :: "(string list \<Rightarrow> string list) \<Rightarrow> int \<Rightarrow> int \<Rightarrow> Database \<Rightarrow> Counted list" where
  "query_types order now hours db =
     (let since = since_hours now hours;
          rows = filter (\<lambda>e. since \<le> qe_ts e) (map snd (t_queries db))
      in take 12 (map (\<lambda>(t, n). \<lparr>cn_label = t, cn_sublabel = None, cn_count = n\<rparr>)
           (by_count_desc (group_count order qe_qtype rows))))"

record Bucket =
  bk_ts :: int
  bk_allowed :: nat
  bk_blocked :: nat

text \<open>SQL's integer division truncates towards zero.\<close>

definition sql_bucket :: "int \<Rightarrow> int \<Rightarrow> int" where
  "sql_bucket bucket ts = (if 0 \<le> ts then ts div bucket else - (- ts div bucket)) * bucket"

definition timeseries :: "int \<Rightarrow> int \<Rightarrow> int \<Rightarrow> Database \<Rightarrow> Bucket list" where
  "timeseries now hours bucket_secs db =
     (let bucket = max bucket_secs 60;
          since = since_hours now hours;
          rows = filter (\<lambda>e. since \<le> qe_ts e) (map snd (t_queries db));
          keys = sort (remdups (map (\<lambda>e. sql_bucket bucket (qe_ts e)) rows))
      in map (\<lambda>b. let rs = filter (\<lambda>e. sql_bucket bucket (qe_ts e) = b) rows in
             \<lparr>bk_ts = b,
              bk_allowed = length (filter (\<lambda>e. status_str (qe_status e) \<noteq> ''blocked'') rs),
              bk_blocked = length (filter (\<lambda>e. status_str (qe_status e) = ''blocked'') rs)\<rparr>) keys)"

definition recent_alerts :: "nat \<Rightarrow> Database \<Rightarrow> (nat \<times> AlertOp) list" where
  "recent_alerts limit db =
     take limit (sort_key (\<lambda>(i, a). (Desc (ao_ts a), Desc i)) (t_alerts db))"

record DeviceRow =
  dr_device :: DeviceRec
  dr_queries_24h :: nat
  dr_blocked_24h :: nat

definition device_rows :: "(DeviceRec list \<Rightarrow> DeviceRec list) \<Rightarrow> int \<Rightarrow> Database \<Rightarrow> DeviceRow list" where
  "device_rows visit now db =
     (let day = now - 86400 in
      map (\<lambda>d. let qs = filter (\<lambda>e. day \<le> qe_ts e \<and> Some (qe_client_ip e) = dv_ip d) (map snd (t_queries db)) in
             \<lparr>dr_device = d, dr_queries_24h = length qs,
              dr_blocked_24h = length (filter (\<lambda>e. status_str (qe_status e) = ''blocked'') qs)\<rparr>)
        (sort_key (\<lambda>d. Desc (dv_last_seen d)) (visit (t_devices db))))"

definition iface_series :: "(IfaceSample list \<Rightarrow> IfaceSample list) \<Rightarrow> int \<Rightarrow> int \<Rightarrow> Database \<Rightarrow> IfaceSample list" where
  "iface_series visit now minutes db =
     (let since = wrap_i64 (now - wrap_i64 (max minutes 1 * 60)) in
      sort_key if_ts (visit (filter (\<lambda>s. since \<le> if_ts s) (t_iface db))))"

text \<open>The newest sample of each target; \<open>pick\<close> is the row SQLite takes when several share the newest
  time.\<close>

definition latest_latency ::
    "(string list \<Rightarrow> string list) \<Rightarrow> (LatencySample list \<Rightarrow> LatencySample) \<Rightarrow> Database \<Rightarrow> LatencySample list" where
  "latest_latency order pick db =
     map (\<lambda>t. let rs = filter (\<lambda>l. la_target l = t) (t_latency db)
              in pick (filter (\<lambda>l. list_all (\<lambda>l2. la_ts l2 \<le> la_ts l) rs) rs))
       (order (remdups (map la_target (t_latency db))))"

text \<open>The counts of \<open>summary\<close>; the averages and percentages the page shows are computed from them.\<close>

record Summary =
  total_24h :: nat
  blocked_24h :: nat
  cached_24h :: nat
  clients_24h :: nat
  unique_domains_24h :: nat
  total_1h :: nat
  device_count :: nat
  devices_active_24h :: nat

definition summary :: "int \<Rightarrow> Database \<Rightarrow> Summary" where
  "summary now db =
     (let day = now - 86400;
          hour = now - 3600;
          rows = filter (\<lambda>e. day \<le> qe_ts e) (map snd (t_queries db))
      in \<lparr>total_24h = length rows,
          blocked_24h = length (filter (\<lambda>e. status_str (qe_status e) = ''blocked'') rows),
          cached_24h = length (filter (\<lambda>e. status_str (qe_status e) = ''cached'') rows),
          clients_24h = length (remdups (map qe_client_ip rows)),
          unique_domains_24h = length (remdups (map qe_domain rows)),
          total_1h = length (filter (\<lambda>e. hour \<le> qe_ts e) (map snd (t_queries db))),
          device_count = length (t_devices db),
          devices_active_24h = length (filter (\<lambda>d. day \<le> dv_last_seen d) (t_devices db))\<rparr>)"

section \<open>Anomalies\<close>

definition nxdomain_offenders ::
    "(string list \<Rightarrow> string list) \<Rightarrow> int \<Rightarrow> nat \<Rightarrow> nat \<Rightarrow> Database \<Rightarrow> (string \<times> nat) list" where
  "nxdomain_offenders order now window_mins threshold db =
     (let cutoff = now - int window_mins * 60;
          rows = filter (\<lambda>e. cutoff \<le> qe_ts e \<and> status_str (qe_status e) = ''nxdomain'') (map snd (t_queries db))
      in by_count_desc (filter (\<lambda>(_, n). threshold \<le> n) (group_count order qe_client_ip rows)))"

record BypassSuspect =
  bs_mac :: string
  bs_ip :: "string option"
  bs_hostname :: "string option"
  bs_vendor :: "string option"
  bs_last_seen :: int
  bs_queries :: nat

definition bypass_suspects ::
    "(DeviceRec list \<Rightarrow> DeviceRec list) \<Rightarrow> int \<Rightarrow> nat \<Rightarrow> nat \<Rightarrow> nat \<Rightarrow> Database \<Rightarrow> BypassSuspect list" where
  "bypass_suspects visit now window_hours max_queries limit db =
     (let cutoff = now - int window_hours * 3600;
          rows = map (\<lambda>d. \<lparr>bs_mac = dv_mac d, bs_ip = dv_ip d, bs_hostname = dv_hostname d,
                           bs_vendor = dv_vendor d, bs_last_seen = dv_last_seen d,
                           bs_queries = length (filter (\<lambda>(_, e). Some (qe_client_ip e) = dv_ip d \<and> cutoff \<le> qe_ts e)
                             (t_queries db))\<rparr>)
                   (filter (\<lambda>d. cutoff \<le> dv_last_seen d \<and> dv_ip d \<noteq> None) (visit (t_devices db)));
          kept = filter (\<lambda>s. bs_queries s \<le> max_queries) rows
      in take limit (sort_key (\<lambda>s. (bs_queries s, Desc (bs_last_seen s))) kept))"

section \<open>Pages of the query log\<close>

definition newer :: "nat \<times> QueryEvent \<Rightarrow> nat \<times> QueryEvent \<Rightarrow> bool" where
  "newer a b \<longleftrightarrow> qe_ts (snd b) < qe_ts (snd a) \<or> qe_ts (snd b) = qe_ts (snd a) \<and> fst b < fst a"

lemma joined_matches:
  assumes "db_run db"
  shows "map fst (filter (\<lambda>((_, e), _). P e) (left_join (t_devices db) (t_queries db))) =
    filter (\<lambda>(_, e). P e) (t_queries db)"
proof -
  have "filter (\<lambda>((_, e), _). P e) rows = filter ((\<lambda>(_, e). P e) \<circ> fst) rows" for rows :: "((nat \<times> QueryEvent) \<times> DeviceRec option) list"
    by (rule filter_cong) auto
  then show ?thesis using left_join_log [OF db_run_wf [OF assms]] by (metis filter_map)
qed

lemma newest_first_newer:
  "newest_first (q, d) \<le> newest_first (q', d') \<Longrightarrow> fst q \<noteq> fst q' \<Longrightarrow> newer q q'"
  by (cases q; cases q') (auto simp: newest_first_def newer_def less_eq_prod_def)

text \<open>All the rows a filter lets through, in the order the log shows them.\<close>

definition log_rows :: "(string \<Rightarrow> string \<Rightarrow> bool) \<Rightarrow> Database \<Rightarrow> QueryFilter \<Rightarrow> (nat \<times> QueryEvent) list" where
  "log_rows like db f = map fst (sort_key newest_first
     (filter (\<lambda>((_, e), _). query_matches like f e) (left_join (t_devices db) (t_queries db))))"

lemma log_rows_mset:
  "db_run db \<Longrightarrow> mset (log_rows like db f) = mset (filter (\<lambda>(_, e). query_matches like f e) (t_queries db))"
  by (simp add: log_rows_def mset_map joined_matches [symmetric])

lemma log_rows_sorted:
  assumes "db_run db"
  shows "sorted_wrt newer (log_rows like db f)"
proof -
  let ?r = "filter (\<lambda>((_, e), _). query_matches like f e) (left_join (t_devices db) (t_queries db))"
  have "distinct (map fst (filter (\<lambda>(_, e). query_matches like f e) (t_queries db)))"
    using db_run_ids [OF assms] by (simp add: ids_wf_def distinct_map_filter)
  then have "distinct (map fst (log_rows like db f))"
    by (metis log_rows_mset [OF assms] mset_eq_imp_distinct_iff mset_map)
  then have "distinct (map (fst \<circ> fst) (sort_key newest_first ?r))" by (simp add: log_rows_def)
  moreover have "sorted_wrt (\<lambda>a b. newest_first a \<le> newest_first b) (sort_key newest_first ?r)"
    using sorted_sort_key [of newest_first ?r] by (simp add: sorted_wrt_map)
  ultimately have "sorted_wrt (\<lambda>a b. newer (fst a) (fst b)) (sort_key newest_first ?r)"
    by (elim sorted_wrt_distinct [rotated]) (auto intro: newest_first_newer)
  then show ?thesis by (simp add: log_rows_def sorted_wrt_map)
qed

lemma log_page:
  assumes "1 \<le> L" "L \<le> 1000"
  shows "map fst (recent_queries like db (f\<lparr>f_limit := L, f_offset := k\<rparr>)) = take L (drop k (log_rows like db f))"
proof -
  have "query_matches like (f\<lparr>f_limit := L, f_offset := k\<rparr>) = query_matches like f"
    by (rule ext) (simp add: query_matches_def)
  then show ?thesis using assms by (simp add: recent_queries_def log_rows_def Let_def take_map drop_map)
qed

text \<open>A query that is inserted with the latest time heads the unfiltered log.\<close>

lemma newest_listed_first:
  assumes "db_run db" "\<forall>(_, e) \<in> set (t_queries db). qe_ts e \<le> qe_ts ev"
    and "f_search f = None" "f_client f = None" "f_status f = None" "f_offset f = 0"
  shows "\<exists>d rows. recent_queries like (apply_op (W_Query ev) db) f = ((t_next_query db, ev), d) # rows"
proof -
  let ?db = "apply_op (W_Query ev) db" and ?new = "(t_next_query db, ev)"
  have run: "db_run ?db" using run_flush [OF assms(1), of True "[W_Query ev]"] by (simp add: flush_def)
  have all: "query_matches like f e" for e using assms(3-5) by (simp add: query_matches_def)
  have "set (log_rows like ?db f) = set (t_queries ?db)"
    by (metis (no_types, lifting) all case_prodI2 filter_True log_rows_mset [OF run] mset_eq_setD)
  then have mem: "set (log_rows like ?db f) = insert ?new (set (t_queries db))" by auto
  obtain x xs where log: "log_rows like ?db f = x # xs" using mem by (cases "log_rows like ?db f") auto
  have "x = ?new"
  proof (rule ccontr)
    assume "x \<noteq> ?new"
    then have "?new \<in> set xs" "x \<in> set (t_queries db)" using mem log by auto
    then have "newer x ?new" "fst x < t_next_query db" "qe_ts (snd x) \<le> qe_ts ev"
      using log_rows_sorted [OF run, of like f] log db_run_ids [OF assms(1)] assms(2) by (auto simp: ids_wf_def)
    then show False by (simp add: newer_def)
  qed
  moreover have "map fst (recent_queries like ?db f) = take (min (max (f_limit f) 1) 1000) (log_rows like ?db f)"
    using assms(6) by (simp add: recent_queries_def log_rows_def Let_def take_map)
  ultimately show ?thesis using log
    by (cases "recent_queries like ?db f") (auto simp: take_Cons split: nat.splits)
qed

text \<open>
  C20. Paging through the query log shows every matching query once: in any database netwatch can have
  written, the consecutive pages of any allowed length, put together, are the logged queries that match the
  filter, each exactly once, newest first and among equal times the later row first, also where devices
  have shared or changed addresses.
\<close>

theorem query_log_pages:
  assumes "db_run db" "1 \<le> L" "L \<le> 1000"
  shows "(let page = (\<lambda>k. map fst (recent_queries like db (f\<lparr>f_limit := L, f_offset := k * L\<rparr>)));
              log = concat (map page [0..<Suc (length (t_queries db) div L)])
     in mset log = mset (filter (\<lambda>(_, e). query_matches like f e) (t_queries db)) \<and> sorted_wrt newer log)"
proof -
  let ?log = "log_rows like db f"
  have "length ?log \<le> length (t_queries db)"
    by (metis length_filter_le log_rows_mset [OF assms(1)] size_mset)
  moreover have "length (t_queries db) < Suc (length (t_queries db) div L) * L"
    using assms(2) dividend_less_div_times [of L "length (t_queries db)"] by simp
  ultimately have "take (Suc (length (t_queries db) div L) * L) ?log = ?log" by simp
  then show ?thesis
    using log_rows_mset [OF assms(1), of like f] log_rows_sorted [OF assms(1), of like f]
      pages_concat [of L ?log "Suc (length (t_queries db) div L)"]
    by (simp only: Let_def log_page [OF assms(2,3)])
qed

definition demo_query :: "int \<Rightarrow> string \<Rightarrow> QueryStatus \<Rightarrow> QueryEvent" where
  "demo_query ts d s = \<lparr>qe_ts = ts, qe_client_ip = ''10.0.0.9'', qe_domain = d, qe_qtype = ''A'', qe_status = s,
     qe_elapsed_ms = None, qe_answer = None, qe_blocklist = None\<rparr>"

definition demo_log :: Database where
  "demo_log = fst (flush True [W_Query (demo_query 90 ''a'' Forwarded), W_Query (demo_query 70 ''b'' Blocked),
     W_Query (demo_query 90 ''c'' Blocked)] db_empty)"

lemma demo_log_rows: "t_queries demo_log = [(1, demo_query 90 ''a'' Forwarded), (2, demo_query 70 ''b'' Blocked), (3, demo_query 90 ''c'' Blocked)]"
  by (simp add: demo_log_def flush_def db_empty_def)

lemma demo_log_run: "db_run demo_log"
  unfolding demo_log_def by (intro db_run.intros)

theorem query_log_pages_witness:
  "let page = (\<lambda>k. map fst (recent_queries (\<lambda>_ _. True) demo_log \<lparr>f_limit = 2, f_offset = k * 2, f_search = None, f_client = None, f_status = None\<rparr>))
   in mset (page 0 @ page 1) = mset (t_queries demo_log) \<and> sorted_wrt newer (page 0 @ page 1)"
  using query_log_pages [OF demo_log_run, of 2 "\<lambda>_ _. True" "\<lparr>f_limit = 2, f_offset = 0, f_search = None, f_client = None, f_status = None\<rparr>"]
  by (simp add: Let_def demo_log_rows query_matches_def)

section \<open>The chart\<close>

definition in_window :: "int \<Rightarrow> int \<Rightarrow> Database \<Rightarrow> QueryEvent list" where
  "in_window now hours db = filter (\<lambda>e. since_hours now hours \<le> qe_ts e) (map snd (t_queries db))"

lemma sql_bucket_mod: "0 \<le> ts \<Longrightarrow> sql_bucket b ts = ts - ts mod b"
  by (simp add: sql_bucket_def minus_mod_eq_div_mult)

lemma sql_bucket_iff:
  assumes "0 \<le> ts" "0 < b" "b dvd k"
  shows "sql_bucket b ts = k \<longleftrightarrow> k \<le> ts \<and> ts < k + b"
proof
  assume "sql_bucket b ts = k"
  then show "k \<le> ts \<and> ts < k + b"
    using assms pos_mod_bound [of b ts] pos_mod_sign [of b ts] by (auto simp: sql_bucket_mod)
next
  assume k: "k \<le> ts \<and> ts < k + b"
  obtain q where q: "k = b * q" using assms(3) by blast
  have "ts div b = q" using k int_div_pos_eq [of ts b q "ts - k"] by (simp add: q)
  then show "sql_bucket b ts = k" using assms(1) q by (simp add: sql_bucket_def)
qed

lemma status_blocked [simp]: "status_str s = ''blocked'' \<longleftrightarrow> s = Blocked"
  by (cases s) simp_all

definition bars :: "int \<Rightarrow> QueryEvent list \<Rightarrow> Bucket list" where
  "bars b rows = map (\<lambda>k. let rs = filter (\<lambda>e. sql_bucket b (qe_ts e) = k) rows in
         \<lparr>bk_ts = k, bk_allowed = length (filter (\<lambda>e. qe_status e \<noteq> Blocked) rs),
          bk_blocked = length (filter (\<lambda>e. qe_status e = Blocked) rs)\<rparr>)
      (sort (remdups (map (\<lambda>e. sql_bucket b (qe_ts e)) rows)))"

lemma timeseries_bars: "timeseries now hours secs db = bars (max secs 60) (in_window now hours db)"
  by (simp add: timeseries_def bars_def in_window_def Let_def)

lemma bar_counts: "length (filter (\<lambda>e. qe_status e \<noteq> Blocked) rs) + length (filter (\<lambda>e. qe_status e = Blocked) rs) = length rs"
  by (induction rs) auto

lemma bars_total: "(\<Sum>b\<leftarrow>bars w rows. bk_allowed b + bk_blocked b) = length rows"
  unfolding bars_def
  by (simp add: comp_def Let_def bar_counts del: filter_filter) (rule groups_partition, auto)

lemma bars_blocked: "(\<Sum>b\<leftarrow>bars w rows. bk_blocked b) = length (filter (\<lambda>e. qe_status e = Blocked) rows)"
proof -
  have "filter (\<lambda>e. qe_status e = Blocked) (filter (\<lambda>e. sql_bucket w (qe_ts e) = k) rows) =
    filter (\<lambda>e. sql_bucket w (qe_ts e) = k) (filter (\<lambda>e. qe_status e = Blocked) rows)" for k
    by (simp add: conj_commute)
  then show ?thesis unfolding bars_def
    by (simp add: comp_def Let_def del: filter_filter) (rule groups_partition, auto)
qed

lemma bars_sorted: "sorted_wrt (<) (map bk_ts (bars w rows))"
  by (simp add: bars_def comp_def Let_def strict_sorted_iff)

lemma bar_total:
  "b \<in> set (bars w rows) \<Longrightarrow>
     bk_allowed b + bk_blocked b = length (filter (\<lambda>e. sql_bucket w (qe_ts e) = bk_ts b) rows) \<and>
     bk_ts b \<in> (\<lambda>e. sql_bucket w (qe_ts e)) ` set rows"
  by (auto simp: bars_def Let_def bar_counts simp del: filter_filter)

lemma bars_exact:
  assumes "0 < w" "list_all (\<lambda>e. 0 \<le> qe_ts e) rows"
  shows "list_all (\<lambda>b. w dvd bk_ts b \<and> 0 < bk_allowed b + bk_blocked b \<and>
    bk_allowed b + bk_blocked b = length (filter (\<lambda>e. bk_ts b \<le> qe_ts e \<and> qe_ts e < bk_ts b + w) rows)) (bars w rows)"
  unfolding list_all_iff
proof (intro ballI conjI)
  fix b
  assume "b \<in> set (bars w rows)"
  note b = bar_total [OF this]
  show d: "w dvd bk_ts b" using b by (auto simp: sql_bucket_def)
  show "0 < bk_allowed b + bk_blocked b" using b by (auto simp: filter_empty_conv image_iff)
  have "filter (\<lambda>e. sql_bucket w (qe_ts e) = bk_ts b) rows =
      filter (\<lambda>e. bk_ts b \<le> qe_ts e \<and> qe_ts e < bk_ts b + w) rows"
    by (rule filter_cong [OF refl]) (use assms d in \<open>auto simp: list_all_iff sql_bucket_iff\<close>)
  then show "bk_allowed b + bk_blocked b = length (filter (\<lambda>e. bk_ts b \<le> qe_ts e \<and> qe_ts e < bk_ts b + w) rows)"
    using b by simp
qed

text \<open>
  C30. The chart counts every query once: for a log whose times are not negative, the bars of
  \<open>/api/timeseries\<close> come in increasing order without repetition, each starts at a multiple of the bar
  width (at least a minute), none is empty, each counts exactly the queries of the window that fall into it,
  and over all bars the counts add up to the queries, and to the blocked queries, of the window.
\<close>

theorem chart_counts_each_query_once:
  assumes "list_all (\<lambda>(_, e). 0 \<le> qe_ts e) (t_queries db)"
  shows "(let width = max secs 60; chart = timeseries now hours secs db; window = in_window now hours db in
     sorted_wrt (<) (map bk_ts chart) \<and>
     list_all (\<lambda>b. width dvd bk_ts b \<and> 0 < bk_allowed b + bk_blocked b \<and>
       bk_allowed b + bk_blocked b = length (filter (\<lambda>e. bk_ts b \<le> qe_ts e \<and> qe_ts e < bk_ts b + width) window)) chart \<and>
     (\<Sum>b\<leftarrow>chart. bk_allowed b + bk_blocked b) = length window \<and>
     (\<Sum>b\<leftarrow>chart. bk_blocked b) = length (filter (\<lambda>e. qe_status e = Blocked) window))"
proof -
  have "list_all (\<lambda>e. 0 \<le> qe_ts e) (in_window now hours db)"
    using assms by (fastforce simp: in_window_def list_all_iff)
  then show ?thesis
    unfolding Let_def timeseries_bars by (intro conjI bars_sorted bars_total bars_blocked bars_exact) simp
qed

theorem chart_counts_each_query_once_witness:
  "(\<Sum>b\<leftarrow>timeseries 100 1 60 demo_log. bk_allowed b + bk_blocked b) = 3 \<and>
   (\<Sum>b\<leftarrow>timeseries 100 1 60 demo_log. bk_blocked b) = 2"
  using chart_counts_each_query_once [of demo_log 60 100 1]
  by (simp add: Let_def demo_log_rows demo_query_def in_window_def since_hours_def wrap_i64_def)

section \<open>The rankings\<close>

definition occurrences :: "('r \<Rightarrow> string) \<Rightarrow> 'r list \<Rightarrow> string \<Rightarrow> nat" where
  "occurrences key rows k = length (filter (\<lambda>r. key r = k) rows)"

lemma occurrences_pos: "0 < occurrences key rows k \<longleftrightarrow> k \<in> key ` set rows"
  by (auto simp: occurrences_def filter_empty_conv)

lemma ranking_mset:
  "iteration_order order \<Longrightarrow> mset (by_count_desc (group_count order key rows)) =
     mset (map (\<lambda>k. (k, occurrences key rows k)) (remdups (map key rows)))"
  by (simp add: by_count_desc_def group_count_def occurrences_def mset_map iteration_order_def)

lemma ranking:
  assumes "iteration_order order" and r: "r = by_count_desc (group_count order key rows)"
  shows "sorted_wrt (\<lambda>a b. snd b \<le> snd a) (take n r)"
    and "distinct (map fst (take n r))"
    and "length (take n r) = min n (length (remdups (map key rows)))"
    and "(k, c) \<in> set (take n r) \<Longrightarrow> c = occurrences key rows k \<and> k \<in> key ` set rows"
    and "(k, c) \<in> set (take n r) \<Longrightarrow> d \<notin> fst ` set (take n r) \<Longrightarrow> occurrences key rows d \<le> c"
proof -
  let ?g = "map (\<lambda>k. (k, occurrences key rows k)) (remdups (map key rows))"
  have m: "mset r = mset ?g" unfolding r by (rule ranking_mset [OF assms(1)])
  then have s: "set r = set ?g" by (rule mset_eq_setD)
  have "sorted (map (\<lambda>(_, n). Desc n) r)" by (simp add: r by_count_desc_def)
  then have "sorted_wrt (\<lambda>a b. snd b \<le> snd a) r" by (simp add: sorted_wrt_map case_prod_beta)
  then have st: "sorted_wrt (\<lambda>a b. snd b \<le> snd a) (take n r @ drop n r)" by simp
  then show "sorted_wrt (\<lambda>a b. snd b \<le> snd a) (take n r)" unfolding sorted_wrt_append by blast
  have "mset (map fst r) = mset (remdups (map key rows))" using m by (simp add: mset_map image_mset.compositionality comp_def)
  then have "distinct (map fst r)" by (metis distinct_remdups mset_eq_imp_distinct_iff)
  then show "distinct (map fst (take n r))" by (simp add: take_map [symmetric])
  show "length (take n r) = min n (length (remdups (map key rows)))"
    using mset_eq_length [OF m] by (simp add: min.commute)
  show "c = occurrences key rows k \<and> k \<in> key ` set rows" if "(k, c) \<in> set (take n r)"
    using in_set_takeD [OF that] by (auto simp: s)
  show "occurrences key rows d \<le> c" if "(k, c) \<in> set (take n r)" "d \<notin> fst ` set (take n r)"
  proof (cases "d \<in> key ` set rows")
    case True
    then have "(d, occurrences key rows d) \<in> set (take n r @ drop n r)" by (auto simp: s)
    then have "(d, occurrences key rows d) \<in> set (drop n r)" using that(2) by (force simp del: append_take_drop_id)
    then show ?thesis using st that(1) unfolding sorted_wrt_append by fastforce
  qed (use occurrences_pos [of key rows d] in simp)
qed

definition ranked_rows :: "int \<Rightarrow> int \<Rightarrow> bool \<Rightarrow> Database \<Rightarrow> QueryEvent list" where
  "ranked_rows now hours blocked db = filter (\<lambda>e. (qe_status e = Blocked) = blocked) (in_window now hours db)"

lemma top_domains_eq:
  "top_domains order pick now hours limit blocked db =
     map (\<lambda>(d, n). \<lparr>cn_label = d,
          cn_sublabel = (if blocked then qe_blocklist (pick (filter (\<lambda>e. qe_domain e = d) (ranked_rows now hours blocked db))) else None),
          cn_count = n\<rparr>)
       (take (min (max limit 1) 200) (by_count_desc (group_count order qe_domain (ranked_rows now hours blocked db))))"
proof -
  have "ranked_rows now hours blocked db =
      filter (\<lambda>e. since_hours now hours \<le> qe_ts e \<and> (qe_status e = Blocked) = blocked) (map snd (t_queries db))"
    by (simp add: ranked_rows_def in_window_def conj_commute)
  then show ?thesis by (simp only: top_domains_def Let_def take_map status_blocked)
qed

text \<open>
  The rankings are what they say: the top (blocked) domains of a window are listed once each, most
  frequent first, as many as asked for (at most 200) or as there are; each has its exact number of queries
  in the window, and no domain that is left out was queried more often than one that is shown. This holds
  whatever order SQLite visits the groups in.
\<close>

lemma top_domains_ranked:
  assumes "iteration_order order"
  shows "(let top = top_domains order pick now hours limit blocked db;
              freq = occurrences qe_domain (ranked_rows now hours blocked db) in
     sorted_wrt (\<lambda>a b. cn_count b \<le> cn_count a) top \<and> distinct (map cn_label top) \<and>
     length top = min (min (max limit 1) 200) (card (qe_domain ` set (ranked_rows now hours blocked db))) \<and>
     (\<forall>c \<in> set top. 0 < cn_count c \<and> cn_count c = freq (cn_label c) \<and>
        (\<forall>d. d \<notin> cn_label ` set top \<longrightarrow> freq d \<le> cn_count c)))"
proof -
  let ?rows = "ranked_rows now hours blocked db" and ?top = "top_domains order pick now hours limit blocked db"
  let ?t = "take (min (max limit 1) 200) (by_count_desc (group_count order qe_domain ?rows))"
  note r = ranking [OF assms refl, where key = qe_domain and rows = ?rows and n = "min (max limit 1) 200"]
  have labels: "map cn_label ?top = map fst ?t" and counts: "map cn_count ?top = map snd ?t"
    by (simp_all add: top_domains_eq case_prod_beta)
  have row: "(cn_label c, cn_count c) \<in> set ?t" if "c \<in> set ?top" for c
    using that by (auto simp: top_domains_eq)
  have "sorted_wrt (\<lambda>a b. b \<le> a) (map cn_count ?top)" using r(1) by (simp add: counts sorted_wrt_map)
  moreover have "distinct (map cn_label ?top)" using r(2) by (simp only: labels)
  moreover have "length ?top = min (min (max limit 1) 200) (card (qe_domain ` set ?rows))"
    using r(3) arg_cong [OF labels, of length] by (simp add: length_remdups_card_conv)
  moreover have "0 < cn_count c \<and> cn_count c = occurrences qe_domain ?rows (cn_label c) \<and>
      (\<forall>d. d \<notin> cn_label ` set ?top \<longrightarrow> occurrences qe_domain ?rows d \<le> cn_count c)" if "c \<in> set ?top" for c
    using r(4,5) [OF row [OF that]] occurrences_pos [of qe_domain ?rows "cn_label c"] arg_cong [OF labels, of set] by simp
  ultimately show ?thesis unfolding Let_def sorted_wrt_map by blast
qed

lemma top_domains_ranked_witness:
  "distinct (map cn_label (top_domains rev hd 100 1 15 True demo_log)) \<and> length (top_domains rev hd 100 1 15 True demo_log) = 2"
proof -
  have "ranked_rows 100 1 True demo_log = [demo_query 70 ''b'' Blocked, demo_query 90 ''c'' Blocked]"
    by (simp add: ranked_rows_def in_window_def demo_log_rows demo_query_def since_hours_def wrap_i64_def)
  then show ?thesis
    using top_domains_ranked [OF iteration_order_rev, of hd 100 1 15 True demo_log]
    by (simp add: Let_def demo_query_def)
qed

section \<open>Counts per device\<close>

lemma sum_visit:
  assumes "iteration_order visit"
  shows "(\<Sum>x\<leftarrow>sort_key k (visit xs). f x) = (\<Sum>x\<leftarrow>xs. f x :: nat)"
proof -
  have "mset (sort_key k (visit xs)) = mset xs" using assms by (simp add: iteration_order_def)
  then show ?thesis by (metis mset_map sum_mset_sum_list)
qed

text \<open>
  The device table never counts a query twice: in any database netwatch can have written, and whatever
  order SQLite visits the rows in, each device is listed once, and the queries (the blocked queries) of the
  last day attributed to the devices add up to no more than the totals the summary gives for that day.
\<close>

lemma device_counts_within_summary:
  assumes "db_run db" "iteration_order visit"
  shows "mset (map dr_device (device_rows visit now db)) = mset (t_devices db) \<and>
    (\<Sum>r\<leftarrow>device_rows visit now db. dr_queries_24h r) \<le> total_24h (summary now db) \<and>
    (\<Sum>r\<leftarrow>device_rows visit now db. dr_blocked_24h r) \<le> blocked_24h (summary now db)"
proof -
  let ?rows = "filter (\<lambda>e. now - 86400 \<le> qe_ts e) (map snd (t_queries db))"
  let ?blocked = "filter (\<lambda>e. qe_status e = Blocked) ?rows"
  let ?P = "\<lambda>d e. Some (qe_client_ip e) = dv_ip d"
  have one: "length (filter (\<lambda>d. ?P d e) (t_devices db)) \<le> 1" for e
    using unique_filter [OF db_run_wf [OF assms(1)], of "qe_client_ip e"] by (simp add: eq_commute [of "Some _"])
  have q: "(\<Sum>r\<leftarrow>device_rows visit now db. dr_queries_24h r) = (\<Sum>d\<leftarrow>t_devices db. length (filter (?P d) ?rows))"
    by (simp add: device_rows_def comp_def Let_def sum_visit [OF assms(2)] conj_commute)
  have b: "(\<Sum>r\<leftarrow>device_rows visit now db. dr_blocked_24h r) = (\<Sum>d\<leftarrow>t_devices db. length (filter (?P d) ?blocked))"
    by (simp add: device_rows_def comp_def Let_def sum_visit [OF assms(2)] conj_ac)
  have "mset (map dr_device (device_rows visit now db)) = mset (t_devices db)"
    using assms(2) by (simp add: device_rows_def comp_def Let_def iteration_order_def)
  moreover have "total_24h (summary now db) = length ?rows" by (simp add: summary_def Let_def)
  moreover have "blocked_24h (summary now db) = length ?blocked" by (simp add: summary_def Let_def)
  ultimately show ?thesis
    using counts_at_most [of ?rows ?P, OF one] counts_at_most [of ?blocked ?P, OF one] by (simp only: q b)
qed

lemma device_counts_within_summary_witness:
  "(\<Sum>r\<leftarrow>device_rows rev 100 (fst (flush True [W_Device (demo_dev ''a''), W_Query (demo_query 90 ''x'' Forwarded)] db_empty)).
      dr_queries_24h r) \<le> total_24h (summary 100 (fst (flush True [W_Device (demo_dev ''a''), W_Query (demo_query 90 ''x'' Forwarded)] db_empty)))"
  using device_counts_within_summary [OF run_flush [OF run_empty] iteration_order_rev] by blast

text \<open>An alert that is inserted with the latest time heads the list of alerts.\<close>

lemma newest_alert_first:
  assumes "db_run db" "\<forall>(_, b) \<in> set (t_alerts db). ao_ts b \<le> ao_ts a" "0 < limit"
  shows "\<exists>rows. recent_alerts limit (apply_op (W_Alert a) db) = (t_next_alert db, a) # rows"
proof -
  have "\<forall>y \<in> set (t_alerts db). (\<lambda>(i, a). (Desc (ao_ts a), Desc i)) (t_next_alert db, a) < (\<lambda>(i, a). (Desc (ao_ts a), Desc i)) y"
    using db_run_alert_ids [OF assms(1)] assms(2) by (force simp: less_prod_def)
  from sort_key_last [OF this] show ?thesis using assms(3) by (cases limit) (simp_all add: recent_alerts_def)
qed

end
