(* ===== verification/Net_Addr.thy ===== *)
theory Net_Addr
  imports Rust_Str
begin

text \<open>
  \<open>std::net\<close>: the address types, the classification methods netwatch calls, the parsers
  behind \<open>str::parse\<close> (the grammar of the standard library's \<open>Parser\<close>, which reads at most
  three decimal digits per IPv4 octet and no leading zero, and at most four hexadecimal digits
  per IPv6 group with one \<open>::\<close>), and \<open>Display\<close>.
\<close>

unbundle bit_operations_syntax

section \<open>Types and classification\<close>

datatype IpAddr = IpV4 u32 | IpV6 u128

record SocketAddr =
  sa_ip :: IpAddr
  sa_port :: u16

definition octet :: "u32 \<Rightarrow> nat \<Rightarrow> u8" where
  "octet a i = ucast (drop_bit (8 * (3 - i)) a)"

text \<open>The number four octets stand for.\<close>

definition dotted :: "nat \<Rightarrow> nat \<Rightarrow> nat \<Rightarrow> nat \<Rightarrow> nat" where
  "dotted a b c d = ((a * 256 + b) * 256 + c) * 256 + d"

definition v4_from_octets :: "u8 \<Rightarrow> u8 \<Rightarrow> u8 \<Rightarrow> u8 \<Rightarrow> u32" where
  "v4_from_octets a b c d =
     word_of_nat (dotted (unat a) (unat b) (unat c) (unat d))"

definition segment :: "u128 \<Rightarrow> nat \<Rightarrow> u16" where
  "segment a i = ucast (drop_bit (16 * (7 - i)) a)"

definition v6_from_segments :: "nat list \<Rightarrow> u128" where
  "v6_from_segments gs = word_of_nat (foldl (\<lambda>n g. n * 65536 + g) 0 gs)"

definition v4_is_private :: "u32 \<Rightarrow> bool" where
  "v4_is_private a \<longleftrightarrow>
     octet a 0 = 10
     \<or> (octet a 0 = 172 \<and> 16 \<le> octet a 1 \<and> octet a 1 \<le> 31)
     \<or> (octet a 0 = 192 \<and> octet a 1 = 168)"

definition v4_is_link_local :: "u32 \<Rightarrow> bool" where
  "v4_is_link_local a \<longleftrightarrow> octet a 0 = 169 \<and> octet a 1 = 254"

definition v4_is_multicast :: "u32 \<Rightarrow> bool" where
  "v4_is_multicast a \<longleftrightarrow> 224 \<le> octet a 0 \<and> octet a 0 \<le> 239"

definition v4_is_unspecified :: "u32 \<Rightarrow> bool" where
  "v4_is_unspecified a \<longleftrightarrow> a = 0"

fun is_loopback :: "IpAddr \<Rightarrow> bool" where
  "is_loopback (IpV4 a) = (octet a 0 = 127)"
| "is_loopback (IpV6 a) = (a = 1)"

definition to_ipv4_mapped :: "u128 \<Rightarrow> u32 option" where
  "to_ipv4_mapped a =
     (if segment a 0 = 0 \<and> segment a 1 = 0 \<and> segment a 2 = 0 \<and> segment a 3 = 0
         \<and> segment a 4 = 0 \<and> segment a 5 = 0xFFFF
      then Some (ucast a) else None)"

fun is_ipv4 :: "IpAddr \<Rightarrow> bool" where
  "is_ipv4 (IpV4 _) = True"
| "is_ipv4 (IpV6 _) = False"

section \<open>Parsing\<close>

text \<open>\<open>Parser::read_number\<close> with \<open>max_digits\<close> set.\<close>

definition read_number :: "nat \<Rightarrow> nat \<Rightarrow> bool \<Rightarrow> nat \<Rightarrow> string \<Rightarrow> (nat \<times> string) option" where
  "read_number radix max_digits allow_zero_prefix maxv s =
     (let ds = takeWhile (is_digit radix) s; rest = dropWhile (is_digit radix) s in
      if max_digits < length ds then None
      else if ds = [] then None
      else if \<not> allow_zero_prefix \<and> hd ds = CHR ''0'' \<and> 1 < length ds then None
      else if maxv < digits_val radix ds then None
      else Some (digits_val radix ds, rest))"

definition read_char :: "char \<Rightarrow> string \<Rightarrow> string option" where
  "read_char c s = (case s of x # t \<Rightarrow> if x = c then Some t else None | [] \<Rightarrow> None)"

definition read_ipv4_addr :: "string \<Rightarrow> (u32 \<times> string) option" where
  "read_ipv4_addr s = do {
     (a, s) \<leftarrow> read_number 10 3 False 255 s;
     s \<leftarrow> read_char CHR ''.'' s;
     (b, s) \<leftarrow> read_number 10 3 False 255 s;
     s \<leftarrow> read_char CHR ''.'' s;
     (c, s) \<leftarrow> read_number 10 3 False 255 s;
     s \<leftarrow> read_char CHR ''.'' s;
     (d, s) \<leftarrow> read_number 10 3 False 255 s;
     Some (word_of_nat (dotted a b c d), s)
   }"

definition read_separator :: "nat \<Rightarrow> (string \<Rightarrow> ('a \<times> string) option) \<Rightarrow> string \<Rightarrow> ('a \<times> string) option" where
  "read_separator i p s =
     (if 0 < i then Option.bind (read_char CHR '':'' s) p else p s)"

text \<open>\<open>read_groups\<close>: groups \<open>i\<close> to \<open>limit - 1\<close>; the flag says that an embedded IPv4 address
  ended them. \<open>left\<close> is \<open>limit - i\<close>.\<close>

fun read_groups :: "nat \<Rightarrow> nat \<Rightarrow> string \<Rightarrow> nat list \<times> bool \<times> string" where
  "read_groups i 0 s = ([], False, s)"
| "read_groups i (Suc left) s =
     (case (if 0 < left then read_separator i read_ipv4_addr s else None) of
        Some (v4, s') \<Rightarrow> ([unat v4 div 65536, unat v4 mod 65536], True, s')
      | None \<Rightarrow>
          (case read_separator i (read_number 16 4 True 65535) s of
             None \<Rightarrow> ([], False, s)
           | Some (g, s') \<Rightarrow>
               (let (gs, v4, s'') = read_groups (Suc i) left s' in (g # gs, v4, s''))))"

definition read_ipv6_addr :: "string \<Rightarrow> (u128 \<times> string) option" where
  "read_ipv6_addr s =
     (let (head, head_ipv4, s1) = read_groups 0 8 s in
      if length head = 8 then Some (v6_from_segments head, s1)
      else if head_ipv4 then None
      else do {
        s2 \<leftarrow> read_char CHR '':'' s1;
        s3 \<leftarrow> read_char CHR '':'' s2;
        let (tail, _, s4) = read_groups 0 (8 - (length head + 1)) s3;
        Some (v6_from_segments (head @ replicate (8 - length head - length tail) 0 @ tail), s4)
      })"

definition parse_ipv4 :: "string \<Rightarrow> u32 option" where
  "parse_ipv4 s =
     (if 15 < length s then None
      else case read_ipv4_addr s of Some (a, []) \<Rightarrow> Some a | _ \<Rightarrow> None)"

definition parse_ip :: "string \<Rightarrow> IpAddr option" where
  "parse_ip s =
     (case read_ipv4_addr s of
        Some (a, rest) \<Rightarrow> if rest = [] then Some (IpV4 a) else None
      | None \<Rightarrow> (case read_ipv6_addr s of
          Some (a, rest) \<Rightarrow> if rest = [] then Some (IpV6 a) else None
        | None \<Rightarrow> None))"

section \<open>Display\<close>

definition show_ipv4 :: "u32 \<Rightarrow> string" where
  "show_ipv4 a = join ''.'' (map (\<lambda>i. show_nat (unat (octet a i))) [0, 1, 2, 3])"

text \<open>The run of zero groups that \<open>Display\<close> compresses: the first of the longest ones, as
  (start, length).\<close>

fun longest_zeroes :: "nat \<Rightarrow> (nat \<times> nat) \<Rightarrow> (nat \<times> nat) \<Rightarrow> u16 list \<Rightarrow> nat \<times> nat" where
  "longest_zeroes i cur best [] = best"
| "longest_zeroes i (cs, cl) (bs, bl) (g # gs) =
     (if g = 0 then
        (let c = (if cl = 0 then (i, 1) else (cs, Suc cl)) in
         longest_zeroes (Suc i) c (if bl < snd c then c else (bs, bl)) gs)
      else longest_zeroes (Suc i) (0, 0) (bs, bl) gs)"

definition show_segments :: "u16 list \<Rightarrow> string" where
  "show_segments gs = join '':'' (map (\<lambda>g. show_radix 16 (unat g)) gs)"

definition show_ipv6 :: "u128 \<Rightarrow> string" where
  "show_ipv6 a =
     (case to_ipv4_mapped a of
        Some v4 \<Rightarrow> ''::ffff:'' @ show_ipv4 v4
      | None \<Rightarrow>
          (let gs = map (segment a) [0, 1, 2, 3, 4, 5, 6, 7];
               (start, len) = longest_zeroes 0 (0, 0) (0, 0) gs in
           if 1 < len then show_segments (take start gs) @ ''::'' @ show_segments (drop (start + len) gs)
           else show_segments gs))"

fun show_ip :: "IpAddr \<Rightarrow> string" where
  "show_ip (IpV4 a) = show_ipv4 a"
| "show_ip (IpV6 a) = show_ipv6 a"

section \<open>Laws\<close>

lemma unat_octet: "unat (octet a i) = unat a div 2 ^ (8 * (3 - i)) mod 256"
  by (simp add: octet_def unsigned_ucast_eq unat_drop_bit_eq take_bit_eq_mod
      drop_bit_eq_div [where 'a = nat])

lemma unat_less_256: "unat (x :: u8) < 256"
  using unsigned_less [of x, where ?'a = nat] by simp

lemma octet_le [simp]: "unat (octet a i) \<le> 255"
  using unat_less_256 [of "octet a i"] by simp

lemma dotted_digits:
  assumes "n < (2::nat) ^ 32"
  shows "dotted (n div 16777216 mod 256) (n div 65536 mod 256) (n div 256 mod 256) (n mod 256) = n"
proof -
  have "n div 65536 = n div 256 div 256" "n div 16777216 = n div 256 div 256 div 256"
    by (simp_all flip: div_mult2_eq)
  moreover have "n div 16777216 mod 256 = n div 16777216"
    using assms by (intro mod_less) (simp add: less_mult_imp_div_less)
  ultimately show ?thesis by (simp only: dotted_def div_mult_mod_eq)
qed

lemma octets_value:
  "dotted (unat (octet a 0)) (unat (octet a 1)) (unat (octet a 2)) (unat (octet a 3)) = unat a"
  using dotted_digits [of "unat a"] unsigned_less [of a, where ?'a = nat]
  by (simp add: unat_octet)

lemma v4_from_octets_octet:
  "v4_from_octets (octet a 0) (octet a 1) (octet a 2) (octet a 3) = a"
  by (simp only: v4_from_octets_def octets_value) simp

lemma dotted_less:
  "a < 256 \<Longrightarrow> b < 256 \<Longrightarrow> c < 256 \<Longrightarrow> d < 256 \<Longrightarrow> dotted a b c d < 2 ^ 32"
  by (simp add: dotted_def)

lemma unat_word_of_dotted:
  "a < 256 \<Longrightarrow> b < 256 \<Longrightarrow> c < 256 \<Longrightarrow> d < 256 \<Longrightarrow>
     unat (word_of_nat (dotted a b c d) :: u32) = dotted a b c d"
  using dotted_less [of a b c d] by (simp add: unat_of_nat)

lemma takeWhile_append_stop: "list_all P xs \<Longrightarrow> ys = [] \<or> \<not> P (hd ys) \<Longrightarrow> takeWhile P (xs @ ys) = xs"
  by (cases ys) (auto simp: list_all_iff takeWhile_append)

lemma dropWhile_append_stop: "list_all P xs \<Longrightarrow> ys = [] \<or> \<not> P (hd ys) \<Longrightarrow> dropWhile P (xs @ ys) = ys"
  by (cases ys) (auto simp: list_all_iff dropWhile_append)

lemma show_radix_hd:
  "2 \<le> r \<Longrightarrow> r \<le> 16 \<Longrightarrow> 0 < n \<Longrightarrow> hd (show_radix r n) \<noteq> CHR ''0''"
proof (induction r n rule: show_radix.induct)
  case (1 r n)
  show ?case
  proof (cases "n < r")
    case True
    then have "digit_val (digit_char n) = n" using 1 by (simp add: digit_val_digit_char)
    moreover have "digit_val CHR ''0'' = 0" by (simp add: digit_val_def is_ascii_digit_def)
    ultimately show ?thesis using True 1(4) by (subst show_radix.simps) auto
  next
    case False
    with 1 have "hd (show_radix r (n div r)) \<noteq> CHR ''0''"
      by (simp add: div_greater_zero_iff)
    with False 1(2) show ?thesis by (subst show_radix.simps) simp
  qed
qed

lemma read_number_show:
  assumes "n \<le> 255" and "s = [] \<or> \<not> is_ascii_digit (hd s)"
  shows "read_number 10 3 False 255 (show_nat n @ s) = Some (n, s)"
proof -
  have digits: "list_all (is_digit 10) (show_radix 10 n)" by (simp add: show_radix_digits)
  have stop: "s = [] \<or> \<not> is_digit 10 (hd s)" using assms(2) by (simp add: is_digit_10)
  have len: "length (show_radix 10 n) \<le> 3" using assms(1) by (intro show_radix_length) auto
  have lead: "hd (show_radix 10 n) = CHR ''0'' \<Longrightarrow> length (show_radix 10 n) \<le> 1"
    using show_radix_hd [of 10 n] by (cases "n = 0") (auto simp: show_radix.simps)
  show ?thesis
    using assms(1) len lead
    by (auto simp: read_number_def show_nat_def Let_def show_radix_val
        takeWhile_append_stop [OF digits stop] dropWhile_append_stop [OF digits stop])
qed

lemma dot_not_digit [simp]: "\<not> is_ascii_digit CHR ''.''"
  by (simp add: is_ascii_digit_def)

lemma slash_not_digit [simp]: "\<not> is_ascii_digit CHR ''/''"
  by (simp add: is_ascii_digit_def)

lemma show_ipv4_alt:
  "show_ipv4 a = show_nat (unat (octet a 0)) @ ''.'' @ show_nat (unat (octet a 1)) @ ''.''
     @ show_nat (unat (octet a 2)) @ ''.'' @ show_nat (unat (octet a 3))"
  by (simp add: show_ipv4_def)

lemma read_ipv4_show:
  "s = [] \<or> \<not> is_ascii_digit (hd s) \<Longrightarrow> read_ipv4_addr (show_ipv4 a @ s) = Some (a, s)"
  by (simp add: read_ipv4_addr_def show_ipv4_alt read_number_show read_char_def
      v4_from_octets_octet [unfolded v4_from_octets_def] del: One_nat_def)

lemma length_show_octet: "length (show_nat (unat (octet a i))) \<le> 3"
  using octet_le [of a i] unfolding show_nat_def
  by (intro show_radix_length) (simp_all add: order_le_less_trans [of _ 255])

lemma parse_show_ipv4: "parse_ipv4 (show_ipv4 a) = Some a"
proof -
  have "length (show_ipv4 a) \<le> 15"
    using length_show_octet [of a 0] length_show_octet [of a 1] length_show_octet [of a 2]
      length_show_octet [of a 3]
    by (simp add: show_ipv4_alt)
  then show ?thesis using read_ipv4_show [of "[]" a] by (simp add: parse_ipv4_def)
qed

lemma parse_ip_show_ipv4: "parse_ip (show_ipv4 a) = Some (IpV4 a)"
  using read_ipv4_show [of "[]" a] by (simp add: parse_ip_def)

lemmas ip_eval = parse_ip_def read_ipv4_addr_def read_number_def read_char_def dotted_def
  v4_from_octets_def

end
