(* ===== verification/Acl.thy ===== *)
theory Acl
  imports Net_Addr
begin

text \<open>
  Which clients may query the resolver (\<open>src/dns/acl.rs\<close>): the rules of \<open>dns.allow_from\<close>, their
  parser, the decision \<open>allows\<close> and the widening \<open>trust_subnet\<close>. Errors of \<open>anyhow\<close> are values
  of \<open>CidrError\<close>. Arithmetic follows the release profile: \<open>32 - prefix\<close> wraps at 8 bits and a shift
  amount is reduced modulo the width; neither happens on a parsed rule.
\<close>

section \<open>Definitions\<close>

datatype Rule = Loopback | Private | Any | Rule_V4 u32 u8 | Rule_V6 u128 u8

record Acl =
  rules :: "Rule list"

datatype CidrError = NoPrefixLength | BadPrefixLength | BadAddress | PrefixOutOfRange

definition shl_u32 :: "u32 \<Rightarrow> u8 \<Rightarrow> u32" where
  "shl_u32 x n = push_bit (unat n mod 32) x"

definition shl_u128 :: "u128 \<Rightarrow> u8 \<Rightarrow> u128" where
  "shl_u128 x n = push_bit (unat n mod 128) x"

definition v4_in :: "u32 \<Rightarrow> u32 \<Rightarrow> u8 \<Rightarrow> bool" where
  "v4_in addr network prefix =
     (if prefix = 0 then True
      else let mask = shl_u32 (- 1) (32 - prefix) in (addr AND mask) = (network AND mask))"

definition v6_in :: "u128 \<Rightarrow> u128 \<Rightarrow> u8 \<Rightarrow> bool" where
  "v6_in addr network prefix =
     (if prefix = 0 then True
      else let mask = shl_u128 (- 1) (128 - prefix) in (addr AND mask) = (network AND mask))"

definition v4_private_range :: "u32 \<Rightarrow> bool" where
  "v4_private_range v4 \<longleftrightarrow>
     v4_is_private v4 \<or> v4_is_link_local v4
     \<or> (octet v4 0 = 100 \<and> 64 \<le> octet v4 1 \<and> octet v4 1 < 128)"

fun is_private :: "IpAddr \<Rightarrow> bool" where
  "is_private (IpV4 v4) = v4_private_range v4"
| "is_private (IpV6 v6) =
     ((segment v6 0 AND 0xfe00) = 0xfc00
      \<or> (segment v6 0 AND 0xffc0) = 0xfe80
      \<or> (case to_ipv4_mapped v6 of Some v4 \<Rightarrow> v4_private_range v4 | None \<Rightarrow> False))"

definition acl_parse_cidr :: "string \<Rightarrow> CidrError + Rule" where
  "acl_parse_cidr s =
     (case split_once CHR ''/'' s of
        None \<Rightarrow> Inl NoPrefixLength
      | Some (addr, len) \<Rightarrow>
          (case parse_uint 10 255 (trim len) of
             None \<Rightarrow> Inl BadPrefixLength
           | Some prefix \<Rightarrow>
               (case parse_ip (trim addr) of
                  None \<Rightarrow> Inl BadAddress
                | Some (IpV4 network) \<Rightarrow>
                    if prefix \<le> 32 then Inr (Rule_V4 network (word_of_nat prefix))
                    else Inl PrefixOutOfRange
                | Some (IpV6 network) \<Rightarrow>
                    if prefix \<le> 128 then Inr (Rule_V6 network (word_of_nat prefix))
                    else Inl PrefixOutOfRange)))"

definition parse_rule :: "string \<Rightarrow> CidrError + Rule" where
  "parse_rule raw =
     (let e = to_ascii_lowercase (trim raw) in
      if e = ''loopback'' \<or> e = ''localhost'' then Inr Loopback
      else if e = ''private'' \<or> e = ''lan'' then Inr Private
      else if e = ''any'' \<or> e = ''all'' \<or> e = ''0.0.0.0/0'' then Inr Any
      else acl_parse_cidr e)"

text \<open>The loop of \<open>Acl::parse\<close>; an error carries the offending entry, as the message does.\<close>

fun parse_rules :: "Rule list \<Rightarrow> string list \<Rightarrow> (string \<times> CidrError) + Rule list" where
  "parse_rules acc [] = Inr acc"
| "parse_rules acc (raw # entries) =
     (case parse_rule raw of
        Inl e \<Rightarrow> Inl (raw, e)
      | Inr rule \<Rightarrow> parse_rules (acc @ [rule]) entries)"

definition acl_parse :: "string list \<Rightarrow> (string \<times> CidrError) + Acl" where
  "acl_parse entries = map_sum id (\<lambda>rs. \<lparr>rules = rs\<rparr>) (parse_rules [] entries)"

fun rule_matches :: "IpAddr \<Rightarrow> Rule \<Rightarrow> bool" where
  "rule_matches addr Any = True"
| "rule_matches addr Loopback = is_loopback addr"
| "rule_matches addr Private = (is_private addr \<or> is_loopback addr)"
| "rule_matches addr (Rule_V4 network prefix) =
     (case addr of IpV4 v4 \<Rightarrow> v4_in v4 network prefix | IpV6 _ \<Rightarrow> False)"
| "rule_matches addr (Rule_V6 network prefix) =
     (case addr of IpV6 v6 \<Rightarrow> v6_in v6 network prefix | IpV4 _ \<Rightarrow> False)"

definition acl_allows :: "Acl \<Rightarrow> IpAddr \<Rightarrow> bool" where
  "acl_allows acl addr =
     (if rules acl = [] then is_private addr \<or> is_loopback addr
      else list_ex (rule_matches addr) (rules acl))"

definition trust_subnet :: "Acl \<Rightarrow> u32 \<Rightarrow> u8 \<Rightarrow> Acl \<times> bool" where
  "trust_subnet acl network prefix =
     (if \<not> (rules acl = [] \<or> Private \<in> set (rules acl)) then (acl, False)
      else if acl_allows acl (IpV4 network) then (acl, False)
      else (acl\<lparr>rules := rules acl @ [Rule_V4 network prefix]\<rparr>, True))"

definition is_open_to_world :: "Acl \<Rightarrow> bool" where
  "is_open_to_world acl \<longleftrightarrow> Any \<in> set (rules acl)"

text \<open>A rule whose prefix fits its family: the shift in \<open>v4_in\<close> and \<open>v6_in\<close> is in range.\<close>

fun rule_wf :: "Rule \<Rightarrow> bool" where
  "rule_wf (Rule_V4 _ p) = (p \<le> 32)"
| "rule_wf (Rule_V6 _ p) = (p \<le> 128)"
| "rule_wf _ = True"

definition acl_wf :: "Acl \<Rightarrow> bool" where
  "acl_wf acl \<longleftrightarrow> list_all rule_wf (rules acl)"

section \<open>CIDR matching\<close>

text \<open>
  The contract of a prefix match: the two addresses agree above the host bits. The address
  matchers of the ACL and of the interface subnet (\<open>Netinfo\<close>) are instances.
\<close>

locale cidr_match =
  fixes matches :: "'a::len word \<Rightarrow> 'a word \<Rightarrow> nat \<Rightarrow> bool"
  assumes matches_iff: "p \<le> LENGTH('a) \<Longrightarrow>
    matches a n p \<longleftrightarrow> drop_bit (LENGTH('a) - p) a = drop_bit (LENGTH('a) - p) n"
begin

lemma self: "p \<le> LENGTH('a) \<Longrightarrow> matches n n p"
  by (simp add: matches_iff)

lemma sym: "p \<le> LENGTH('a) \<Longrightarrow> matches a b p \<Longrightarrow> matches b a p"
  by (simp add: matches_iff)

lemma trans: "p \<le> LENGTH('a) \<Longrightarrow> matches a b p \<Longrightarrow> matches b c p \<Longrightarrow> matches a c p"
  by (simp add: matches_iff)

lemma numeric: "p \<le> LENGTH('a) \<Longrightarrow>
    matches a n p \<longleftrightarrow> unat a div 2 ^ (LENGTH('a) - p) = unat n div 2 ^ (LENGTH('a) - p)"
  by (simp add: matches_iff word_unat_eq_iff unat_drop_bit_eq drop_bit_eq_div [where 'a = nat])

lemma shorter_prefix:
  assumes "q \<le> p" "p \<le> LENGTH('a)" "matches a n p"
  shows "matches a n q"
proof -
  have "LENGTH('a) - q = (p - q) + (LENGTH('a) - p)" using assms(1,2) by simp
  moreover have "drop_bit (LENGTH('a) - p) a = drop_bit (LENGTH('a) - p) n"
    using assms by (simp add: matches_iff)
  ultimately have "drop_bit (LENGTH('a) - q) a = drop_bit (LENGTH('a) - q) n"
    by (simp only: drop_bit_drop_bit [symmetric])
  then show ?thesis using assms(1,2) by (simp add: matches_iff)
qed

lemma nested_or_disjoint:
  assumes "q \<le> p" "p \<le> LENGTH('a)" "matches a n p" "matches a m q"
  shows "matches n m q"
  using assms shorter_prefix sym trans by (meson le_trans)

lemma full: "matches a n LENGTH('a) \<longleftrightarrow> a = n"
  by (simp add: matches_iff)

lemma zero: "matches a n 0"
  by (simp add: numeric)

end

lemma and_high_mask_eq:
  fixes a b :: "'a::len word"
  shows "(a AND push_bit k (- 1)) = (b AND push_bit k (- 1)) \<longleftrightarrow> drop_bit k a = drop_bit k b"
proof
  assume eq: "(a AND push_bit k (- 1)) = (b AND push_bit k (- 1))"
  show "drop_bit k a = drop_bit k b"
  proof (rule bit_word_eqI)
    fix i
    have "bit (a AND push_bit k (- 1)) (k + i) = bit (b AND push_bit k (- 1)) (k + i)"
      by (simp only: eq)
    then show "bit (drop_bit k a) i = bit (drop_bit k b) i"
      by (auto simp: bit_and_iff bit_not_iff bit_mask_iff bit_drop_bit_eq
          dest: bit_imp_le_length)
  qed
next
  assume eq: "drop_bit k a = drop_bit k b"
  show "(a AND push_bit k (- 1)) = (b AND push_bit k (- 1))"
  proof (rule bit_word_eqI)
    fix i
    have "bit (drop_bit k a) (i - k) = bit (drop_bit k b) (i - k)" by (simp only: eq)
    then show "bit (a AND push_bit k (- 1)) i = bit (b AND push_bit k (- 1)) i"
      by (cases "k \<le> i")
         (auto simp: bit_and_iff bit_not_iff bit_mask_iff bit_drop_bit_eq dest: bit_imp_le_length)
  qed
qed

lemma drop_all_bits: "drop_bit LENGTH('a) (a :: 'a::len word) = 0"
  by (rule bit_word_eqI) (auto simp: bit_drop_bit_eq dest: bit_imp_le_length)

lemma high_mask_match:
  fixes a n :: "'a::len word"
  assumes "m = push_bit (LENGTH('a) - p) (- 1)"
  shows "((a AND m) = (n AND m)) =
    (drop_bit (LENGTH('a) - p) a = drop_bit (LENGTH('a) - p) n)"
  by (simp only: assms and_high_mask_eq)

lemma unat_sub_u8: "p \<le> n \<Longrightarrow> unat (n - p :: u8) = unat n - unat p"
  by (simp add: unat_sub)

lemma u8_of_prefix:
  assumes "p \<le> w" "w \<le> 128"
  shows "unat (word_of_nat p :: u8) = p"
    and "(word_of_nat p :: u8) = 0 \<longleftrightarrow> p = 0"
    and "unat (word_of_nat w - word_of_nat p :: u8) = w - p"
proof -
  show p: "unat (word_of_nat p :: u8) = p" using assms by (simp add: unat_of_nat)
  show "(word_of_nat p :: u8) = 0 \<longleftrightarrow> p = 0" unfolding word_unat_eq_iff p by simp
  have w: "unat (word_of_nat w :: u8) = w" using assms by (simp add: unat_of_nat)
  show "unat (word_of_nat w - word_of_nat p :: u8) = w - p"
    using assms p w by (simp add: unat_sub_u8 word_le_nat_alt)
qed

interpretation v4: cidr_match "\<lambda>a n p. v4_in a n (word_of_nat p)"
proof (unfold_locales, goal_cases)
  case (1 p a n)
  show ?case
  proof (cases "p = 0")
    case True
    then show ?thesis using drop_all_bits [of a] drop_all_bits [of n] by (simp add: v4_in_def)
  next
    case False
    then have "shl_u32 (- 1) (32 - word_of_nat p) = push_bit (LENGTH(32) - p) (- 1)"
      using 1 u8_of_prefix(3) [of p 32] by (simp add: shl_u32_def)
    then show ?thesis
      using False 1 u8_of_prefix(2) [of p 32] by (simp add: v4_in_def Let_def high_mask_match)
  qed
qed

interpretation v6: cidr_match "\<lambda>a n p. v6_in a n (word_of_nat p)"
proof (unfold_locales, goal_cases)
  case (1 p a n)
  show ?case
  proof (cases "p = 0")
    case True
    then show ?thesis using drop_all_bits [of a] drop_all_bits [of n] by (simp add: v6_in_def)
  next
    case False
    then have "shl_u128 (- 1) (128 - word_of_nat p) = push_bit (LENGTH(128) - p) (- 1)"
      using 1 u8_of_prefix(3) [of p 128] by (simp add: shl_u128_def)
    then show ?thesis
      using False 1 u8_of_prefix(2) [of p 128] by (simp add: v6_in_def Let_def high_mask_match)
  qed
qed

section \<open>Properties\<close>

lemmas acl_eval = acl_parse_def parse_rule_def acl_parse_cidr_def str_eval ip_eval

lemmas range_eval = v4_private_range_def v4_is_private_def v4_is_link_local_def octet_def
  v4_from_octets_def dotted_def

lemma octet_high:
  fixes a :: u32
  defines "m \<equiv> unat a div 65536"
  shows "unat (octet a 0) = m div 256" "unat (octet a 1) = m mod 256"
    "unat a div 16777216 = m div 256" "unat a div 1048576 = m div 16" "unat a div 4194304 = m div 64"
proof -
  have "unat a < 2 ^ 32" using unsigned_less [of a, where ?'a = nat] by simp
  then have "m div 256 < 256" by (simp add: m_def less_mult_imp_div_less)
  then show "unat (octet a 0) = m div 256"
    by (simp add: m_def unat_octet flip: div_mult2_eq)
qed (simp_all add: m_def unat_octet flip: div_mult2_eq)

lemma v4_block:
  fixes x y :: u8
  defines "z \<equiv> unat x * 256 + unat y"
  shows "v4_in a (v4_from_octets x y 0 0) 8 \<longleftrightarrow> unat a div 16777216 = z div 256"
    "v4_in a (v4_from_octets x y 0 0) 10 \<longleftrightarrow> unat a div 4194304 = z div 64"
    "v4_in a (v4_from_octets x y 0 0) 12 \<longleftrightarrow> unat a div 1048576 = z div 16"
    "v4_in a (v4_from_octets x y 0 0) 16 \<longleftrightarrow> unat a div 65536 = z"
proof -
  let ?n = "v4_from_octets x y 0 0"
  have n: "unat ?n = z * 65536"
    by (simp add: v4_from_octets_def unat_word_of_dotted unat_less_256 z_def)
       (simp add: dotted_def)
  have "z * 65536 div 16777216 = z div 256" "z * 65536 div 4194304 = z div 64"
    "z * 65536 div 1048576 = z div 16"
    using div_mult2_eq [of "z * 65536" 65536 256] div_mult2_eq [of "z * 65536" 65536 64]
      div_mult2_eq [of "z * 65536" 65536 16] by simp_all
  then show "v4_in a ?n 8 \<longleftrightarrow> unat a div 16777216 = z div 256"
    "v4_in a ?n 10 \<longleftrightarrow> unat a div 4194304 = z div 64"
    "v4_in a ?n 12 \<longleftrightarrow> unat a div 1048576 = z div 16"
    "v4_in a ?n 16 \<longleftrightarrow> unat a div 65536 = z"
    using v4.numeric [of 8 a ?n] v4.numeric [of 10 a ?n] v4.numeric [of 12 a ?n]
      v4.numeric [of 16 a ?n] by (simp_all add: n)
qed

lemma div_split: "(m::nat) div k = (m div (j * k)) * j + (m mod (j * k)) div k"  if "0 < k" "0 < j"
proof -
  have "m mod (j * k) = k * (m div k mod j) + m mod k" by (metis mod_mult2_eq mult.commute)
  then have "(m mod (j * k)) div k = m div k mod j" using that by simp
  moreover have "m div (j * k) = m div k div j" by (metis div_mult2_eq mult.commute)
  ultimately show ?thesis by simp
qed

lemma sub_block:
  fixes m :: nat
  assumes "0 < k" "0 < j" "y < j"
  shows "(m div (j * k) = x \<and> y * k \<le> m mod (j * k) \<and> m mod (j * k) < (y + 1) * k)
    = (m div k = x * j + y)"
proof -
  define t where "t = (m mod (j * k)) div k"
  have split: "m div k = (m div (j * k)) * j + t" using div_split [of k j m] assms by (simp add: t_def)
  have t: "t < j" using assms by (simp add: t_def less_mult_imp_div_less)
  have "y * k \<le> m mod (j * k) \<and> m mod (j * k) < (y + 1) * k \<longleftrightarrow> t = y"
    using assms(1) by (simp add: t_def less_eq_div_iff_mult_less_eq [symmetric]
        div_less_iff_less_mult [symmetric] del: mult_Suc) linarith
  moreover have "m div k = x * j + y \<longleftrightarrow> m div (j * k) = x \<and> t = y"
  proof
    assume eq: "m div k = x * j + y"
    have "(x * j + y) div j = x" "(x * j + y) mod j = y"
      "(m div (j * k) * j + t) div j = m div (j * k)" "(m div (j * k) * j + t) mod j = t"
      using assms(3) t by simp_all
    with eq split show "m div (j * k) = x \<and> t = y" by metis
  qed (use split in simp)
  ultimately show ?thesis by blast
qed

lemma le_31: "(n::nat) \<le> 31 \<longleftrightarrow> n < 32"
  by linarith

lemma block_172: "((m::nat) div 256 = 172 \<and> 16 \<le> m mod 256 \<and> m mod 256 \<le> 31) = (m div 16 = 2753)"
  using sub_block [of 16 16 1 m 172] by (simp add: le_31)

lemma block_100: "((m::nat) div 256 = 100 \<and> 64 \<le> m mod 256 \<and> m mod 256 < 128) = (m div 64 = 401)"
  using sub_block [of 64 4 1 m 100] by simp

lemma block_16: "y < 256 \<Longrightarrow> ((m::nat) div 256 = x \<and> m mod 256 = y) = (m = x * 256 + y)"
  using div_mult_mod_eq [of m 256] by auto

lemma v4_private_blocks:
  "v4_private_range a \<longleftrightarrow>
     v4_in a (v4_from_octets 10 0 0 0) 8 \<or> v4_in a (v4_from_octets 172 16 0 0) 12
     \<or> v4_in a (v4_from_octets 192 168 0 0) 16 \<or> v4_in a (v4_from_octets 169 254 0 0) 16
     \<or> v4_in a (v4_from_octets 100 64 0 0) 10"
  using block_172 [of "unat a div 65536"] block_100 [of "unat a div 65536"]
    block_16 [of 168 "unat a div 65536" 192] block_16 [of 254 "unat a div 65536" 169]
  by (simp add: v4_private_range_def v4_is_private_def v4_is_link_local_def v4_block word_unat_eq_iff
      word_le_nat_alt word_less_nat_alt octet_high octet_high(2) [simplified])

lemma loopback_block: "is_loopback (IpV4 a) \<longleftrightarrow> v4_in a (v4_from_octets 127 0 0 0) 8"
  by (simp add: v4_block word_unat_eq_iff octet_high)


lemma allows_default:
  "acl_allows \<lparr>rules = [Loopback, Private]\<rparr> addr \<longleftrightarrow> is_loopback addr \<or> is_private addr"
  by (auto simp: acl_allows_def)

lemma keyword_trim: "trim ''loopback'' = ''loopback''" "trim ''private'' = ''private''"
  by (simp_all add: trim_graphic graphic_def)

text \<open>
  C23. The default stance (\<open>loopback\<close>, \<open>private\<close>) serves an IPv4 client exactly when its address
  is in 127.0.0.0/8, 10.0.0.0/8, 172.16.0.0/12, 192.168.0.0/16, 169.254.0.0/16 or 100.64.0.0/10:
  the public internet is refused, and no address of the listed networks is.
\<close>

theorem default_stance_exact:
  "\<exists>acl. acl_parse [''loopback'', ''private''] = Inr acl \<and>
     (\<forall>a. acl_allows acl (IpV4 a) \<longleftrightarrow>
        v4_in a (v4_from_octets 127 0 0 0) 8 \<or> v4_in a (v4_from_octets 10 0 0 0) 8
        \<or> v4_in a (v4_from_octets 172 16 0 0) 12 \<or> v4_in a (v4_from_octets 192 168 0 0) 16
        \<or> v4_in a (v4_from_octets 169 254 0 0) 16 \<or> v4_in a (v4_from_octets 100 64 0 0) 10)"
proof -
  have "acl_parse [''loopback'', ''private''] = Inr \<lparr>rules = [Loopback, Private]\<rparr>"
    by (simp add: acl_parse_def parse_rule_def keyword_trim to_ascii_lowercase_def
        ascii_lower_def is_ascii_upper_def)
  then show ?thesis
    by (auto simp: allows_default loopback_block v4_private_blocks simp del: is_loopback.simps)
qed

lemma parse_cidr_wf: "acl_parse_cidr s = Inr r \<Longrightarrow> rule_wf r"
  by (auto simp: acl_parse_cidr_def word_le_nat_alt unat_of_nat split: option.splits IpAddr.splits if_splits)

lemma parse_rule_wf: "parse_rule s = Inr r \<Longrightarrow> rule_wf r"
  by (auto simp: parse_rule_def Let_def dest: parse_cidr_wf split: if_splits)

lemma parse_rules_wf:
  "parse_rules acc es = Inr rs \<Longrightarrow> list_all rule_wf acc \<Longrightarrow>
     list_all rule_wf rs \<and> length rs = length acc + length es"
proof (induction acc es rule: parse_rules.induct)
  case (2 acc raw entries)
  then obtain r where r: "parse_rule raw = Inr r" "parse_rules (acc @ [r]) entries = Inr rs"
    by (auto split: sum.splits)
  with 2 parse_rule_wf [of raw r] show ?case by simp
qed simp

lemma acl_parse_rules_wf:
  assumes "acl_parse entries = Inr acl"
  shows "acl_wf acl" "length (rules acl) = length entries"
proof -
  obtain rs where rs: "parse_rules [] entries = Inr rs" "acl = \<lparr>rules = rs\<rparr>"
    using assms by (auto simp: acl_parse_def map_sum_def split: sum.splits)
  then show "acl_wf acl" "length (rules acl) = length entries"
    using parse_rules_wf [of "[]" entries rs] by (auto simp: acl_wf_def)
qed

lemma rule_V4_numeric:
  "p \<le> 32 \<Longrightarrow> rule_matches addr (Rule_V4 n p) \<longleftrightarrow>
     (\<exists>a. addr = IpV4 a \<and> unat a div 2 ^ (32 - unat p) = unat n div 2 ^ (32 - unat p))"
  using v4.numeric [of "unat p" _ n] by (auto simp: word_le_nat_alt split: IpAddr.splits)

lemma rule_V6_numeric:
  "q \<le> 128 \<Longrightarrow> rule_matches addr (Rule_V6 m q) \<longleftrightarrow>
     (\<exists>b. addr = IpV6 b \<and> unat b div 2 ^ (128 - unat q) = unat m div 2 ^ (128 - unat q))"
  using v6.numeric [of "unat q" _ m] by (auto simp: word_le_nat_alt split: IpAddr.splits)

text \<open>
  A parsed ACL has one rule per configured entry, every CIDR rule has a prefix length its
  address family has (so the mask shift of \<open>v4_in\<close> and \<open>v6_in\<close> never wraps), and such a rule
  matches exactly the addresses of its own family that agree with the network above the host bits.
\<close>

lemma parsed_rules_match_prefix:
  assumes "acl_parse entries = Inr acl"
  shows "length (rules acl) = length entries \<and>
    (\<forall>n p addr. Rule_V4 n p \<in> set (rules acl) \<longrightarrow>
       p \<le> 32 \<and> (rule_matches addr (Rule_V4 n p) \<longleftrightarrow>
        (\<exists>a. addr = IpV4 a \<and> unat a div 2 ^ (32 - unat p) = unat n div 2 ^ (32 - unat p)))) \<and>
    (\<forall>m q addr. Rule_V6 m q \<in> set (rules acl) \<longrightarrow>
       q \<le> 128 \<and> (rule_matches addr (Rule_V6 m q) \<longleftrightarrow>
        (\<exists>b. addr = IpV6 b \<and> unat b div 2 ^ (128 - unat q) = unat m div 2 ^ (128 - unat q))))"
proof -
  have wf: "\<forall>r \<in> set (rules acl). rule_wf r" and len: "length (rules acl) = length entries"
    using acl_parse_rules_wf [OF assms] by (auto simp: acl_wf_def list_all_iff)
  have "p \<le> 32" if "Rule_V4 n p \<in> set (rules acl)" for n p using wf that by fastforce
  moreover have "q \<le> 128" if "Rule_V6 m q \<in> set (rules acl)" for m q using wf that by fastforce
  ultimately show ?thesis using len rule_V4_numeric rule_V6_numeric by blast
qed

lemma parse_24: "acl_parse [''192.168.4.0/24''] =
    Inr \<lparr>rules = [Rule_V4 (v4_from_octets 192 168 4 0) 24]\<rparr>"
  by (simp add: acl_eval)

lemma parsed_rules_match_prefix_witness:
  "\<not> rule_matches (IpV4 (v4_from_octets 192 168 5 1)) (Rule_V4 (v4_from_octets 192 168 4 0) 24)
   \<and> rule_matches (IpV4 (v4_from_octets 192 168 4 77)) (Rule_V4 (v4_from_octets 192 168 4 0) 24)"
  using parsed_rules_match_prefix [OF parse_24]
  by (simp add: v4_from_octets_def dotted_def)

text \<open>
  C25. On an ACL with at least one rule, \<open>trust_subnet\<close> admits exactly the addresses it admitted
  before plus, when it reports that it widened the list, the IPv4 addresses of the given subnet. It
  widens only a list that has the \<open>private\<close> keyword: an explicit list is returned unchanged.
\<close>

theorem trust_subnet_widens_exactly:
  assumes "acl_wf acl" "rules acl \<noteq> []" "p \<le> 32" "trust_subnet acl n p = (acl', widened)"
  shows "acl_wf acl' \<and>
    (\<forall>addr. acl_allows acl' addr \<longleftrightarrow> acl_allows acl addr \<or> widened \<and>
       (\<exists>a. addr = IpV4 a \<and> unat a div 2 ^ (32 - unat p) = unat n div 2 ^ (32 - unat p))) \<and>
    (widened \<longrightarrow> Private \<in> set (rules acl) \<and> \<not> acl_allows acl (IpV4 n)) \<and>
    (\<not> widened \<longrightarrow> acl' = acl)"
proof (cases "widened")
  case True
  then have acl': "acl' = acl\<lparr>rules := rules acl @ [Rule_V4 n p]\<rparr>"
    and new: "Private \<in> set (rules acl) \<and> \<not> acl_allows acl (IpV4 n)"
    using assms(2,4) by (auto simp: trust_subnet_def split: if_splits)
  have "acl_allows acl' addr \<longleftrightarrow> acl_allows acl addr \<or> rule_matches addr (Rule_V4 n p)" for addr
    using assms(2) by (simp add: acl' acl_allows_def)
  moreover have "acl_wf acl'" using assms(1,3) by (simp add: acl' acl_wf_def)
  ultimately show ?thesis using True new rule_V4_numeric [OF assms(3)] by simp
next
  case False
  then have "acl' = acl" using assms(4) by (auto simp: trust_subnet_def split: if_splits)
  with False assms(1) show ?thesis by simp
qed

lemma trust_example:
  "trust_subnet \<lparr>rules = [Loopback, Private]\<rparr> (v4_from_octets 203 0 113 0) 24 =
     (\<lparr>rules = [Loopback, Private, Rule_V4 (v4_from_octets 203 0 113 0) 24]\<rparr>, True)"
  by (simp add: trust_subnet_def acl_allows_def range_eval)

theorem trust_subnet_widens_exactly_witness:
  "acl_allows \<lparr>rules = [Loopback, Private, Rule_V4 (v4_from_octets 203 0 113 0) 24]\<rparr>
     (IpV4 (v4_from_octets 203 0 113 9))"
proof -
  have "\<exists>a. IpV4 (v4_from_octets 203 0 113 9) = IpV4 a \<and>
      unat a div 2 ^ (32 - unat (24::u8)) = unat (v4_from_octets 203 0 113 0) div 2 ^ (32 - unat (24::u8))"
    by (simp add: v4_from_octets_def dotted_def)
  then show ?thesis
    using trust_subnet_widens_exactly [OF _ _ _ trust_example] by (simp add: acl_wf_def)
qed

text \<open>
  With an empty rule list, which admits every private and loopback address, trusting a subnet
  whose network address is public replaces that default: afterwards only the subnet itself is
  admitted, and the private and loopback clients served before are refused.
\<close>

lemma trust_subnet_empty_revokes_private:
  assumes "\<not> is_private (IpV4 n)" "\<not> is_loopback (IpV4 n)" "p \<le> 32"
  shows "(\<forall>addr. acl_allows \<lparr>rules = []\<rparr> addr \<longleftrightarrow> is_private addr \<or> is_loopback addr) \<and>
    (\<forall>addr. acl_allows (fst (trust_subnet \<lparr>rules = []\<rparr> n p)) addr \<longleftrightarrow>
       (\<exists>a. addr = IpV4 a \<and> unat a div 2 ^ (32 - unat p) = unat n div 2 ^ (32 - unat p)))"
proof -
  have "trust_subnet \<lparr>rules = []\<rparr> n p = (\<lparr>rules = [Rule_V4 n p]\<rparr>, True)"
    using assms by (simp add: trust_subnet_def acl_allows_def del: is_loopback.simps)
  then show ?thesis
    using rule_V4_numeric [OF assms(3)]
    by (simp add: acl_allows_def del: is_loopback.simps rule_matches.simps)
qed

lemma public_24: "\<not> is_private (IpV4 (v4_from_octets 203 0 113 0))"
  "\<not> is_loopback (IpV4 (v4_from_octets 203 0 113 0))" "(24::u8) \<le> 32"
  by (simp_all add: range_eval)

lemma trust_subnet_empty_revokes_private_witness:
  "\<not> acl_allows (fst (trust_subnet \<lparr>rules = []\<rparr> (v4_from_octets 203 0 113 0) 24))
      (IpV4 (v4_from_octets 192 168 1 5))"
  using trust_subnet_empty_revokes_private [OF public_24]
  by (simp add: v4_from_octets_def dotted_def)

text \<open>
  \<open>is_open_to_world\<close> is sound but incomplete: an ACL it reports admits every address, yet the
  entry \<open>1.2.3.4/0\<close> (any IPv4 prefix of length zero other than the spelling \<open>0.0.0.0/0\<close>) is accepted,
  admits every IPv4 address and is not reported.
\<close>

lemma is_open_to_world_sound_not_complete:
  "(\<forall>acl addr. is_open_to_world acl \<longrightarrow> acl_allows acl addr) \<and>
   (\<exists>acl. acl_parse [''1.2.3.4/0''] = Inr acl \<and> (\<forall>a. acl_allows acl (IpV4 a)) \<and>
      \<not> is_open_to_world acl)"
proof -
  have "acl_parse [''1.2.3.4/0''] = Inr \<lparr>rules = [Rule_V4 (v4_from_octets 1 2 3 4) 0]\<rparr>"
    by (simp add: acl_eval)
  then show ?thesis
    by (auto simp: is_open_to_world_def acl_allows_def v4_in_def list_ex_iff intro: bexI [of _ Any])
qed

lemma open_any: "is_open_to_world \<lparr>rules = [Loopback, Any]\<rparr>"
  by code_simp

lemma is_open_to_world_sound_not_complete_witness:
  "acl_allows \<lparr>rules = [Loopback, Any]\<rparr> (IpV4 (v4_from_octets 8 8 8 8))"
  using is_open_to_world_sound_not_complete open_any by blast

end
