(* ===== verification/Config.thy ===== *)
theory Config
  imports Acl
begin

text \<open>
  The configuration (\<open>src/config.rs\<close>): its records and defaults, loading, validation and the file
  names derived from it. A path is its string; \<open>toml::from_str\<close> is an argument (\<open>None\<close>: the text does
  not parse). A rejected configuration is a value of \<open>ConfigError\<close>, in the order the checks are made.
\<close>

section \<open>Definitions\<close>

type_synonym path = string

record DnsConfig =
  dns_listen :: SocketAddr
  listen_v6 :: "SocketAddr option"
  enable_tcp :: bool
  allow_from :: "string list"
  upstreams :: "SocketAddr list"
  upstream_timeout_ms :: nat
  upstream_udp_payload :: u16
  max_udp_in_flight :: nat
  max_tcp_connections :: nat
  request_timeout_ms :: nat
  cache_on :: bool
  cache_max_entries :: nat
  cache_min_ttl :: u32
  cache_max_ttl :: u32

record WebConfig =
  web_listen :: SocketAddr
  admin_token :: "string option"

record StorageConfig =
  database :: path
  retention_days :: nat
  flush_interval_ms :: nat

record DiscoveryConfig =
  d_arp :: bool
  arp_interval_secs :: nat
  d_mdns :: bool
  d_dhcp :: bool
  d_sweep :: bool
  sweep_interval_secs :: nat
  reverse_dns :: bool
  d_subnet :: "string option"
  oui_file :: "path option"

record BlockingConfig =
  b_enabled :: bool
  b_mode :: string
  b_sources :: "string list"
  b_files :: "path list"
  refresh_hours :: nat
  disable_firefox_doh :: bool
  state_dir :: path

record AlertConfig =
  al_enabled :: bool
  ntfy_url :: string
  new_device :: bool
  nxdomain_storm :: bool
  nxdomain_threshold :: u32
  nxdomain_window_mins :: u32
  scan_interval_secs :: nat
  cooldown_mins :: u32

record Config =
  dns :: DnsConfig
  web :: WebConfig
  storage :: StorageConfig
  discovery :: DiscoveryConfig
  blocking :: BlockingConfig
  alerts :: AlertConfig

definition AlertConfig_default :: AlertConfig where
  "AlertConfig_default =
     \<lparr>al_enabled = True, ntfy_url = [], new_device = True, nxdomain_storm = True,
      nxdomain_threshold = 50, nxdomain_window_mins = 10, scan_interval_secs = 300,
      cooldown_mins = 60\<rparr>"

definition DnsConfig_default :: DnsConfig where
  "DnsConfig_default =
     \<lparr>dns_listen = \<lparr>sa_ip = IpV4 0, sa_port = 53\<rparr>, listen_v6 = None, enable_tcp = True,
      allow_from = [''loopback'', ''private''],
      upstreams = [\<lparr>sa_ip = IpV4 (v4_from_octets 1 1 1 1), sa_port = 53\<rparr>,
                   \<lparr>sa_ip = IpV4 (v4_from_octets 9 9 9 9), sa_port = 53\<rparr>],
      upstream_timeout_ms = 2500, upstream_udp_payload = 1232, max_udp_in_flight = 128,
      max_tcp_connections = 64, request_timeout_ms = 10000, cache_on = True,
      cache_max_entries = 20000, cache_min_ttl = 30, cache_max_ttl = 86400\<rparr>"

definition WebConfig_default :: WebConfig where
  "WebConfig_default =
     \<lparr>web_listen = \<lparr>sa_ip = IpV4 (v4_from_octets 127 0 0 1), sa_port = 8080\<rparr>, admin_token = None\<rparr>"

definition StorageConfig_default :: StorageConfig where
  "StorageConfig_default =
     \<lparr>database = ''/var/lib/netwatch/netwatch.db'', retention_days = 14, flush_interval_ms = 750\<rparr>"

definition DiscoveryConfig_default :: DiscoveryConfig where
  "DiscoveryConfig_default =
     \<lparr>d_arp = True, arp_interval_secs = 15, d_mdns = True, d_dhcp = False, d_sweep = True,
      sweep_interval_secs = 120, reverse_dns = True, d_subnet = None, oui_file = None\<rparr>"

definition BlockingConfig_default :: BlockingConfig where
  "BlockingConfig_default =
     \<lparr>b_enabled = True, b_mode = ''zero_ip'',
      b_sources = [''https://raw.githubusercontent.com/StevenBlack/hosts/master/hosts''],
      b_files = [], refresh_hours = 24, disable_firefox_doh = True,
      state_dir = ''/var/lib/netwatch''\<rparr>"

definition Config_default :: Config where
  "Config_default =
     \<lparr>dns = DnsConfig_default, web = WebConfig_default, storage = StorageConfig_default,
      discovery = DiscoveryConfig_default, blocking = BlockingConfig_default,
      alerts = AlertConfig_default\<rparr>"

datatype ConfigError =
    CannotRead
  | TomlError
  | NoUpstreams
  | BadAllowFrom string CidrError
  | ZeroLimit
  | ListenV6NotIpv6
  | TokenRequired
  | BadNtfyUrl
  | ZeroAlertSetting
  | BadBlockingMode

definition validate :: "Config \<Rightarrow> ConfigError + unit" where
  "validate cfg =
     (if upstreams (dns cfg) = [] then Inl NoUpstreams
      else case acl_parse (allow_from (dns cfg)) of
        Inl (e, err) \<Rightarrow> Inl (BadAllowFrom e err)
      | Inr _ \<Rightarrow>
          if \<not> (0 < max_udp_in_flight (dns cfg) \<and> 0 < max_tcp_connections (dns cfg)) then Inl ZeroLimit
          else if (case listen_v6 (dns cfg) of None \<Rightarrow> False | Some v6 \<Rightarrow> is_ipv4 (sa_ip v6))
          then Inl ListenV6NotIpv6
          else if \<not> is_loopback (sa_ip (web_listen (web cfg)))
            \<and> \<not> (case admin_token (web cfg) of None \<Rightarrow> False | Some t \<Rightarrow> 16 \<le> length (trim t))
          then Inl TokenRequired
          else if trim (ntfy_url (alerts cfg)) \<noteq> []
            \<and> \<not> (starts_with ''http://'' (trim (ntfy_url (alerts cfg)))
                 \<or> starts_with ''https://'' (trim (ntfy_url (alerts cfg))))
          then Inl BadNtfyUrl
          else if \<not> (0 < nxdomain_threshold (alerts cfg) \<and> 0 < nxdomain_window_mins (alerts cfg)
                     \<and> 0 < scan_interval_secs (alerts cfg))
          then Inl ZeroAlertSetting
          else if \<not> (b_mode (blocking cfg) = ''zero_ip'' \<or> b_mode (blocking cfg) = ''nxdomain'')
          then Inl BadBlockingMode
          else Inr ())"

text \<open>\<open>content\<close> is what reading the file gave.\<close>

definition config_load :: "(string \<Rightarrow> Config option) \<Rightarrow> string option \<Rightarrow> ConfigError + Config" where
  "config_load toml content =
     (case content of
        None \<Rightarrow> Inl CannotRead
      | Some t \<Rightarrow> (case toml t of
          None \<Rightarrow> Inl TomlError
        | Some cfg \<Rightarrow> (case validate cfg of Inl e \<Rightarrow> Inl e | Inr _ \<Rightarrow> Inr cfg)))"

text \<open>The file named on the command line, if any: whether it exists and what reading it gives.\<close>

definition load_or_default ::
    "(string \<Rightarrow> Config option) \<Rightarrow> (bool \<times> string option) option \<Rightarrow> ConfigError + Config" where
  "load_or_default toml path =
     (case path of
        Some (exists, content) \<Rightarrow> if exists then config_load toml content else Inr Config_default
      | None \<Rightarrow> Inr Config_default)"

text \<open>\<open>Path::join\<close>: an absolute second component replaces the first.\<close>

definition path_join :: "path \<Rightarrow> string \<Rightarrow> path" where
  "path_join a b =
     (if starts_with ''/'' b then b
      else if a = [] \<or> last a = CHR ''/'' then a @ b
      else a @ ''/'' @ b)"

definition manual_deny_path :: "Config \<Rightarrow> path" where
  "manual_deny_path cfg = path_join (state_dir (blocking cfg)) ''deny.list''"

definition manual_allow_path :: "Config \<Rightarrow> path" where
  "manual_allow_path cfg = path_join (state_dir (blocking cfg)) ''allow.list''"

text \<open>The 64-bit FNV-1a hash of a URL.\<close>

definition fnv_hash :: "string \<Rightarrow> u64" where
  "fnv_hash url = fold (\<lambda>b h. (h XOR word_of_nat (ch b)) * 0x100000001b3) url 0xcbf29ce484222325"

definition cached_list_path :: "Config \<Rightarrow> string \<Rightarrow> path" where
  "cached_list_path cfg url =
     path_join (state_dir (blocking cfg))
       (''lists/'' @ show_hex_padded 16 (unat (fnv_hash url)) @ ''.list'')"

section \<open>Laws\<close>

lemma default_acl: "acl_parse [''loopback'', ''private''] = Inr \<lparr>rules = [Loopback, Private]\<rparr>"
  by (simp add: acl_eval)

lemma default_validates: "validate Config_default = Inr ()"
  by (simp add: validate_def Config_default_def DnsConfig_default_def WebConfig_default_def
      BlockingConfig_default_def AlertConfig_default_def default_acl v4_from_octets_def dotted_def
      octet_def starts_with_def trim_def)

lemma validate_guarantees:
  assumes "validate cfg = Inr u"
  shows "upstreams (dns cfg) \<noteq> [] \<and>
    (\<exists>acl. acl_parse (allow_from (dns cfg)) = Inr acl) \<and>
    0 < max_udp_in_flight (dns cfg) \<and> 0 < max_tcp_connections (dns cfg) \<and>
    (case listen_v6 (dns cfg) of None \<Rightarrow> True | Some a \<Rightarrow> \<not> is_ipv4 (sa_ip a)) \<and>
    (is_loopback (sa_ip (web_listen (web cfg))) \<or>
       (\<exists>t. admin_token (web cfg) = Some t \<and> 16 \<le> length (trim t))) \<and>
    0 < nxdomain_threshold (alerts cfg) \<and> 0 < nxdomain_window_mins (alerts cfg) \<and>
    b_mode (blocking cfg) \<in> {''zero_ip'', ''nxdomain''}"
  using assms unfolding validate_def
  by (auto split: if_splits sum.splits option.splits simp del: is_loopback.simps)

section \<open>Properties\<close>

text \<open>
  Whatever the configuration file holds, a configuration that loads is one the rest of the
  program can rely on: there is an upstream (the code indexes the first one), the ACL parses (the
  resolver's fallback is unreachable), both concurrency limits are positive, the second listener is
  an IPv6 one, a dashboard off loopback has a token of 16 characters or more, and the blocking mode
  is one of the two known ones. The built-in defaults, used when there is no file, are such a
  configuration.
\<close>

lemma loaded_config_is_safe:
  assumes "load_or_default toml file = Inr cfg"
  shows "upstreams (dns cfg) \<noteq> [] \<and>
    (\<exists>acl. acl_parse (allow_from (dns cfg)) = Inr acl) \<and>
    0 < max_udp_in_flight (dns cfg) \<and> 0 < max_tcp_connections (dns cfg) \<and>
    (case listen_v6 (dns cfg) of None \<Rightarrow> True | Some a \<Rightarrow> \<not> is_ipv4 (sa_ip a)) \<and>
    (is_loopback (sa_ip (web_listen (web cfg))) \<or>
       (\<exists>t. admin_token (web cfg) = Some t \<and> 16 \<le> length (trim t))) \<and>
    0 < nxdomain_threshold (alerts cfg) \<and> 0 < nxdomain_window_mins (alerts cfg) \<and>
    b_mode (blocking cfg) \<in> {''zero_ip'', ''nxdomain''}"
proof -
  have "validate cfg = Inr ()"
    using assms default_validates
    by (auto simp: load_or_default_def config_load_def split: option.splits prod.splits if_splits sum.splits)
  then show ?thesis by (rule validate_guarantees)
qed

lemma load_missing: "load_or_default toml (Some (False, None)) = Inr Config_default"
  by (simp add: load_or_default_def)

lemma loaded_config_is_safe_witness: "upstreams (dns Config_default) \<noteq> []"
  using loaded_config_is_safe [OF load_missing] by simp

lemma show_hex_padded_16:
  assumes "n < 2 ^ 64"
  shows "length (show_hex_padded 16 n) = 16" "list_all (is_digit 16) (show_hex_padded 16 n)"
proof -
  have "length (show_radix 16 n) \<le> 16" using assms show_radix_length [of 16 n 16] by simp
  then show "length (show_hex_padded 16 n) = 16" by (simp add: show_hex_padded_def Let_def)
  show "list_all (is_digit 16) (show_hex_padded 16 n)"
    using show_radix_digits [of 16 n]
    by (auto simp: show_hex_padded_def Let_def list_all_iff) (simp_all add: is_digit_def digit_val_def is_ascii_digit_def)
qed

text \<open>
  Whatever characters a list URL contains, its download is cached in a file of the \<open>lists\<close>
  directory below the state directory whose name is 16 hexadecimal digits and \<open>.list\<close>: a URL cannot
  name a file elsewhere, and it never coincides with the manual allow or deny list.
\<close>

lemma cached_list_path_confined:
  "\<exists>hex. length hex = 16 \<and> list_all (is_digit 16) hex \<and>
     cached_list_path cfg url = path_join (state_dir (blocking cfg)) (''lists/'' @ hex @ ''.list'') \<and>
     cached_list_path cfg url \<noteq> manual_deny_path cfg \<and> cached_list_path cfg url \<noteq> manual_allow_path cfg"
proof -
  let ?hex = "show_hex_padded 16 (unat (fnv_hash url))"
  have "unat (fnv_hash url) < 2 ^ 64" using unsigned_less [of "fnv_hash url", where ?'a = nat] by simp
  note hex = show_hex_padded_16 [OF this]
  have join: "path_join d a = path_join d b \<longleftrightarrow> a = b"
    if "\<not> starts_with ''/'' a" "\<not> starts_with ''/'' b" for d a b
    using that by (auto simp: path_join_def)
  show ?thesis
    using hex join by (intro exI [of _ ?hex])
      (auto simp: cached_list_path_def manual_deny_path_def manual_allow_path_def starts_with_def)
qed

end
