(* ===== verification/Alerts.thy ===== *)
theory Alerts
  imports Reports Config
begin

text \<open>
  Alerting (\<open>src/alerts.rs\<close>): the alerts and their texts, the sink with its cooldown map and bounded
  queue, the task that drains the queue into the notifier and the writer, and one turn of the
  NXDOMAIN storm watcher. What the HTTP client does with a notification is an argument (\<open>post\<close>, the
  status of the answer or \<open>None\<close> for a failed request), and so are the readings of the clock.
\<close>

section \<open>Definitions\<close>

definition ALERT_QUEUE_DEPTH :: nat where
  "ALERT_QUEUE_DEPTH = 256"

datatype Severity = Sev_Info | Sev_Warning

fun severity_str :: "Severity \<Rightarrow> string" where
  "severity_str Sev_Info = ''info''"
| "severity_str Sev_Warning = ''warning''"

fun ntfy_priority :: "Severity \<Rightarrow> string" where
  "ntfy_priority Sev_Info = ''3''"
| "ntfy_priority Sev_Warning = ''4''"

fun ntfy_tag :: "Severity \<Rightarrow> string" where
  "ntfy_tag Sev_Info = ''bulb''"
| "ntfy_tag Sev_Warning = ''warning''"

record Alert =
  a_kind :: string
  a_severity :: Severity
  a_subject :: string
  a_title :: string
  a_detail :: string

text \<open>The em dash of the message, in UTF-8.\<close>

definition em_dash :: string where
  "em_dash = [CHR 0xE2, CHR 0x80, CHR 0x94]"

definition alert_new_device :: "string \<Rightarrow> string option \<Rightarrow> string option \<Rightarrow> Alert" where
  "alert_new_device mac hostname vendor =
     (let who = (case hostname of Some h \<Rightarrow> h | None \<Rightarrow> ''an unnamed device'');
          make = (case vendor of Some v \<Rightarrow> v | None \<Rightarrow> ''unknown vendor'')
      in \<lparr>a_kind = ''new_device'', a_severity = Sev_Info, a_subject = mac,
          a_title = ''New device on the network'',
          a_detail = who @ '' ('' @ make @ '') '' @ em_dash @ '' '' @ mac\<rparr>)"

definition alert_nxdomain_storm :: "string \<Rightarrow> nat \<Rightarrow> nat \<Rightarrow> Alert" where
  "alert_nxdomain_storm client n window_mins =
     \<lparr>a_kind = ''nxdomain_storm'', a_severity = Sev_Warning, a_subject = client,
      a_title = ''Unusual NXDOMAIN volume'',
      a_detail = client @ '' got '' @ show_nat n @ '' NXDOMAIN answers in '' @ show_nat window_mins
        @ '' minutes. That is the usual shape of malware looking for a command-and-control ''
        @ ''host, though a broken app can do it too.''\<rparr>"

type_synonym cooldown_map = "(string \<times> string, instant) hmap"

text \<open>The sending side: what is queued, whether the draining task is alive, the cooldown map.\<close>

record AlertSink =
  as_queue :: "Alert list"
  as_open :: bool
  as_cooldown :: "cooldown_map lock"
  as_cooldown_for :: duration

definition cooldown_slot :: "duration \<Rightarrow> string \<times> string \<Rightarrow> instant \<Rightarrow> cooldown_map \<Rightarrow> cooldown_map \<times> bool" where
  "cooldown_slot cooldown_for key now m =
     (if (case hm_get m key of None \<Rightarrow> False | Some t \<Rightarrow> duration_since now t < cooldown_for)
      then (m, False)
      else
        let m = (if 4096 < length m then hm_retain (\<lambda>_ t. duration_since now t < cooldown_for) m else m)
        in (hm_insert key now m, True))"

text \<open>A poisoned mutex lets every alert through.\<close>

definition take_cooldown_slot :: "string \<Rightarrow> string \<Rightarrow> instant \<Rightarrow> AlertSink \<Rightarrow> AlertSink \<times> bool" where
  "take_cooldown_slot kind subject now s =
     (case as_cooldown s of
        None \<Rightarrow> (s, True)
      | Some m \<Rightarrow>
          (case cooldown_slot (as_cooldown_for s) (kind, subject) now m of
             (m', ok) \<Rightarrow> (s\<lparr>as_cooldown := Some m'\<rparr>, ok)))"

definition alert_try_send :: "Alert \<Rightarrow> AlertSink \<Rightarrow> AlertSink" where
  "alert_try_send a s =
     (if as_open s \<and> length (as_queue s) < ALERT_QUEUE_DEPTH then s\<lparr>as_queue := as_queue s @ [a]\<rparr> else s)"

definition alert_raise :: "instant \<Rightarrow> Alert \<Rightarrow> AlertSink \<Rightarrow> AlertSink" where
  "alert_raise now a s =
     (case take_cooldown_slot (a_kind a) (a_subject a) now s of
        (s, ok) \<Rightarrow> if \<not> ok then s else alert_try_send a s)"

text \<open>\<open>build_client\<close>: \<open>built\<close> says whether the HTTP client could be built.\<close>

definition build_client :: "bool \<Rightarrow> string \<Rightarrow> bool" where
  "build_client built url = (if url = [] then False else built)"

text \<open>The sink and whether the task that drains it has a client to push with.\<close>

definition alerts_spawn :: "bool \<Rightarrow> AlertConfig \<Rightarrow> (AlertSink \<times> bool) option" where
  "alerts_spawn built cfg =
     (if \<not> al_enabled cfg then None
      else Some (\<lparr>as_queue = [], as_open = True, as_cooldown = Some [],
                  as_cooldown_for = from_secs (unat (cooldown_mins cfg) * 60)\<rparr>,
                 build_client built (trim (ntfy_url cfg))))"

text \<open>\<open>post\<close> takes the headers and the body of the request; \<open>is_success\<close> is a status of 200 to 299.\<close>

type_synonym ntfy_post = "string \<Rightarrow> string \<Rightarrow> string \<Rightarrow> string \<Rightarrow> nat option"

definition notify :: "ntfy_post \<Rightarrow> Alert \<Rightarrow> bool" where
  "notify post a =
     (case post (a_title a) (ntfy_priority (a_severity a)) (ntfy_tag (a_severity a)) (a_detail a) of
        Some status \<Rightarrow> 200 \<le> status \<and> status < 300
      | None \<Rightarrow> False)"

text \<open>One turn of the draining task.\<close>

definition alert_drain :: "bool \<Rightarrow> ntfy_post \<Rightarrow> int \<Rightarrow> AlertSink \<times> Writer \<Rightarrow> AlertSink \<times> Writer" where
  "alert_drain client post ts st =
     (case st of (s, w) \<Rightarrow>
        case as_queue s of
          [] \<Rightarrow> st
        | a # rest \<Rightarrow>
            let notified = (if client then notify post a else False)
            in (s\<lparr>as_queue := rest\<rparr>,
                writer_send (W_Alert \<lparr>ao_ts = ts, ao_kind = a_kind a, ao_severity = severity_str (a_severity a),
                  ao_subject = a_subject a, ao_detail = a_detail a, ao_notified = notified\<rparr>) w))"

text \<open>
  One turn of the storm watcher: \<open>found\<close> is the result of the scan (\<open>None\<close>: the lock is poisoned or
  the query failed), \<open>clock\<close> the reading when each offender is reported.
\<close>

definition storm_scan :: "(nat \<Rightarrow> instant) \<Rightarrow> nat \<Rightarrow> (string \<times> nat) list option \<Rightarrow> AlertSink \<Rightarrow> AlertSink" where
  "storm_scan clock window_mins found s =
     (case found of
        None \<Rightarrow> s
      | Some offenders \<Rightarrow>
          fold (\<lambda>(i, (client, n)). alert_raise (clock i) (alert_nxdomain_storm client n window_mins))
            (enumerate 0 offenders) s)"

section \<open>The gate and the queue\<close>

definition other_slot :: "duration \<Rightarrow> string \<times> string \<Rightarrow> string \<times> string \<Rightarrow> instant \<Rightarrow> cooldown_map \<Rightarrow> cooldown_map" where
  "other_slot cooldown_for key k now m = (if k = key then m else fst (cooldown_slot cooldown_for k now m))"

lemma cooldown_slot_ok: "hm_ok m \<Longrightarrow> hm_ok (fst (cooldown_slot cd key now m))"
  by (auto simp: cooldown_slot_def Let_def wf_intros)

lemma cooldown_slot_iff:
  "snd (cooldown_slot cd key now m) \<longleftrightarrow> (\<forall>t. hm_get m key = Some t \<longrightarrow> cd \<le> now - t)"
  by (auto simp: cooldown_slot_def Let_def duration_since_def split: option.splits)

lemma cooldown_slot_refused: "\<not> snd (cooldown_slot cd key now m) \<Longrightarrow> fst (cooldown_slot cd key now m) = m"
  by (auto simp: cooldown_slot_def Let_def split: if_splits)

lemma other_slot_other: "k \<noteq> key \<Longrightarrow> other_slot cd key k now m = fst (cooldown_slot cd k now m)"
  by (simp add: other_slot_def)

lemma cooldown_slot_get:
  assumes "hm_ok m"
  shows "hm_get (fst (cooldown_slot cd key now m)) k =
    (if snd (cooldown_slot cd key now m) \<and> k = key then Some now
     else if snd (cooldown_slot cd key now m) \<and> 4096 < length m
       \<and> (case hm_get m k of None \<Rightarrow> True | Some t \<Rightarrow> cd \<le> now - t) then None
     else hm_get m k)"
  using assms by (auto simp: cooldown_slot_def Let_def hm_simps duration_since_def split: option.splits)

interpretation cg: rate_gate "cooldown_slot cd key" "other_slot cd key" "\<lambda>m. hm_get m key" hm_ok cd
  for cd key
proof (unfold_locales, goal_cases)
  case (3 m now)
  then show ?case by (simp add: cooldown_slot_refused)
next
  case (5 m e now)
  then show ?case
    by (auto simp: other_slot_def cooldown_slot_get split: option.splits if_splits)
qed (auto simp: cooldown_slot_iff cooldown_slot_get cooldown_slot_ok other_slot_def)

interpretation aq: bounded_queue alert_try_send as_queue as_open ALERT_QUEUE_DEPTH
  by unfold_locales (auto simp: alert_try_send_def)

section \<open>Properties\<close>

definition alert_key :: "Alert \<Rightarrow> string \<times> string" where
  "alert_key a = (a_kind a, a_subject a)"

definition alerts_of :: "string \<times> string \<Rightarrow> AlertSink \<Rightarrow> nat" where
  "alerts_of key s = length (filter (\<lambda>a. alert_key a = key) (as_queue s))"

definition raise_all :: "(instant \<times> Alert) list \<Rightarrow> AlertSink \<Rightarrow> AlertSink" where
  "raise_all es s = fold (\<lambda>(t, a). alert_raise t a) es s"

definition sink_ok :: "AlertSink \<Rightarrow> bool" where
  "sink_ok s = (case as_cooldown s of None \<Rightarrow> False | Some m \<Rightarrow> hm_ok m)"

definition gate_events :: "string \<times> string \<Rightarrow> (instant \<times> Alert) list \<Rightarrow> (instant \<times> (string \<times> string) option) list" where
  "gate_events key es = map (\<lambda>(t, a). (t, if alert_key a = key then None else Some (alert_key a))) es"

lemma try_send_alerts: "alerts_of key (alert_try_send a s) \<le> alerts_of key s + (if alert_key a = key then 1 else 0)"
  by (simp add: alert_try_send_def alerts_of_def)

lemma try_send_same [simp]:
  "as_cooldown (alert_try_send a s) = as_cooldown s" "as_cooldown_for (alert_try_send a s) = as_cooldown_for s"
  by (simp_all add: alert_try_send_def)

lemma raise_open:
  assumes "as_cooldown s = Some m"
  shows "as_cooldown (alert_raise t a s) = Some (fst (cooldown_slot (as_cooldown_for s) (alert_key a) t m))"
    and "as_cooldown_for (alert_raise t a s) = as_cooldown_for s"
    and "alerts_of key (alert_raise t a s) \<le> alerts_of key s +
      (if alert_key a = key \<and> snd (cooldown_slot (as_cooldown_for s) (alert_key a) t m) then 1 else 0)"
proof -
  obtain m' ok where slot: "cooldown_slot (as_cooldown_for s) (alert_key a) t m = (m', ok)" by fastforce
  note [simp] = alert_raise_def take_cooldown_slot_def assms slot [unfolded alert_key_def]
  show "as_cooldown (alert_raise t a s) = Some (fst (cooldown_slot (as_cooldown_for s) (alert_key a) t m))"
    "as_cooldown_for (alert_raise t a s) = as_cooldown_for s"
    by (simp_all add: slot)
  have "alerts_of key (s\<lparr>as_cooldown := x\<rparr>) = alerts_of key s" for x by (simp add: alerts_of_def)
  then show "alerts_of key (alert_raise t a s) \<le> alerts_of key s +
      (if alert_key a = key \<and> snd (cooldown_slot (as_cooldown_for s) (alert_key a) t m) then 1 else 0)"
    using try_send_alerts [of key a "s\<lparr>as_cooldown := Some m'\<rparr>"] by (auto simp: slot)
qed

lemma raise_all_gate:
  "as_cooldown s = Some m \<Longrightarrow>
     alerts_of key (raise_all es s) \<le> alerts_of key s +
       length (gate_run (cooldown_slot (as_cooldown_for s) key) (other_slot (as_cooldown_for s) key) (gate_events key es) m)"
proof (induction es arbitrary: s m)
  case Nil
  then show ?case by (simp add: raise_all_def)
next
  case (Cons e es)
  obtain t a where e: "e = (t, a)" by fastforce
  have "alerts_of key (raise_all es (alert_raise t a s)) \<le> alerts_of key (alert_raise t a s) +
      length (gate_run (cooldown_slot (as_cooldown_for s) key) (other_slot (as_cooldown_for s) key) (gate_events key es)
        (fst (cooldown_slot (as_cooldown_for s) (alert_key a) t m)))"
    using Cons.IH [OF raise_open(1) [OF Cons.prems]] by (simp add: raise_open(2) [OF Cons.prems])
  then show ?case
    using raise_open(3) [OF Cons.prems, of key t a]
    by (cases "alert_key a = key") (auto simp: e raise_all_def gate_events_def other_slot_other split: if_splits)
qed

text \<open>
  C33. One subject is never alerted about more than once per cooldown period. However many alerts are
  raised between two moments, of whatever kinds and interleaved in whatever order, at most one per
  cooldown period (and one more for the period the interval begins in) of the same kind and subject
  enters the notification queue, also when the cooldown map is swept of old entries in between.
\<close>

theorem alerts_rate_limited:
  assumes "sink_ok s" "0 < as_cooldown_for s"
    and "sorted (map fst es)" "\<forall>(t, _) \<in> set es. t0 \<le> t \<and> t \<le> t1"
  shows "alerts_of key (raise_all es s) \<le> alerts_of key s + (t1 - t0) div as_cooldown_for s + 1"
proof -
  obtain m where m: "as_cooldown s = Some m" "hm_ok m"
    using assms(1) by (auto simp: sink_ok_def split: option.splits)
  have "map fst (gate_events key es) = map fst es" by (auto simp: gate_events_def)
  moreover have "\<forall>(t, _) \<in> set (gate_events key es). t0 \<le> t \<and> t \<le> t1"
    using assms(4) by (auto simp: gate_events_def)
  ultimately show ?thesis
    using cg.at_most_per_window [OF m(2), of "gate_events key es" t0 t1 "as_cooldown_for s" key]
      raise_all_gate [OF m(1), of key es] assms(2,3) by simp
qed

definition demo_sink :: AlertSink where
  "demo_sink = \<lparr>as_queue = [], as_open = True, as_cooldown = Some [], as_cooldown_for = 60\<rparr>"

definition demo_alerts :: "(instant \<times> Alert) list" where
  "demo_alerts = map (\<lambda>t. (t, alert_new_device ''aa'' None None)) [100, 120, 161]"

theorem alerts_rate_limited_witness:
  "sink_ok demo_sink \<and> 0 < as_cooldown_for demo_sink \<and> sorted (map fst demo_alerts) \<and>
   map fst demo_alerts = [100, 120, 161] \<and>
   alerts_of (''new_device'', ''aa'') (raise_all demo_alerts demo_sink) \<le> 2 \<and>
   alerts_of (''new_device'', ''aa'') (raise_all demo_alerts demo_sink) = 2"
proof -
  have ok: "sink_ok demo_sink" "0 < as_cooldown_for demo_sink" "sorted (map fst demo_alerts)"
    "\<forall>(t, _) \<in> set demo_alerts. 100 \<le> t \<and> t \<le> 161"
    by (simp_all add: sink_ok_def demo_sink_def demo_alerts_def hm_ok_def)
  have "alerts_of (''new_device'', ''aa'') (raise_all demo_alerts demo_sink) = 2"
    by (simp add: raise_all_def demo_alerts_def demo_sink_def alert_raise_def take_cooldown_slot_def
        cooldown_slot_def alert_try_send_def alerts_of_def alert_key_def alert_new_device_def
        hm_defs duration_since_def ALERT_QUEUE_DEPTH_def)
  moreover have "alerts_of (''new_device'', ''aa'') demo_sink = 0"
    by (simp add: alerts_of_def demo_sink_def)
  ultimately show ?thesis
    using ok alerts_rate_limited [OF ok(1-4), of "(''new_device'', ''aa'')"]
    by (simp add: demo_sink_def demo_alerts_def)
qed

text \<open>The sweep bounds the map only by what is younger than the cooldown: subjects that all appear
  within one cooldown period are all kept.\<close>

lemma cooldown_map_unbounded:
  assumes "distinct ss" "0 < cd" "hm_ok m" "\<forall>s \<in> set ss. hm_get m (kind, s) = None"
    and "\<forall>k t. hm_get m k = Some t \<longrightarrow> t = now"
  shows "length (fold (\<lambda>s m. fst (cooldown_slot cd (kind, s) now m)) ss m) = length m + length ss"
  using assms
proof (induction ss arbitrary: m)
  case (Cons s ss)
  let ?m = "fst (cooldown_slot cd (kind, s) now m)"
  have kept: "hm_retain (\<lambda>_ t. duration_since now t < cd) m = m"
    using Cons.prems(2,3,5) by (auto simp: hm_retain_def filter_id_conv duration_since_def hm_get_iff)
  then have m: "?m = hm_insert (kind, s) now m" using Cons.prems(4) by (simp add: cooldown_slot_def)
  then have "length ?m = Suc (length m)" using Cons.prems(3,4) by (simp add: hm.len_insert)
  moreover have "length (fold (\<lambda>s m. fst (cooldown_slot cd (kind, s) now m)) ss ?m) = length ?m + length ss"
    using Cons.prems by (intro Cons.IH) (auto simp: m hm_simps wf_intros)
  ultimately show ?case by simp
qed simp

end
