(* ===== verification/Oui.thy ===== *)
theory Oui
  imports Net_Addr
begin

text \<open>
  MAC address vendor lookup (\<open>src/oui.rs\<close>): the built-in prefix table, the merge of the IEEE
  registry file, the lookup, and the canonical form of a MAC address that the device registry
  uses as its key.
\<close>

section \<open>Definitions\<close>

definition BUILTIN :: "(string \<times> string) list" where
  "BUILTIN =
    [(''B827EB'', ''Raspberry Pi Foundation''),
     (''DCA632'', ''Raspberry Pi Trading''),
     (''E45F01'', ''Raspberry Pi Trading''),
     (''D83ADD'', ''Raspberry Pi Trading''),
     (''2CCF67'', ''Raspberry Pi Trading''),
     (''88A29E'', ''Raspberry Pi Ltd''),
     (''F0D1A9'', ''Apple''),
     (''A85C2C'', ''Apple''),
     (''3C0754'', ''Apple''),
     (''D02598'', ''Apple''),
     (''AC87A3'', ''Apple''),
     (''8C8590'', ''Apple''),
     (''F80377'', ''Apple''),
     (''6C4008'', ''Apple''),
     (''A4B197'', ''Apple''),
     (''DC2B2A'', ''Apple''),
     (''E0B9BA'', ''Apple''),
     (''F0DBF8'', ''Apple''),
     (''04D3CF'', ''Apple''),
     (''BC926B'', ''Apple''),
     (''C82A14'', ''Apple''),
     (''E8508B'', ''Samsung Electronics''),
     (''F409D8'', ''Samsung Electronics''),
     (''5CF6DC'', ''Samsung Electronics''),
     (''8C7712'', ''Samsung Electronics''),
     (''34BE00'', ''Samsung Electronics''),
     (''D0176A'', ''Samsung Electronics''),
     (''2C598A'', ''Samsung Electronics''),
     (''C0BDD1'', ''Samsung Electronics''),
     (''F4F5D8'', ''Google''),
     (''F4F5E8'', ''Google''),
     (''3C5AB4'', ''Google''),
     (''DA A1 19'', ''Google''),
     (''1CF29A'', ''Google''),
     (''54600D'', ''Google Nest''),
     (''18B430'', ''Google Nest''),
     (''F0272D'', ''Amazon Technologies''),
     (''44650D'', ''Amazon Technologies''),
     (''68375A'', ''Amazon Technologies''),
     (''A002DC'', ''Amazon Technologies''),
     (''FCA183'', ''Amazon Technologies''),
     (''74C246'', ''Amazon Technologies''),
     (''50DCE7'', ''Amazon Technologies''),
     (''001B21'', ''Intel''),
     (''3C9709'', ''Intel''),
     (''94659C'', ''Intel''),
     (''A0A8CD'', ''Intel''),
     (''8CC681'', ''Intel''),
     (''E4A471'', ''Intel''),
     (''7C7A91'', ''Intel''),
     (''240AC4'', ''Espressif (ESP32)''),
     (''2462AB'', ''Espressif (ESP32)''),
     (''30AEA4'', ''Espressif (ESP32)''),
     (''3C71BF'', ''Espressif (ESP32)''),
     (''807D3A'', ''Espressif (ESP32)''),
     (''A4CF12'', ''Espressif (ESP32)''),
     (''B4E62D'', ''Espressif (ESP32)''),
     (''CC50E3'', ''Espressif (ESP32)''),
     (''D8A01D'', ''Espressif (ESP32)''),
     (''EC FA BC'', ''Espressif (ESP32)''),
     (''5CCF7F'', ''Espressif (ESP8266)''),
     (''18FE34'', ''Espressif (ESP8266)''),
     (''50C7BF'', ''TP-Link''),
     (''A42BB0'', ''TP-Link''),
     (''C46E1F'', ''TP-Link''),
     (''14CC20'', ''TP-Link''),
     (''6466B3'', ''TP-Link''),
     (''9C5322'', ''TP-Link''),
     (''003192'', ''TP-Link''),
     (''A040A0'', ''Netgear''),
     (''204E7F'', ''Netgear''),
     (''9CD36D'', ''Netgear''),
     (''C40415'', ''Netgear''),
     (''1CBDB9'', ''D-Link''),
     (''14D64D'', ''D-Link''),
     (''2C4D54'', ''ASUSTek''),
     (''1C872C'', ''ASUSTek''),
     (''AC220B'', ''ASUSTek''),
     (''48F8B3'', ''Linksys''),
     (''C0561D'', ''Linksys''),
     (''64B473'', ''Xiaomi''),
     (''F8A45F'', ''Xiaomi''),
     (''286C07'', ''Xiaomi''),
     (''78110F'', ''Xiaomi''),
     (''50EC50'', ''Xiaomi''),
     (''00E0FC'', ''Huawei''),
     (''240995'', ''Huawei''),
     (''48D539'', ''Huawei''),
     (''781DBA'', ''Huawei''),
     (''64A2F9'', ''OnePlus''),
     (''C0EEFB'', ''OnePlus''),
     (''94652D'', ''OnePlus''),
     (''D0C5D3'', ''Oppo''),
     (''2CF0A2'', ''Vivo''),
     (''5CAAFD'', ''Sonos''),
     (''949F3E'', ''Sonos''),
     (''B8E937'', ''Sonos''),
     (''B0A737'', ''Roku''),
     (''CC6DA0'', ''Roku''),
     (''D83134'', ''Roku''),
     (''C8D083'', ''Vizio''),
     (''74E1B6'', ''LG Electronics''),
     (''A816B2'', ''LG Electronics''),
     (''2013E0'', ''Sony''),
     (''FCF152'', ''Sony''),
     (''001788'', ''Philips Hue''),
     (''ECB5FA'', ''Philips Hue''),
     (''245A4C'', ''Ubiquiti''),
     (''788A20'', ''Ubiquiti''),
     (''FC ECDA'', ''Ubiquiti''),
     (''74ACB9'', ''Ubiquiti''),
     (''4C5E0C'', ''Routerboard (MikroTik)''),
     (''E48D8C'', ''Routerboard (MikroTik)''),
     (''6C3B6B'', ''Routerboard (MikroTik)''),
     (''001A2B'', ''Cisco''),
     (''F4CFE2'', ''Cisco''),
     (''3CD92B'', ''HP''),
     (''9CB6D0'', ''HP''),
     (''002673'', ''Brother''),
     (''008077'', ''Brother''),
     (''00000E'', ''Canon''),
     (''2477 03'', ''Epson''),
     (''000C29'', ''VMware''),
     (''005056'', ''VMware''),
     (''080027'', ''VirtualBox''),
     (''525400'', ''QEMU/KVM''),
     (''02420A'', ''Docker''),
     (''B0BE76'', ''Belkin''),
     (''EC1A59'', ''Belkin/Wemo''),
     (''6038E0'', ''Belkin''),
     (''001E8F'', ''Canon''),
     (''00248C'', ''ASUSTek''),
     (''485D36'', ''Amazon eero''),
     (''F8BBBF'', ''Nintendo''),
     (''98B6E9'', ''Nintendo''),
     (''0017AB'', ''Nintendo''),
     (''7CBB8A'', ''Nintendo''),
     (''BC60A7'', ''Sony PlayStation''),
     (''F8461C'', ''Sony PlayStation''),
     (''000D3A'', ''Microsoft''),
     (''7C1E52'', ''Microsoft''),
     (''60455E'', ''Microsoft Xbox'')]"

record OuiDb =
  oui_map :: "(string, string) hmap"

definition hex_filter :: "string \<Rightarrow> string" where
  "hex_filter s = filter is_ascii_hexdigit s"

text \<open>The key expression of \<open>OuiDb::new\<close>, \<open>load_ieee_csv\<close> and \<open>lookup\<close>: hexadecimal digits only,
  in upper case.\<close>

definition hex_key :: "string \<Rightarrow> string" where
  "hex_key s = map ascii_upper (hex_filter s)"

fun oui_insert_builtin :: "(string, string) hmap \<Rightarrow> (string \<times> string) list \<Rightarrow> (string, string) hmap" where
  "oui_insert_builtin m [] = m"
| "oui_insert_builtin m ((prefix, vendor) # rest) =
     (let key = hex_key prefix in
      oui_insert_builtin (if length key = 6 then hm_insert key vendor m else m) rest)"

definition oui_new :: "OuiDb" where
  "oui_new = \<lparr>oui_map = oui_insert_builtin [] BUILTIN\<rparr>"

text \<open>One line of the registry file: the map and the count after it.\<close>

definition csv_line :: "string \<Rightarrow> OuiDb \<times> nat \<Rightarrow> OuiDb \<times> nat" where
  "csv_line line st = (case st of (db, added) \<Rightarrow>
     (case split_on CHR '','' line of
        registry # assignment # org # _ \<Rightarrow>
          (let key = hex_key assignment in
           if length key \<noteq> 6 then (db, added)
           else let org = trim (trim_matches CHR 0x22 (trim org)) in
             if org = [] then (db, added)
             else (db\<lparr>oui_map := hm_or_insert key org (oui_map db)\<rparr>, Suc added))
      | _ \<Rightarrow> (db, added)))"

text \<open>\<open>text\<close> is what reading the file gave, \<open>None\<close> when it could not be read.\<close>

definition load_ieee_csv :: "string option \<Rightarrow> OuiDb \<Rightarrow> OuiDb \<times> nat option" where
  "load_ieee_csv text db =
     (case text of None \<Rightarrow> (db, None)
      | Some t \<Rightarrow> (let (db', added) = fold csv_line (drop 1 (lines t)) (db, 0) in (db', Some added)))"

definition oui_len :: "OuiDb \<Rightarrow> nat" where
  "oui_len db = length (oui_map db)"

definition oui_lookup :: "OuiDb \<Rightarrow> string \<Rightarrow> string option" where
  "oui_lookup db mac =
     (let hex = hex_key mac in
      if length hex < 6 then None else hm_get (oui_map db) (take 6 hex))"

definition is_randomized :: "string \<Rightarrow> bool" where
  "is_randomized mac =
     (let hex = hex_filter mac in
      if length hex < 2 then False
      else case parse_uint 16 255 (take 2 hex) of
        Some first \<Rightarrow> (word_of_nat first :: u8) AND 0b00000010 \<noteq> 0
      | None \<Rightarrow> False)"

definition oui_normalize :: "string \<Rightarrow> string option" where
  "oui_normalize mac =
     (let hex = hex_filter mac in
      if length hex \<noteq> 12 then None
      else if list_all (\<lambda>c. c = CHR ''0'') hex then None
      else let lower = to_ascii_lowercase hex;
               pairs = map (\<lambda>i. take 2 (drop (i * 2) lower)) [0, 1, 2, 3, 4, 5]
           in Some (join '':'' pairs))"

section \<open>Laws\<close>

lemma hexdigit_not_colon: "\<not> is_ascii_hexdigit CHR '':''"
  by (simp add: is_ascii_hexdigit_def is_ascii_digit_def)

lemma hexdigit_lower: "is_ascii_hexdigit c \<Longrightarrow> is_ascii_hexdigit (ascii_lower c)"
  by (auto simp: ascii_lower_def is_ascii_hexdigit_def is_ascii_upper_def is_ascii_digit_def)

lemma hex_filter_idem [simp]: "hex_filter (hex_filter s) = hex_filter s"
  by (simp add: hex_filter_def)

lemma hex_filter_all: "list_all is_ascii_hexdigit s \<Longrightarrow> hex_filter s = s"
  by (simp add: hex_filter_def list_all_iff filter_id_conv)

lemma hex_filter_Nil [simp]: "hex_filter [] = []"
  by (simp add: hex_filter_def)

lemma hex_filter_append [simp]: "hex_filter (a @ b) = hex_filter a @ hex_filter b"
  by (simp add: hex_filter_def)

lemma hex_filter_colon [simp]: "hex_filter (CHR '':'' # s) = hex_filter s"
  by (simp add: hex_filter_def hexdigit_not_colon)

lemma hex_filter_join:
  "hex_filter (join '':'' ps) = concat (map hex_filter ps)"
  by (induction "'':''" ps rule: join.induct) auto

text \<open>A canonical MAC: six lower-case pairs joined by colons, not all zero.\<close>

definition mac_digits :: "string \<Rightarrow> bool" where
  "mac_digits d \<longleftrightarrow> length d = 12 \<and> list_all is_ascii_hexdigit d
     \<and> list_all (\<lambda>c. \<not> is_ascii_upper c) d \<and> \<not> list_all (\<lambda>c. c = CHR ''0'') d"

definition mac_of_digits :: "string \<Rightarrow> string" where
  "mac_of_digits d = join '':'' (map (\<lambda>i. take 2 (drop (i * 2) d)) [0, 1, 2, 3, 4, 5])"

definition is_mac :: "string \<Rightarrow> bool" where
  "is_mac m \<longleftrightarrow> (\<exists>d. mac_digits d \<and> m = mac_of_digits d)"

lemma take_pairs:
  "length d = 12 \<Longrightarrow> concat (map (\<lambda>i. take 2 (drop (i * 2) d)) [0, 1, 2, 3, 4, 5]) = d"
  by (auto simp: numeral_eq_Suc length_Suc_conv)

lemma hex_filter_mac_of_digits: "mac_digits d \<Longrightarrow> hex_filter (mac_of_digits d) = d"
proof -
  assume d: "mac_digits d"
  then have "\<And>i. hex_filter (take 2 (drop (i * 2) d)) = take 2 (drop (i * 2) d)"
    by (intro hex_filter_all) (auto simp: mac_digits_def list_all_iff dest!: in_set_takeD in_set_dropD)
  with d show ?thesis
    by (simp only: mac_of_digits_def hex_filter_join map_map comp_def take_pairs mac_digits_def)
qed

lemma lower_zero_iff: "ascii_lower c = CHR ''0'' \<longleftrightarrow> c = CHR ''0''"
proof
  assume "ascii_lower c = CHR ''0''"
  then have "ch (ascii_lower c) = 48" by simp
  then have "ch c = ch CHR ''0''" by (auto simp: ascii_lower_def is_ascii_upper_def split: if_splits)
  then show "c = CHR ''0''" by (simp only: ch_eq_iff)
qed (simp add: ascii_lower_def is_ascii_upper_def)

lemma normalize_alt:
  "oui_normalize mac =
     (if mac_digits (to_ascii_lowercase (hex_filter mac))
      then Some (mac_of_digits (to_ascii_lowercase (hex_filter mac))) else None)"
proof -
  have "list_all is_ascii_hexdigit (to_ascii_lowercase (hex_filter mac))"
    by (auto simp: to_ascii_lowercase_def hex_filter_def list_all_iff hexdigit_lower)
  moreover have "list_all (\<lambda>c. \<not> is_ascii_upper c) (to_ascii_lowercase (hex_filter mac))"
    by (auto simp: list_all_iff dest: lowercase_not_upper)
  moreover have "list_all (\<lambda>c. c = CHR ''0'') (to_ascii_lowercase (hex_filter mac)) =
      list_all (\<lambda>c. c = CHR ''0'') (hex_filter mac)"
    by (simp add: to_ascii_lowercase_def list_all_iff lower_zero_iff)
  ultimately show ?thesis
    by (simp add: oui_normalize_def mac_digits_def mac_of_digits_def Let_def)
qed

lemma normalize_is_mac: "oui_normalize mac = Some m \<Longrightarrow> is_mac m"
  by (auto simp: normalize_alt is_mac_def split: if_splits)

lemma normalize_mac: "is_mac m \<Longrightarrow> oui_normalize m = Some m"
proof -
  assume "is_mac m"
  then obtain d where d: "mac_digits d" "m = mac_of_digits d" by (auto simp: is_mac_def)
  then have "to_ascii_lowercase (hex_filter m) = d"
    by (simp add: hex_filter_mac_of_digits lower_noop mac_digits_def)
  with d show ?thesis by (simp add: normalize_alt)
qed

lemma length_mac_of_digits: "length d = 12 \<Longrightarrow> length (mac_of_digits d) = 17"
  by (simp add: mac_of_digits_def)

lemma mac_of_digits_inj: "mac_digits d \<Longrightarrow> mac_digits e \<Longrightarrow> mac_of_digits d = mac_of_digits e \<longleftrightarrow> d = e"
  using hex_filter_mac_of_digits by metis

section \<open>Properties\<close>

text \<open>
  \<open>normalize\<close> is a canonical form: its result has 17 characters, normalises to itself, and two
  spellings of an address have the same normal form exactly when their hexadecimal digits agree up
  to case, whatever the separators.
\<close>

lemma normalize_canonical:
  assumes "oui_normalize a = Some m"
  shows "length m = 17 \<and> oui_normalize m = Some m \<and>
    (\<forall>b. oui_normalize b = Some m \<longleftrightarrow>
       to_ascii_lowercase (hex_filter b) = to_ascii_lowercase (hex_filter a))"
proof -
  let ?d = "to_ascii_lowercase (hex_filter a)"
  have d: "mac_digits ?d" "m = mac_of_digits ?d" using assms by (auto simp: normalize_alt split: if_splits)
  then have "length m = 17" using length_mac_of_digits by (simp add: mac_digits_def)
  moreover have "oui_normalize m = Some m" using normalize_is_mac [OF assms] by (rule normalize_mac)
  moreover have "oui_normalize b = Some m \<longleftrightarrow> to_ascii_lowercase (hex_filter b) = ?d" for b
    using d by (auto simp: normalize_alt mac_of_digits_inj)
  ultimately show ?thesis by blast
qed

lemma normalize_dashes: "oui_normalize ''A4-83-E7-00-00-01'' = Some ''a4:83:e7:00:00:01''"
  by (simp add: oui_normalize_def hex_filter_def str_eval Let_def)

lemma normalize_canonical_witness: "oui_normalize ''a483.e700.0001'' = Some ''a4:83:e7:00:00:01''"
  using normalize_canonical [OF normalize_dashes] by (simp add: hex_filter_def str_eval)

lemma csv_line_mono:
  "hm_ok (oui_map db) \<Longrightarrow> csv_line l (db, n) = (db', n') \<Longrightarrow>
     hm_ok (oui_map db') \<and> n \<le> n' \<and> length (oui_map db') + n \<le> length (oui_map db) + n' \<and>
     (hm_get (oui_map db) k = Some v \<longrightarrow> hm_get (oui_map db') k = Some v)"
  by (auto simp: csv_line_def Let_def hm_simps hm_len_or_insert wf_intros split: list.splits if_splits)

lemma csv_fold_mono:
  "hm_ok (oui_map db) \<Longrightarrow> fold csv_line ls (db, n) = (db', n') \<Longrightarrow>
     hm_ok (oui_map db') \<and> n \<le> n' \<and> length (oui_map db') + n \<le> length (oui_map db) + n' \<and>
     (hm_get (oui_map db) k = Some v \<longrightarrow> hm_get (oui_map db') k = Some v)"
proof (induction ls arbitrary: db n)
  case (Cons l ls)
  obtain db1 n1 where s: "csv_line l (db, n) = (db1, n1)" by fastforce
  with csv_line_mono [OF Cons.prems(1) s, of k v] Cons.IH [of db1 n1] Cons.prems show ?case by auto
qed simp

lemma insert_builtin_ok: "hm_ok m \<Longrightarrow> hm_ok (oui_insert_builtin m es)"
  by (induction m es rule: oui_insert_builtin.induct) (auto simp: Let_def wf_intros)

text \<open>
  Loading the IEEE registry on top of the compiled-in table only fills gaps: every vendor the
  table already knew is unchanged, whatever the file says, the map stays a map, and it grows by at
  most the number of rows reported as added.
\<close>

lemma load_csv_fills_gaps:
  assumes "load_ieee_csv content oui_new = (db, added)"
  shows "hm_ok (oui_map db) \<and>
    (\<forall>mac v. oui_lookup oui_new mac = Some v \<longrightarrow> oui_lookup db mac = Some v) \<and>
    (case added of None \<Rightarrow> content = None \<and> db = oui_new | Some n \<Rightarrow> oui_len db \<le> oui_len oui_new + n)"
proof (cases content)
  case None
  then show ?thesis
    using assms by (auto simp: load_ieee_csv_def oui_new_def intro: insert_builtin_ok [OF hm.inv_empty])
next
  case (Some t)
  have ok: "hm_ok (oui_map oui_new)" by (simp add: oui_new_def insert_builtin_ok hm.inv_empty)
  from Some assms obtain n where f: "fold csv_line (drop 1 (lines t)) (oui_new, 0) = (db, n)"
    "added = Some n" by (auto simp: load_ieee_csv_def split: prod.splits)
  then show ?thesis
    using csv_fold_mono [OF ok f(1)] by (auto simp: oui_lookup_def oui_len_def Let_def)
qed

lemma csv_one_row:
  "load_ieee_csv (Some ''Registry,Assignment\<newline>MA-L,60-45-5E,X'') db =
     (db\<lparr>oui_map := hm_or_insert ''60455E'' ''X'' (oui_map db)\<rparr>, Some 1)"
  by (simp add: load_ieee_csv_def csv_line_def hex_key_def hex_filter_def str_eval
      ascii_upper_def trim_matches_def trim_end_matches_def lines_def strip_cr_def)

lemma insert_builtin_snoc:
  "oui_insert_builtin m (es @ [(p, v)]) =
     (if length (hex_key p) = 6 then hm_insert (hex_key p) v (oui_insert_builtin m es)
      else oui_insert_builtin m es)"
  by (induction m es rule: oui_insert_builtin.induct) (auto simp: Let_def)

lemma builtin_xbox: "oui_lookup oui_new ''60:45:5e:12:34:56'' = Some ''Microsoft Xbox''"
proof -
  have "BUILTIN = butlast BUILTIN @ [(''60455E'', ''Microsoft Xbox'')]"
  proof -
    have "last BUILTIN = (''60455E'', ''Microsoft Xbox'')" "BUILTIN \<noteq> []"
      by (simp_all only: BUILTIN_def last.simps list.distinct simp_thms if_False if_True)
    then show ?thesis using append_butlast_last_id [of BUILTIN] by simp
  qed
  then have "oui_map oui_new =
      oui_insert_builtin [] (butlast BUILTIN @ [(''60455E'', ''Microsoft Xbox'')])"
    by (simp only: oui_new_def OuiDb.select_convs)
  then show ?thesis
    by (simp add: oui_lookup_def insert_builtin_snoc hm_simps hex_key_def hex_filter_def str_eval
        ascii_upper_def)
qed

lemma load_csv_fills_gaps_witness:
  "oui_lookup (fst (load_ieee_csv (Some ''Registry,Assignment\<newline>MA-L,60-45-5E,X'') oui_new))
     ''60:45:5e:12:34:56'' = Some ''Microsoft Xbox''"
  using load_csv_fills_gaps [OF csv_one_row] builtin_xbox by (simp add: csv_one_row)

end
