(* ===== verification/Netinfo.thy ===== *)
theory Netinfo
  imports Acl Oui
begin

text \<open>
  Network state read from \<open>/proc\<close> and \<open>/sys\<close> (\<open>src/netinfo.rs\<close>): the subnet arithmetic the sweep and
  the ACL widening use, and the parsers of the routing, ARP and interface tables and of the
  firmware's throttling mask. A file that is read is an argument (\<open>None\<close>: the read failed).
  Floating-point numbers are opaque: \<open>f64_ops\<close> holds the three operations the code applies to them.
\<close>

section \<open>Definitions\<close>

record DefaultRoute =
  dr_iface :: string
  dr_gateway :: u32

record Subnet =
  network :: u32
  prefix_len :: u8

definition netmask :: "Subnet \<Rightarrow> u32" where
  "netmask s = (if prefix_len s = 0 then 0 else shl_u32 (- 1) (32 - prefix_len s))"

definition subnet_contains :: "Subnet \<Rightarrow> u32 \<Rightarrow> bool" where
  "subnet_contains s addr \<longleftrightarrow> (addr AND netmask s) = (network s AND netmask s)"

definition hosts :: "Subnet \<Rightarrow> u32 list" where
  "hosts s =
     (if prefix_len s < 16 \<or> 30 < prefix_len s then []
      else let base = network s AND netmask s;
               count = shl_u32 1 (32 - prefix_len s)
           in map (\<lambda>i. base + word_of_nat i) [1..<unat count - 1])"

definition subnet_parse_cidr :: "string \<Rightarrow> CidrError + Subnet" where
  "subnet_parse_cidr s =
     (case split_once CHR ''/'' s of
        None \<Rightarrow> Inl NoPrefixLength
      | Some (addr, len) \<Rightarrow>
          (case parse_ipv4 (trim addr) of
             None \<Rightarrow> Inl BadAddress
           | Some net \<Rightarrow>
               (case parse_uint 10 255 (trim len) of
                  None \<Rightarrow> Inl BadPrefixLength
                | Some p \<Rightarrow>
                    if p \<le> 32 then Inr \<lparr>network = net, prefix_len = word_of_nat p\<rparr>
                    else Inl PrefixOutOfRange)))"

definition show_subnet :: "Subnet \<Rightarrow> string" where
  "show_subnet s = show_ipv4 (network s) @ ''/'' @ show_nat (unat (prefix_len s))"

text \<open>\<open>u32::swap_bytes\<close> and \<open>u32::count_ones\<close>.\<close>

definition swap_bytes :: "u32 \<Rightarrow> u32" where
  "swap_bytes w = v4_from_octets (octet w 3) (octet w 2) (octet w 1) (octet w 0)"

definition count_ones :: "u32 \<Rightarrow> nat" where
  "count_ones w = length (filter (bit w) [0..<32])"

definition hex_le_to_ipv4 :: "string \<Rightarrow> u32 option" where
  "hex_le_to_ipv4 s = map_option (\<lambda>raw. swap_bytes (word_of_nat raw)) (parse_uint 16 (2 ^ 32 - 1) s)"

fun default_route_in :: "string list \<Rightarrow> DefaultRoute option" where
  "default_route_in [] = None"
| "default_route_in (line # rest) =
     (let f = split_whitespace line in
      if length f < 8 then default_route_in rest
      else if f ! 1 \<noteq> ''00000000'' then default_route_in rest
      else case hex_le_to_ipv4 (f ! 2) of
        None \<Rightarrow> default_route_in rest
      | Some gw \<Rightarrow>
          if \<not> v4_is_unspecified gw then Some \<lparr>dr_iface = f ! 0, dr_gateway = gw\<rparr>
          else default_route_in rest)"

definition parse_default_route :: "string \<Rightarrow> DefaultRoute option" where
  "parse_default_route text = default_route_in (drop 1 (lines text))"

definition default_route :: "string option \<Rightarrow> DefaultRoute option" where
  "default_route routes = Option.bind routes parse_default_route"

text \<open>The route a line of the table contributes to \<open>parse_lan_subnet\<close>: the loop body up to the
  comparison with the best one so far.\<close>

definition on_link_route :: "string \<Rightarrow> string \<Rightarrow> Subnet option" where
  "on_link_route iface line =
     (let f = split_whitespace line in
      if length f < 8 \<or> f ! 0 \<noteq> iface then None
      else if f ! 2 \<noteq> ''00000000'' \<or> f ! 1 = ''00000000'' then None
      else case hex_le_to_ipv4 (f ! 1) of
        None \<Rightarrow> None
      | Some net \<Rightarrow>
          (case hex_le_to_ipv4 (f ! 7) of
             None \<Rightarrow> None
           | Some netm \<Rightarrow>
               if v4_is_link_local net \<or> v4_is_multicast net then None
               else Some \<lparr>network = net, prefix_len = word_of_nat (count_ones netm)\<rparr>))"

fun best_route :: "string \<Rightarrow> Subnet option \<Rightarrow> string list \<Rightarrow> Subnet option" where
  "best_route iface best [] = best"
| "best_route iface best (line # rest) =
     best_route iface
       (case on_link_route iface line of
          None \<Rightarrow> best
        | Some s \<Rightarrow> (case best of
            None \<Rightarrow> Some s
          | Some b \<Rightarrow> if prefix_len b < prefix_len s then Some s else best)) rest"

definition parse_lan_subnet :: "string \<Rightarrow> string \<Rightarrow> Subnet option" where
  "parse_lan_subnet text iface = best_route iface None (drop 1 (lines text))"

definition lan_subnet :: "string option \<Rightarrow> string \<Rightarrow> Subnet option" where
  "lan_subnet routes iface = Option.bind routes (\<lambda>text. parse_lan_subnet text iface)"

record ArpEntry =
  arp_ip :: u32
  arp_mac :: string
  arp_iface :: string

definition arp_line :: "string \<Rightarrow> ArpEntry list" where
  "arp_line line =
     (let f = split_whitespace line in
      if length f < 6 then []
      else case parse_ipv4 (f ! 0) of
        None \<Rightarrow> []
      | Some ip \<Rightarrow>
          if f ! 2 = ''0x0'' then []
          else case oui_normalize (f ! 3) of
            None \<Rightarrow> []
          | Some mac \<Rightarrow> [\<lparr>arp_ip = ip, arp_mac = mac, arp_iface = f ! 5\<rparr>])"

definition parse_arp_table :: "string \<Rightarrow> ArpEntry list" where
  "parse_arp_table text = concat (map arp_line (drop 1 (lines text)))"

definition arp_table :: "string option \<Rightarrow> ArpEntry list option" where
  "arp_table file = map_option parse_arp_table file"

record IfaceCounters =
  ic_iface :: string
  rx_bytes :: nat
  tx_bytes :: nat
  rx_packets :: nat
  tx_packets :: nat
  rx_errors :: nat
  tx_errors :: nat
  rx_dropped :: nat
  tx_dropped :: nat

definition u64_max :: nat where
  "u64_max = 2 ^ 64 - 1"

definition counter_line :: "string \<Rightarrow> IfaceCounters list" where
  "counter_line line =
     (case split_once CHR '':'' line of
        None \<Rightarrow> []
      | Some (name, rest) \<Rightarrow>
          (let iface = trim name in
           if iface = ''lo'' then []
           else let v = map (\<lambda>s. case parse_uint 10 u64_max s of Some n \<Rightarrow> n | None \<Rightarrow> 0)
                          (split_whitespace rest)
                in if length v < 16 then []
                   else [\<lparr>ic_iface = iface, rx_bytes = v ! 0, tx_bytes = v ! 8,
                          rx_packets = v ! 1, tx_packets = v ! 9,
                          rx_errors = v ! 2, tx_errors = v ! 10,
                          rx_dropped = v ! 3, tx_dropped = v ! 11\<rparr>]))"

definition parse_iface_counters :: "string \<Rightarrow> IfaceCounters list" where
  "parse_iface_counters text = concat (map counter_line (drop 2 (lines text)))"

definition iface_counters :: "string option \<Rightarrow> IfaceCounters list option" where
  "iface_counters file = map_option parse_iface_counters file"

fun trim_start_0x :: "string \<Rightarrow> string" where
  "trim_start_0x (a # b # s) = (if a = CHR ''0'' \<and> b = CHR ''x'' then trim_start_0x s else a # b # s)"
| "trim_start_0x s = s"

definition parse_throttled_bits :: "string \<Rightarrow> u32 option" where
  "parse_throttled_bits raw = map_option word_of_nat (parse_uint 16 (2 ^ 32 - 1) (trim_start_0x (trim raw)))"

definition throttle_labels :: "(nat \<times> string) list" where
  "throttle_labels =
     [(0, ''undervoltage''), (1, ''ARM frequency capped''), (2, ''throttled''),
      (3, ''soft temperature limit'')]"

definition describe_throttled :: "u32 \<Rightarrow> string" where
  "describe_throttled bits =
     (let now = map snd (filter (\<lambda>(b, _). (bits AND push_bit b 1) \<noteq> 0) throttle_labels);
          past = map snd (filter (\<lambda>(b, _). (bits AND push_bit (b + 16) 1) \<noteq> 0) throttle_labels);
          out = (if now = [] then [] else ''now: '' @ join '', '' now)
      in if past = [] then out
         else (if out = [] then out else out @ ''; '') @ ''since boot: '' @ join '', '' past)"

text \<open>The two places the mask may be exposed, the second tried when the first cannot be read.\<close>

definition read_throttled :: "string option \<Rightarrow> string option \<Rightarrow> string option" where
  "read_throttled firmware hwmon =
     do {
       raw \<leftarrow> (case firmware of Some r \<Rightarrow> Some r | None \<Rightarrow> hwmon);
       bits \<leftarrow> parse_throttled_bits (trim raw);
       let s = describe_throttled bits;
       if s = [] then None else Some s
     }"

record 'f f64_ops =
  f64_parse :: "string \<Rightarrow> 'f option"
  f64_zero :: 'f
  f64_as_u64 :: "'f \<Rightarrow> nat"
  f64_milli :: "'f \<Rightarrow> 'f"

record 'f SystemInfo =
  uptime_secs :: nat
  load1 :: 'f
  load5 :: 'f
  load15 :: 'f
  mem_total_kb :: nat
  mem_available_kb :: nat
  cpu_temp_c :: "'f option"
  si_throttled :: "string option"

definition f64_or_zero :: "'f f64_ops \<Rightarrow> string \<Rightarrow> 'f" where
  "f64_or_zero ops s = (case f64_parse ops s of Some x \<Rightarrow> x | None \<Rightarrow> f64_zero ops)"

definition meminfo_line :: "string \<Rightarrow> 'f SystemInfo \<Rightarrow> 'f SystemInfo" where
  "meminfo_line line info =
     (case split_once CHR '':'' line of
        None \<Rightarrow> info
      | Some (k, v) \<Rightarrow>
          (let kb = (case split_whitespace v of [] \<Rightarrow> 0
                     | n # _ \<Rightarrow> (case parse_uint 10 u64_max n of Some x \<Rightarrow> x | None \<Rightarrow> 0))
           in if k = ''MemTotal'' then info\<lparr>mem_total_kb := kb\<rparr>
              else if k = ''MemAvailable'' then info\<lparr>mem_available_kb := kb\<rparr>
              else info))"

text \<open>The files \<open>system_info\<close> reads, in the order it reads them.\<close>

record system_files =
  proc_uptime :: "string option"
  proc_loadavg :: "string option"
  proc_meminfo :: "string option"
  sys_get_throttled :: "string option"
  sys_hwmon_throttled :: "string option"
  sys_thermal :: "string option"

definition system_info :: "'f f64_ops \<Rightarrow> system_files \<Rightarrow> 'f SystemInfo" where
  "system_info ops fs =
     (let info = \<lparr>uptime_secs = 0, load1 = f64_zero ops, load5 = f64_zero ops,
                  load15 = f64_zero ops, mem_total_kb = 0, mem_available_kb = 0,
                  cpu_temp_c = None, si_throttled = None\<rparr>;
          info = (case proc_uptime fs of
                    Some s \<Rightarrow> (case split_whitespace s of
                      first # _ \<Rightarrow> info\<lparr>uptime_secs := f64_as_u64 ops (f64_or_zero ops first)\<rparr>
                    | [] \<Rightarrow> info)
                  | None \<Rightarrow> info);
          info = (case proc_loadavg fs of
                    Some s \<Rightarrow>
                      (let f = split_whitespace s in
                       if 3 \<le> length f then
                         info\<lparr>load1 := f64_or_zero ops (f ! 0), load5 := f64_or_zero ops (f ! 1),
                              load15 := f64_or_zero ops (f ! 2)\<rparr>
                       else info)
                  | None \<Rightarrow> info);
          info = (case proc_meminfo fs of
                    Some s \<Rightarrow> fold meminfo_line (lines s) info
                  | None \<Rightarrow> info);
          info = info\<lparr>si_throttled := read_throttled (sys_get_throttled fs) (sys_hwmon_throttled fs)\<rparr>
      in case sys_thermal fs of
           Some s \<Rightarrow> (case f64_parse ops (trim s) of
             Some milli \<Rightarrow> info\<lparr>cpu_temp_c := Some (f64_milli ops milli)\<rparr>
           | None \<Rightarrow> info)
         | None \<Rightarrow> info)"

text \<open>The outcome of the timed connection attempt of \<open>tcp_probe_ms\<close>.\<close>

datatype probe_outcome = Connected | ConnectionRefused | OtherIoError | ProbeTimedOut

fun tcp_probe_ms :: "probe_outcome \<Rightarrow> duration \<Rightarrow> duration option" where
  "tcp_probe_ms Connected elapsed = Some elapsed"
| "tcp_probe_ms ConnectionRefused elapsed = Some elapsed"
| "tcp_probe_ms _ elapsed = None"

section \<open>Laws\<close>

interpretation lan: cidr_match "\<lambda>a n p. subnet_contains \<lparr>network = n, prefix_len = word_of_nat p\<rparr> a"
proof (unfold_locales, goal_cases)
  case (1 p a n)
  have "subnet_contains \<lparr>network = n, prefix_len = word_of_nat p\<rparr> a = v4_in a n (word_of_nat p)"
    by (simp add: subnet_contains_def netmask_def v4_in_def Let_def)
  with v4.matches_iff [OF 1] show ?case by simp
qed

lemma contains_numeric:
  assumes "prefix_len s \<le> 32"
  shows "subnet_contains s a \<longleftrightarrow>
    unat a div 2 ^ (32 - unat (prefix_len s)) = unat (network s) div 2 ^ (32 - unat (prefix_len s))"
  using lan.numeric [of "unat (prefix_len s)" "network s" a] assms
  by (cases s) (simp add: word_le_nat_alt eq_commute)

lemma and_push_bit_mask:
  fixes a :: "'a::len word"
  shows "unat (a AND push_bit k (- 1)) = unat a div 2 ^ k * 2 ^ k"
proof -
  have "a AND push_bit k (- 1) = push_bit k (drop_bit k a)"
    by (rule bit_word_eqI) (auto simp: bit_and_iff bit_not_iff bit_mask_iff bit_push_bit_iff bit_drop_bit_eq)
  moreover have "unat a div 2 ^ k * 2 ^ k < 2 ^ LENGTH('a)"
    using unsigned_less [of a, where ?'a = nat] by (meson div_times_less_eq_dividend le_less_trans)
  moreover have "unat (push_bit k (drop_bit k a)) = unat a div 2 ^ k * 2 ^ k mod 2 ^ LENGTH('a)"
    by (simp only: unsigned_push_bit_eq unat_drop_bit_eq push_bit_eq_mult [where 'a = nat]
        drop_bit_eq_div [where 'a = nat] take_bit_eq_mod [where 'a = nat])
  ultimately show ?thesis by simp
qed

lemma block_range:
  fixes b :: nat
  assumes "0 < b"
  shows "a div b = q \<longleftrightarrow> (\<exists>i < b. a = q * b + i)"
  using assms by (metis add.commute div_mult_mod_eq div_mult_self3 div_less mod_less_divisor add_0 not_less0)

lemma unat_shifted_one: "k < 32 \<Longrightarrow> unat (push_bit k (1 :: u32)) = 2 ^ k"
  unfolding unsigned_push_bit_eq
  by (simp add: take_bit_eq_mod push_bit_eq_mult power_strict_increasing [of k 32 "2::nat", simplified])

text \<open>The number of addresses of a subnet and its first address, as numbers.\<close>

definition subnet_size :: "Subnet \<Rightarrow> nat" where
  "subnet_size s = 2 ^ (32 - unat (prefix_len s))"

definition subnet_first :: "Subnet \<Rightarrow> nat" where
  "subnet_first s = unat (network s) div subnet_size s * subnet_size s"

lemma subnet_block_bound:
  assumes "prefix_len s \<le> 32"
  shows "subnet_first s + subnet_size s \<le> 2 ^ 32"
proof -
  let ?p = "unat (prefix_len s)" and ?q = "unat (network s) div subnet_size s"
  have p: "?p \<le> 32" using assms by (simp add: word_le_nat_alt)
  have "unat (network s) < 2 ^ ?p * subnet_size s"
    using unsigned_less [of "network s", where ?'a = nat] p by (simp add: subnet_size_def flip: power_add)
  then have "?q < 2 ^ ?p" by (simp add: less_mult_imp_div_less)
  then have "(?q + 1) * subnet_size s \<le> 2 ^ ?p * subnet_size s" by (intro mult_le_mono1) simp
  then show ?thesis using p by (simp add: subnet_first_def subnet_size_def flip: power_add)
qed

lemma contains_iff_block:
  assumes "prefix_len s \<le> 32"
  shows "subnet_contains s a \<longleftrightarrow> (\<exists>i < subnet_size s. unat a = subnet_first s + i)"
  using block_range [of "subnet_size s" "unat a" "unat (network s) div subnet_size s"]
    contains_numeric [OF assms] by (simp add: subnet_first_def subnet_size_def)

lemma hosts_eval:
  assumes "16 \<le> prefix_len s" "prefix_len s \<le> 30"
  shows "hosts s = map (\<lambda>i. word_of_nat (subnet_first s + i)) [1..<subnet_size s - 1]"
    and "4 \<le> subnet_size s"
proof -
  let ?p = "unat (prefix_len s)"
  have p: "16 \<le> ?p" "?p \<le> 30" using assms by (simp_all add: word_le_nat_alt)
  have k: "unat (32 - prefix_len s) = 32 - ?p"
    using p unat_sub_u8 [of "prefix_len s" 32] by (simp add: word_le_nat_alt)
  have "prefix_len s \<noteq> 0" using p by auto
  then have "unat (network s AND netmask s) = subnet_first s"
    using k p and_push_bit_mask [of "network s" "32 - ?p"]
    by (simp add: netmask_def shl_u32_def subnet_first_def subnet_size_def)
  then have base: "(network s AND netmask s) = word_of_nat (subnet_first s)"
    by (simp flip: \<open>unat (network s AND netmask s) = subnet_first s\<close>)
  have "(2::nat) ^ (32 - ?p) \<le> 2 ^ 16" using p by (intro power_increasing) auto
  then have cnt: "unat (shl_u32 1 (32 - prefix_len s)) = subnet_size s"
    using k p unat_shifted_one [of "32 - ?p"] by (simp add: shl_u32_def subnet_size_def)
  have "(2::nat) ^ 2 \<le> 2 ^ (32 - ?p)" using p by (intro power_increasing) auto
  then show "4 \<le> subnet_size s" by (simp add: subnet_size_def)
  show "hosts s = map (\<lambda>i. word_of_nat (subnet_first s + i)) [1..<subnet_size s - 1]"
    using assms cnt base by (simp add: hosts_def Let_def)
qed

section \<open>Properties\<close>

text \<open>
  The addresses a sweep probes: for a /16 to /30 subnet \<open>hosts\<close> lists, without repetition,
  exactly the addresses the subnet contains except the first (the network address) and the last
  (the broadcast address), and no address computation overflows; every other prefix length gives
  nothing.
\<close>

lemma hosts_exact:
  "if 16 \<le> prefix_len s \<and> prefix_len s \<le> 30
   then distinct (hosts s) \<and> length (hosts s) = subnet_size s - 2 \<and>
     set (hosts s) = {a. subnet_contains s a \<and> unat a \<noteq> subnet_first s
       \<and> unat a \<noteq> subnet_first s + subnet_size s - 1}
   else hosts s = []"
proof (cases "16 \<le> prefix_len s \<and> prefix_len s \<le> 30")
  case True
  then have p32: "prefix_len s \<le> 32" by (simp add: word_le_nat_alt)
  have ev: "hosts s = map (\<lambda>i. word_of_nat (subnet_first s + i)) [1..<subnet_size s - 1]"
    "4 \<le> subnet_size s" using hosts_eval True by auto
  have small: "unat (word_of_nat (subnet_first s + i) :: u32) = subnet_first s + i"
    if "i < subnet_size s" for i
    using that subnet_block_bound [OF p32] by (simp add: unat_of_nat del: of_nat_add)
  have "inj_on (\<lambda>i. word_of_nat (subnet_first s + i) :: u32) {..<subnet_size s}"
    by (rule inj_onI) (metis small add_left_cancel lessThan_iff)
  then have "inj_on (\<lambda>i. word_of_nat (subnet_first s + i) :: u32) (set [1..<subnet_size s - 1])"
    by (rule inj_on_subset) auto
  moreover have "a \<in> set (hosts s) \<longleftrightarrow> subnet_contains s a \<and> unat a \<noteq> subnet_first s
      \<and> unat a \<noteq> subnet_first s + subnet_size s - 1" for a
  proof -
    have "a \<in> set (hosts s) \<longleftrightarrow>
        (\<exists>i \<in> {1..<subnet_size s - 1}. a = word_of_nat (subnet_first s + i))"
      by (auto simp: ev(1) simp del: of_nat_add)
    also have "\<dots> \<longleftrightarrow> (\<exists>i \<in> {1..<subnet_size s - 1}. unat a = subnet_first s + i)"
      using small by (intro bex_cong) (auto simp: word_unat_eq_iff simp del: of_nat_add)
    finally show ?thesis using contains_iff_block [OF p32, of a] ev(2) by auto
  qed
  ultimately show ?thesis using True ev(1) by (simp add: distinct_map set_eq_iff)
qed (auto simp: hosts_def)

lemma show_nat_digit: "c \<in> set (show_nat n) \<Longrightarrow> is_ascii_digit c"
  using show_radix_digits [of 10 n] by (auto simp: show_nat_def is_digit_10 list_all_iff)

lemma slash_not_in_ipv4: "CHR ''/'' \<notin> set (show_ipv4 a)"
  by (auto simp: show_ipv4_alt dest: show_nat_digit)

lemma split_once_append: "c \<notin> set p \<Longrightarrow> split_once c (p @ c # s) = Some (p, s)"
  by (induction p) auto

lemma digit_graphic: "is_ascii_digit c \<Longrightarrow> graphic c"
  by (auto simp: is_ascii_digit_def graphic_def)

lemma show_nat_graphic: "list_all graphic (show_nat n)"
  by (auto simp: list_all_iff dest: show_nat_digit digit_graphic)

lemma dot_graphic: "graphic CHR ''.''"
  by (simp add: graphic_def)

lemma show_ipv4_graphic: "list_all graphic (show_ipv4 a)"
  by (auto simp: show_ipv4_alt list_all_iff dot_graphic dest!: show_nat_digit digit_graphic)

text \<open>
  Printing a subnet and parsing it back gives the subnet, for every prefix length up to 32, and
  conversely every subnet the parser accepts has such a prefix length.
\<close>

lemma subnet_cidr_round_trip:
  "(subnet_parse_cidr (show_subnet s) = Inr s \<longleftrightarrow> prefix_len s \<le> 32) \<and>
   (\<forall>t r. subnet_parse_cidr t = Inr r \<longrightarrow> prefix_len r \<le> 32)"
proof -
  have bound: "prefix_len r \<le> 32" if "subnet_parse_cidr t = Inr r" for t r
    using that by (auto simp: subnet_parse_cidr_def word_le_nat_alt unat_of_nat
        split: option.splits if_splits)
  have "unat (prefix_len s) \<le> 255" using unat_less_256 [of "prefix_len s"] by simp
  then have "parse_uint 10 255 (show_nat (unat (prefix_len s))) = Some (unat (prefix_len s))"
    by (simp add: parse_uint_show show_nat_def)
  then have "subnet_parse_cidr (show_subnet s) = Inr s" if "prefix_len s \<le> 32"
    using that slash_not_in_ipv4 [of "network s"] split_once_append [of "CHR ''/''" "show_ipv4 (network s)"]
    by (simp add: subnet_parse_cidr_def show_subnet_def trim_graphic show_ipv4_graphic show_nat_graphic
        parse_show_ipv4 word_le_nat_alt)
  then show ?thesis using bound by blast
qed

lemma parse_slash_24: "subnet_parse_cidr '' 192.168.4.0/24'' =
    Inr \<lparr>network = v4_from_octets 192 168 4 0, prefix_len = 24\<rparr>"
  by (simp add: subnet_parse_cidr_def trim_def strip_ws.simps ws1_def ws2_def ws3_def parse_ipv4_def str_eval ip_eval)

lemma subnet_cidr_round_trip_witness:
  "subnet_parse_cidr (show_subnet \<lparr>network = v4_from_octets 192 168 4 0, prefix_len = 24\<rparr>) =
     Inr \<lparr>network = v4_from_octets 192 168 4 0, prefix_len = 24\<rparr>"
  using subnet_cidr_round_trip [of "\<lparr>network = v4_from_octets 192 168 4 0, prefix_len = 24\<rparr>"]
    parse_slash_24 by simp

lemma count_ones_le: "count_ones w \<le> 32"
  using length_filter_le [of "bit w" "[0..<32]"] by (simp add: count_ones_def)

lemma on_link_route_prefix:
  assumes "on_link_route iface line = Some s"
  shows "prefix_len s \<le> 32"
proof -
  obtain m where "prefix_len s = word_of_nat (count_ones m)"
    using assms by (auto simp: on_link_route_def Let_def split: if_splits option.splits)
  moreover have "count_ones m mod 256 \<le> 32"
    using count_ones_le [of m] by (meson mod_less_eq_dividend order_trans)
  ultimately show ?thesis by (simp add: word_le_nat_alt unat_of_nat)
qed

text \<open>\<open>s\<close> is the first of the longest prefixes in a list of routes.\<close>

definition most_specific :: "Subnet \<Rightarrow> Subnet list \<Rightarrow> bool" where
  "most_specific s cs \<longleftrightarrow> (\<exists>pre post. cs = pre @ s # post \<and>
     list_all (\<lambda>c. prefix_len c < prefix_len s) pre \<and>
     list_all (\<lambda>c. prefix_len c \<le> prefix_len s) post)"

lemma most_specific_single: "most_specific s [s]"
  unfolding most_specific_def by (intro exI [of _ "[]"]) simp

lemma most_specific_better:
  "most_specific s (c # cs) \<Longrightarrow> prefix_len b < prefix_len c \<Longrightarrow> most_specific s (b # c # cs)"
proof -
  assume a: "most_specific s (c # cs)" "prefix_len b < prefix_len c"
  then obtain pre post where p: "c # cs = pre @ s # post"
    "list_all (\<lambda>c. prefix_len c < prefix_len s) pre"
    "list_all (\<lambda>c. prefix_len c \<le> prefix_len s) post" by (auto simp: most_specific_def)
  then have "prefix_len b < prefix_len s" using a(2) by (cases pre) auto
  with p show ?thesis unfolding most_specific_def
    by (intro exI [of _ "b # pre"] exI [of _ post]) simp
qed

lemma most_specific_worse:
  "most_specific s (b # cs) \<Longrightarrow> prefix_len c \<le> prefix_len b \<Longrightarrow> most_specific s (b # c # cs)"
proof -
  assume a: "most_specific s (b # cs)" "prefix_len c \<le> prefix_len b"
  then obtain pre post where p: "b # cs = pre @ s # post"
    "list_all (\<lambda>c. prefix_len c < prefix_len s) pre"
    "list_all (\<lambda>c. prefix_len c \<le> prefix_len s) post" by (auto simp: most_specific_def)
  show ?thesis
  proof (cases pre)
    case Nil
    with p a(2) show ?thesis unfolding most_specific_def
      by (intro exI [of _ "[]"] exI [of _ "c # post"]) simp
  next
    case (Cons x pre')
    with p a(2) show ?thesis unfolding most_specific_def
      by (intro exI [of _ "b # c # pre'"] exI [of _ post]) auto
  qed
qed

lemma best_route_from:
  "\<exists>s. best_route iface (Some b) ls = Some s \<and>
     most_specific s (b # List.map_filter (on_link_route iface) ls)"
proof (induction ls arbitrary: b)
  case Nil
  then show ?case by (simp add: map_filter_simps most_specific_single)
next
  case (Cons l ls)
  show ?case
  proof (cases "on_link_route iface l")
    case None
    then show ?thesis using Cons.IH [of b] by (simp add: map_filter_simps)
  next
    case (Some r)
    then show ?thesis
      using Cons.IH [of r] Cons.IH [of b] most_specific_better most_specific_worse
      by (cases "prefix_len b < prefix_len r") (auto simp: map_filter_simps)
  qed
qed

lemma best_route_none:
  "case best_route iface None ls of
     None \<Rightarrow> List.map_filter (on_link_route iface) ls = []
   | Some s \<Rightarrow> most_specific s (List.map_filter (on_link_route iface) ls)"
proof (induction ls)
  case (Cons l ls)
  then show ?case
  proof (cases "on_link_route iface l")
    case (Some r)
    then show ?thesis using best_route_from [of iface r ls] by (auto simp: map_filter_simps)
  qed (simp add: map_filter_simps split: option.splits)
qed (simp add: map_filter_simps)

text \<open>
  The LAN netwatch trusts and sweeps is the first of the most specific on-link routes of the
  interface in the kernel's table, with a prefix length of at most 32; none is reported exactly
  when the table has no usable on-link route for the interface.
\<close>

lemma lan_subnet_most_specific:
  "case lan_subnet (Some content) iface of
     None \<Rightarrow> List.map_filter (on_link_route iface) (drop 1 (lines content)) = []
   | Some s \<Rightarrow> prefix_len s \<le> 32 \<and>
       most_specific s (List.map_filter (on_link_route iface) (drop 1 (lines content)))"
proof -
  have "prefix_len s \<le> 32" if "most_specific s (List.map_filter (on_link_route iface) ls)" for s ls
  proof -
    have "s \<in> set (List.map_filter (on_link_route iface) ls)"
      using that by (auto simp: most_specific_def)
    then show ?thesis by (auto simp: List.map_filter_def on_link_route_prefix)
  qed
  then show ?thesis
    using best_route_none [of iface "drop 1 (lines content)"]
    by (auto simp: lan_subnet_def parse_lan_subnet_def split: option.splits)
qed

lemma and_single_bit: "(w AND 2 ^ b) = 0 \<longleftrightarrow> \<not> bit (w :: u32) b"
  using bit_iff_and_push_bit_not_eq_0 [of w b] by simp

lemma describe_empty:
  "describe_throttled bits = [] \<longleftrightarrow>
     list_all (\<lambda>(b, _). \<not> bit bits b \<and> \<not> bit bits (b + 16)) throttle_labels"
  unfolding describe_throttled_def Let_def
  by (simp add: and_single_bit list_all_iff filter_empty_conv case_prod_beta) blast

text \<open>
  The health report mentions throttling exactly when one of the eight documented bits (0 to 3
  for now, 16 to 19 for since boot) is set; every other bit of the firmware's mask is ignored.
\<close>

lemma throttling_reported_iff:
  "read_throttled (Some raw) fallback = None \<longleftrightarrow>
     (case parse_throttled_bits (trim raw) of None \<Rightarrow> True
      | Some bits \<Rightarrow> \<not> (bit bits 0 \<or> bit bits 1 \<or> bit bits 2 \<or> bit bits 3 \<or>
          bit bits 16 \<or> bit bits 17 \<or> bit bits 18 \<or> bit bits 19))"
  by (auto simp: read_throttled_def describe_empty throttle_labels_def Let_def split: option.splits)

end
