(* ===== verification/Discovery.thy ===== *)
theory Discovery
  imports Netinfo
begin

text \<open>
  What discovery reads off the wire (\<open>src/devices.rs\<close>): host names, reverse-lookup names and DHCP
  packets. These are functions of untrusted bytes; the registry that uses them is in \<open>Devices\<close>.
\<close>

section \<open>Definitions\<close>

definition sanitize_hostname :: "string \<Rightarrow> string option" where
  "sanitize_hostname raw =
     (let trimmed = trim_end_matches CHR ''.'' (trim raw) in
      if trimmed = [] \<or> 64 < length trimmed then None
      else if \<not> list_all (\<lambda>b. is_ascii_alphanumeric b \<or> b = CHR ''-'' \<or> b = CHR ''_'' \<or> b = CHR ''.'') trimmed then None
      else if parse_ip trimmed \<noteq> None then None
      else Some (to_ascii_lowercase trimmed))"

text \<open>The addresses are read most significant label last: \<open>42.1.168.192.in-addr.arpa\<close>.\<close>

definition ptr_name_to_ip :: "string \<Rightarrow> u32 option" where
  "ptr_name_to_ip name =
     (let n = to_ascii_lowercase (trim_end_matches CHR ''.'' name) in
      (case strip_suffix ''.in-addr.arpa'' n of
         None \<Rightarrow> None
       | Some base \<Rightarrow>
           let parts = split_on CHR ''.'' base in
           if length parts \<noteq> 4 then None
           else (case map (parse_uint 10 255) (rev parts) of
               [Some a, Some b, Some c, Some d] \<Rightarrow>
                 Some (v4_from_octets (word_of_nat a) (word_of_nat b) (word_of_nat c) (word_of_nat d))
             | _ \<Rightarrow> None)))"

definition strip_local :: "string \<Rightarrow> string" where
  "strip_local s = (case strip_suffix ''.local'' s of Some b \<Rightarrow> b | None \<Rightarrow> s)"

text \<open>The name \<open>reverse_lookup\<close> asks for.\<close>

definition arpa_name :: "u32 \<Rightarrow> string" where
  "arpa_name ip =
     (let o3 = show_nat (unat (octet ip 3)); o2 = show_nat (unat (octet ip 2));
          o1 = show_nat (unat (octet ip 1)); o0 = show_nat (unat (octet ip 0))
      in o3 @ ''.'' @ o2 @ ''.'' @ o1 @ ''.'' @ o0 @ ''.in-addr.arpa.'')"

text \<open>The option loop of \<open>parse_dhcp\<close>, at offset \<open>i\<close> of the packet.\<close>

function dhcp_options :: "u8 list \<Rightarrow> nat \<Rightarrow> string option \<Rightarrow> string option" where
  "dhcp_options pkt i hostname =
     (if i < length pkt then
        let code = pkt ! i in
        if code = 0 then dhcp_options pkt (i + 1) hostname
        else if code = 255 then hostname
        else if length pkt \<le> i + 1 then hostname
        else
          let len = unat (pkt ! (i + 1)); start = i + 2; fin = start + len in
          if length pkt < fin then hostname
          else dhcp_options pkt fin
            (if code = 12
             then case from_utf8 (take len (drop start pkt)) of Some s \<Rightarrow> Some s | None \<Rightarrow> hostname
             else hostname)
      else hostname)"
  by auto
termination by (relation "measure (\<lambda>(pkt, i, _). length pkt - i)") auto

declare dhcp_options.simps [simp del]

definition parse_dhcp :: "u8 list \<Rightarrow> (string \<times> string option) option" where
  "parse_dhcp pkt =
     (if length pkt < 240 then None
      else if pkt ! 0 \<noteq> 1 then None
      else
        let hlen = unat (pkt ! 2) in
        if hlen = 0 \<or> 16 < hlen then None
        else
          let mac_bytes = take (min hlen 6) (drop 28 pkt);
              raw = join '':'' (map (\<lambda>b. show_hex_padded 2 (unat b)) mac_bytes)
          in (case oui_normalize raw of
                None \<Rightarrow> None
              | Some mac \<Rightarrow>
                  if take 4 (drop 236 pkt) \<noteq> [0x63, 0x82, 0x53, 0x63] then Some (mac, None)
                  else Some (mac, dhcp_options pkt 240 None)))"

section \<open>Host names\<close>

text \<open>A host name that is safe to show: short, and of lower-case letters, digits and \<open>-_.\<close> only.\<close>

definition safe_name :: "string \<Rightarrow> bool" where
  "safe_name s \<longleftrightarrow> s \<noteq> [] \<and> length s \<le> 64 \<and> last s \<noteq> CHR ''.'' \<and>
     list_all (\<lambda>c. is_ascii_lower c \<or> is_ascii_digit c \<or> c = CHR ''-'' \<or> c = CHR ''_'' \<or> c = CHR ''.'') s"

lemma lower_name_char:
  "is_ascii_alphanumeric c \<or> c = CHR ''-'' \<or> c = CHR ''_'' \<or> c = CHR ''.'' \<Longrightarrow>
   is_ascii_lower (ascii_lower c) \<or> is_ascii_digit (ascii_lower c) \<or> ascii_lower c = CHR ''-''
     \<or> ascii_lower c = CHR ''_'' \<or> ascii_lower c = CHR ''.''"
  by (auto simp: ascii_lower_def is_ascii_alphanumeric_def is_ascii_lower_def is_ascii_upper_def is_ascii_digit_def)

lemma lower_dot_iff: "ascii_lower c = CHR ''.'' \<longleftrightarrow> c = CHR ''.''"
proof
  assume "ascii_lower c = CHR ''.''"
  then have "ch (ascii_lower c) = 46" by simp
  then have "ch c = ch CHR ''.''" by (auto simp: ascii_lower_def is_ascii_upper_def split: if_splits)
  then show "c = CHR ''.''" by (simp only: ch_eq_iff)
qed (simp add: ascii_lower_def is_ascii_upper_def)

lemma sanitize_safe: "sanitize_hostname raw = Some s \<Longrightarrow> safe_name s"
proof -
  let ?t = "trim_end_matches CHR ''.'' (trim raw)"
  assume "sanitize_hostname raw = Some s"
  then have t: "s = to_ascii_lowercase ?t" "?t \<noteq> []" "length ?t \<le> 64"
    "list_all (\<lambda>b. is_ascii_alphanumeric b \<or> b = CHR ''-'' \<or> b = CHR ''_'' \<or> b = CHR ''.'') ?t"
    by (auto simp: sanitize_hostname_def Let_def split: if_splits)
  have "last ?t \<noteq> CHR ''.''" using trim_end_matches_last [of "CHR ''.''" "trim raw"] t(2) by auto
  then have "last s \<noteq> CHR ''.''" using t(1,2) by (simp add: to_ascii_lowercase_def last_map lower_dot_iff)
  moreover have "list_all (\<lambda>c. is_ascii_lower c \<or> is_ascii_digit c \<or> c = CHR ''-'' \<or> c = CHR ''_'' \<or> c = CHR ''.'') s"
    using t(4) lower_name_char unfolding t(1) to_ascii_lowercase_def list.pred_map comp_def
    by (rule list.pred_mono_strong)
  ultimately show ?thesis using t(1-3) by (auto simp: safe_name_def to_ascii_lowercase_def)
qed

section \<open>Reverse-lookup names\<close>

lemma lower_digits: "list_all (is_digit 10) s \<Longrightarrow> to_ascii_lowercase s = s"
  by (intro lower_noop) (auto simp: list_all_iff is_digit_10 is_ascii_digit_def is_ascii_upper_def)

lemma dot_free_show_nat: "CHR ''.'' \<notin> set (show_nat n)"
  using show_radix_digits [of 10 n] dot_not_digit by (auto simp: show_nat_def list_all_iff is_digit_10)

lemma strip_suffix_append: "strip_suffix t (s @ t) = Some s"
  by (simp add: strip_suffix_def strip_prefix_def)

text \<open>
  The name netwatch asks for when it looks up an address is read back as that address: reverse
  names and the parser of reverse-lookup answers agree on every IPv4 address.
\<close>

lemma ptr_name_round_trip: "ptr_name_to_ip (arpa_name ip) = Some ip"
proof -
  let ?o = "\<lambda>i. show_nat (unat (octet ip i))"
  let ?base = "join ''.'' [?o 3, ?o 2, ?o 1, ?o 0]"
  have arpa: "arpa_name ip = ?base @ ''.in-addr.arpa.''" by (simp add: arpa_name_def Let_def)
  have "trim_end_matches CHR ''.'' (arpa_name ip) = ?base @ ''.in-addr.arpa''"
    by (simp add: arpa trim_end_matches_def)
  moreover have "to_ascii_lowercase (?base @ ''.in-addr.arpa'') = ?base @ ''.in-addr.arpa''"
  proof -
    have "to_ascii_lowercase (?o i) = ?o i" for i by (simp add: lower_digits show_nat_def show_radix_digits)
    moreover have "to_ascii_lowercase (a @ b) = to_ascii_lowercase a @ to_ascii_lowercase b" for a b
      by (simp add: to_ascii_lowercase_def)
    ultimately show ?thesis by (simp add: to_ascii_lowercase_def ascii_lower_def is_ascii_upper_def)
  qed
  moreover have "strip_suffix ''.in-addr.arpa'' (?base @ ''.in-addr.arpa'') = Some ?base"
    by (rule strip_suffix_append)
  moreover have "split_on CHR ''.'' ?base = [?o 3, ?o 2, ?o 1, ?o 0]"
    by (rule split_on_join) (simp_all add: dot_free_show_nat)
  moreover have "parse_uint 10 255 (?o i) = Some (unat (octet ip i))" for i
    using octet_le [of ip i] by (simp add: show_nat_def parse_uint_show)
  ultimately show ?thesis
    by (simp add: ptr_name_to_ip_def Let_def v4_from_octets_octet [simplified])
qed

section \<open>DHCP\<close>

text \<open>The wire format of a list of options: \<open>None\<close> is a pad byte, \<open>Some (code, data)\<close> an option.\<close>

fun encode_option :: "(u8 \<times> u8 list) option \<Rightarrow> u8 list" where
  "encode_option None = [0]"
| "encode_option (Some (code, data)) = code # word_of_nat (length data) # data"

fun option_ok :: "(u8 \<times> u8 list) option \<Rightarrow> bool" where
  "option_ok None = True"
| "option_ok (Some (code, data)) = (code \<noteq> 0 \<and> code \<noteq> 255 \<and> length data < 256)"

fun host_option :: "(u8 \<times> u8 list) option \<Rightarrow> string option \<Rightarrow> string option" where
  "host_option (Some (code, data)) h =
     (if code = 12 then case from_utf8 data of Some s \<Rightarrow> Some s | None \<Rightarrow> h else h)"
| "host_option None h = h"

lemma nth_after: "(pre @ x # rest) ! length pre = x"
  by simp

lemma nth_after_Suc: "(pre @ x # y # rest) ! Suc (length pre) = y"
  by (metis nth_append_length append.assoc append_Cons append_Nil length_append_singleton)

lemma dhcp_options_encoded:
  assumes "list_all option_ok opts"
  shows "dhcp_options (pre @ concat (map encode_option opts) @ 255 # junk) (length pre) h = fold host_option opts h"
  using assms
proof (induction opts arbitrary: pre h)
  case Nil
  show ?case by (subst dhcp_options.simps) (simp add: Let_def)
next
  case (Cons opt opts)
  let ?rest = "concat (map encode_option opts) @ 255 # junk"
  show ?case
  proof (cases opt)
    case None
    have "dhcp_options (pre @ 0 # ?rest) (length pre) h = dhcp_options ((pre @ [0]) @ ?rest) (length (pre @ [0])) h"
      by (subst dhcp_options.simps) (simp add: Let_def)
    then show ?thesis using Cons.IH [of "pre @ [0]" h] Cons.prems by (simp add: None)
  next
    case (Some cd)
    obtain code data where cd: "cd = (code, data)" by fastforce
    have ok: "code \<noteq> 0" "code \<noteq> 255" "length data < 256" using Cons.prems by (simp_all add: Some cd)
    let ?len = "word_of_nat (length data) :: u8"
    let ?pkt = "pre @ code # ?len # data @ ?rest"
    have len: "unat ?len = length data" using ok(3) by (simp add: unat_of_nat)
    have slice: "take (length data) (drop (length pre + 2) ?pkt) = data" by simp
    have "dhcp_options ?pkt (length pre) h = dhcp_options ?pkt (length pre + 2 + length data) (host_option opt h)"
      using ok slice len nth_after_Suc [of pre code ?len "data @ ?rest"]
      by (subst dhcp_options.simps) (simp add: Let_def Some cd)
    also have "\<dots> = dhcp_options ((pre @ code # ?len # data) @ ?rest) (length (pre @ code # ?len # data)) (host_option opt h)"
      by (simp add: add.assoc)
    also have "\<dots> = fold host_option opts (host_option opt h)"
      using Cons.prems by (intro Cons.IH) simp
    finally show ?thesis by (simp add: Some cd)
  qed
qed

definition hex_byte :: "u8 \<Rightarrow> string" where
  "hex_byte b = show_hex_padded 2 (unat b)"

lemma hex_byte_length: "length (hex_byte b) = 2"
proof -
  have "length (show_radix 16 (unat b)) \<le> 2"
    using unat_less_256 [of b] show_radix_length [of 16 "unat b" 2] by simp
  then show ?thesis by (simp add: hex_byte_def show_hex_padded_def Let_def)
qed

lemma digit_char_16: "n < 16 \<Longrightarrow> is_ascii_hexdigit (digit_char n) \<and> \<not> is_ascii_upper (digit_char n) \<and> (digit_char n = CHR ''0'' \<longrightarrow> n = 0)"
  using digit_val_digit_char [of n]
  by (auto simp: digit_char_def is_ascii_hexdigit_def is_ascii_digit_def is_ascii_upper_def digit_val_def)

lemma hex_byte_pair: "hex_byte b = [digit_char (unat b div 16), digit_char (unat b mod 16)]"
proof (cases "unat b < 16")
  case True
  then show ?thesis by (simp add: hex_byte_def show_hex_padded_def show_radix.simps [of 16] digit_char_def char_of_def bit_0)
next
  case False
  moreover have "unat b div 16 < 16" using unat_less_256 [of b] by (simp add: less_mult_imp_div_less)
  ultimately show ?thesis
    by (simp add: hex_byte_def show_hex_padded_def show_radix.simps [of 16 "unat b"] show_radix.simps [of 16 "unat b div 16"])
qed

lemma hex_byte_digits:
  "list_all is_ascii_hexdigit (hex_byte b)" "list_all (\<lambda>c. \<not> is_ascii_upper c) (hex_byte b)"
  "list_all (\<lambda>c. c = CHR ''0'') (hex_byte b) \<Longrightarrow> b = 0"
proof -
  have n: "unat b div 16 < 16" "unat b mod 16 < 16" using unat_less_256 [of b] by (simp_all add: less_mult_imp_div_less)
  show "list_all is_ascii_hexdigit (hex_byte b)" "list_all (\<lambda>c. \<not> is_ascii_upper c) (hex_byte b)"
    using digit_char_16 [OF n(1)] digit_char_16 [OF n(2)] by (simp_all add: hex_byte_pair)
  assume "list_all (\<lambda>c. c = CHR ''0'') (hex_byte b)"
  then have "unat b div 16 = 0" "unat b mod 16 = 0"
    using digit_char_16 [OF n(1)] digit_char_16 [OF n(2)] by (simp_all add: hex_byte_pair)
  then have "unat b = 0" by (metis div_mult_mod_eq mult_0 add_0)
  then show "b = 0" by (simp add: unat_eq_0)
qed

lemma six_elements: "length xs = 6 \<Longrightarrow> \<exists>a b c d e f. xs = [a, b, c, d, e, f]"
  by (auto simp: numeral_eq_Suc length_Suc_conv)

lemma mac_bytes_canonical:
  assumes "length bs = 6" "\<not> list_all (\<lambda>b. b = 0) bs"
  shows "oui_normalize (join '':'' (map hex_byte bs)) = Some (join '':'' (map hex_byte bs))"
proof -
  let ?d = "concat (map hex_byte bs)"
  have "length ?d = 12" using assms(1) by (simp add: length_concat comp_def hex_byte_length sum_list_triv)
  moreover have "list_all is_ascii_hexdigit ?d" "list_all (\<lambda>c. \<not> is_ascii_upper c) ?d"
    using hex_byte_digits(1,2) by (auto simp: list_all_iff)
  moreover have "\<not> list_all (\<lambda>c. c = CHR ''0'') ?d"
  proof
    assume "list_all (\<lambda>c. c = CHR ''0'') ?d"
    then have "list_all (\<lambda>c. c = CHR ''0'') (hex_byte b)" if "b \<in> set bs" for b
      using that unfolding list_all_iff set_concat set_map by blast
    then have "b = 0" if "b \<in> set bs" for b using hex_byte_digits(3) that by blast
    then show False using assms(2) by (simp add: list_all_iff)
  qed
  ultimately have "mac_digits ?d" by (simp add: mac_digits_def)
  moreover obtain a b c d e f where bs: "bs = [a, b, c, d, e, f]"
    using assms(1) six_elements by metis
  have "mac_of_digits ?d = join '':'' (map hex_byte bs)"
    by (simp add: mac_of_digits_def bs hex_byte_pair)
  ultimately have "is_mac (join '':'' (map hex_byte bs))" by (auto simp: is_mac_def)
  then show ?thesis by (rule normalize_mac)
qed

lemma parse_dhcp_steps:
  assumes "240 \<le> length pkt" "pkt ! 0 = 1" "pkt ! 2 = 6" "take 6 (drop 28 pkt) = bs"
    and "oui_normalize (join '':'' (map hex_byte bs)) = Some mac" "take 4 (drop 236 pkt) = [0x63, 0x82, 0x53, 0x63]"
  shows "parse_dhcp pkt = Some (mac, dhcp_options pkt 240 None)"
  using assms by (simp add: parse_dhcp_def hex_byte_def [abs_def])

text \<open>
  C27. DHCP packets are decoded as they are encoded: for a BOOTREQUEST with an Ethernet address, the
  magic cookie and any sequence of options and pad bytes closed by the end marker, the parser returns
  exactly the hardware address in canonical form and the last host-name option that is valid UTF-8,
  whatever follows the end marker.
\<close>

theorem parse_dhcp_decodes:
  assumes "length hdr = 236" "hdr ! 0 = 1" "hdr ! 2 = 6" "\<not> list_all (\<lambda>b. b = 0) (take 6 (drop 28 hdr))"
    and "list_all option_ok opts"
  shows "parse_dhcp (hdr @ [0x63, 0x82, 0x53, 0x63] @ concat (map encode_option opts) @ 255 # junk) =
    Some (join '':'' (map hex_byte (take 6 (drop 28 hdr))), fold host_option opts None)"
proof -
  let ?rest = "concat (map encode_option opts) @ 255 # junk"
  let ?pkt = "hdr @ [0x63, 0x82, 0x53, 0x63] @ ?rest"
  have hd: "?pkt ! 0 = 1" "?pkt ! 2 = 6" using assms(1-3) by (simp_all add: nth_append)
  have mac: "take 6 (drop 28 ?pkt) = take 6 (drop 28 hdr)" using assms(1) by simp
  have "length (take 6 (drop 28 hdr)) = 6" using assms(1) by simp
  note norm = mac_bytes_canonical [OF this assms(4)]
  have cookie: "take 4 (drop 236 ?pkt) = [0x63, 0x82, 0x53, 0x63]" using assms(1) by simp
  have "dhcp_options ?pkt 240 None = fold host_option opts None"
    using dhcp_options_encoded [OF assms(5), of "hdr @ [0x63, 0x82, 0x53, 0x63]" junk None] assms(1) by simp
  moreover have "240 \<le> length ?pkt" using assms(1) by simp
  ultimately show ?thesis using parse_dhcp_steps [OF _ hd mac norm cookie] by simp
qed


definition demo_dhcp_header :: "u8 list" where
  "demo_dhcp_header = [1, 1, 6, 0] @ replicate 24 0 @ [0x3c, 0x22, 0xfb, 0, 0, 1] @ replicate 202 0"

theorem parse_dhcp_decodes_witness:
  "parse_dhcp (demo_dhcp_header @ [0x63, 0x82, 0x53, 0x63] @ concat (map encode_option [None, Some (12, [112, 105])]) @ 255 # [12]) =
     Some (join '':'' (map hex_byte [0x3c, 0x22, 0xfb, 0, 0, 1]), Some ''pi'')"
proof -
  have h: "length demo_dhcp_header = 236" "demo_dhcp_header ! 0 = 1" "demo_dhcp_header ! 2 = 6"
    "take 6 (drop 28 demo_dhcp_header) = [0x3c, 0x22, 0xfb, 0, 0, 1]"
    by (simp_all add: demo_dhcp_header_def)
  have "list_all option_ok [None, Some (12, [112, 105])]" by simp
  moreover have "fold host_option [None, Some (12, [112, 105])] None = Some ''pi''"
    by (simp add: from_utf8_def str_eval)
  ultimately show ?thesis
    using parse_dhcp_decodes [OF h(1-3), of "[None, Some (12, [112, 105])]" "[12]"] by (simp add: h(4))
qed

end
