(* ===== verification/Dns_Message.thy ===== *)
theory Dns_Message
  imports Net_Addr
begin

text \<open>
  The DNS message types netwatch takes from the \<open>hickory_proto\<close> crate, as far as its code reads
  them: the public fields of a message and the values of the accessors it calls. The functions of
  the crate are not part of the repository; they are the fields of \<open>proto\<close>, an argument of every
  definition that calls them. \<open>proto_ok\<close> collects what the crate documents about the constructors
  and setters, and is a named hypothesis of the properties that depend on it.
\<close>

section \<open>Data\<close>

datatype RecordType = T_A | T_AAAA | T_CNAME | T_PTR | T_MX | T_TXT | T_SRV | T_OPT | T_Other u16

datatype ResponseCode = NoError | FormErr | ServFail | NXDomain | Refused | R_Other u16

datatype MessageType = MT_Query | MT_Response

datatype OpCode = OP_Query | OP_Other u16

type_synonym DNSClass = u16

text \<open>A domain name is represented by its \<open>to_ascii\<close> form.\<close>

type_synonym Name = string

datatype RData =
    RD_A u32
  | RD_AAAA u128
  | RD_CNAME Name
  | RD_PTR Name
  | RD_MX Name
  | RD_TXT
  | RD_SRV
  | RD_Other RecordType

record Record =
  r_name :: Name
  r_ttl :: u32
  r_data :: RData

record Query =
  q_name :: Name
  q_type :: RecordType
  q_class :: DNSClass

record Edns =
  em_max_payload :: u16
  em_version :: u8
  em_dnssec_ok :: bool

record Metadata =
  m_id :: u16
  message_type :: MessageType
  op_code :: OpCode
  authoritative :: bool
  truncation :: bool
  recursion_desired :: bool
  recursion_available :: bool
  checking_disabled :: bool
  response_code :: ResponseCode

record Message =
  metadata :: Metadata
  queries :: "Query list"
  answers :: "Record list"
  authorities :: "Record list"
  additionals :: "Record list"
  edns :: "Edns option"

fun rdata_type :: "RData \<Rightarrow> RecordType" where
  "rdata_type (RD_A _) = T_A"
| "rdata_type (RD_AAAA _) = T_AAAA"
| "rdata_type (RD_CNAME _) = T_CNAME"
| "rdata_type (RD_PTR _) = T_PTR"
| "rdata_type (RD_MX _) = T_MX"
| "rdata_type RD_TXT = T_TXT"
| "rdata_type RD_SRV = T_SRV"
| "rdata_type (RD_Other t) = t"

definition record_type :: "Record \<Rightarrow> RecordType" where
  "record_type r = rdata_type (r_data r)"

section \<open>The functions of the crate\<close>

record proto =
  from_vec :: "u8 list \<Rightarrow> Message option"
  to_vec :: "Message \<Rightarrow> u8 list option"
  msg_response :: "u16 \<Rightarrow> OpCode \<Rightarrow> Message"
  msg_set_edns :: "Edns \<Rightarrow> Message \<Rightarrow> Message"
  msg_max_payload :: "Message \<Rightarrow> u16"
  msg_truncate :: "Message \<Rightarrow> Message"
  edns_new :: "Edns"
  edns_set_max_payload :: "u16 \<Rightarrow> Edns \<Rightarrow> Edns"
  edns_set_version :: "u8 \<Rightarrow> Edns \<Rightarrow> Edns"
  edns_set_dnssec_ok :: "bool \<Rightarrow> Edns \<Rightarrow> Edns"
  from_rdata :: "Name \<Rightarrow> u32 \<Rightarrow> RData \<Rightarrow> Record"
  rtype_str :: "RecordType \<Rightarrow> string"

text \<open>
  The documented behaviour: \<open>Message::response\<close> makes an empty message with the given id and no
  OPT record, a setter changes its own field, and \<open>Record::from_rdata\<close> stores its arguments.
\<close>

definition proto_ok :: "proto \<Rightarrow> bool" where
  "proto_ok P \<longleftrightarrow>
     (\<forall>id op. m_id (metadata (msg_response P id op)) = id
        \<and> message_type (metadata (msg_response P id op)) = MT_Response
        \<and> response_code (metadata (msg_response P id op)) = NoError
        \<and> truncation (metadata (msg_response P id op)) = False
        \<and> answers (msg_response P id op) = [] \<and> authorities (msg_response P id op) = []
        \<and> additionals (msg_response P id op) = [] \<and> edns (msg_response P id op) = None)
     \<and> (\<forall>e m. msg_set_edns P e m = m\<lparr>edns := Some e\<rparr>)
     \<and> (\<forall>n e. em_dnssec_ok (edns_set_max_payload P n e) = em_dnssec_ok e)
     \<and> (\<forall>n e. em_dnssec_ok (edns_set_version P n e) = em_dnssec_ok e)
     \<and> (\<forall>b e. em_dnssec_ok (edns_set_dnssec_ok P b e) = b)
     \<and> (\<forall>n t d. from_rdata P n t d = \<lparr>r_name = n, r_ttl = t, r_data = d\<rparr>)"

end
