(* ===== verification/Devices.thy ===== *)
theory Devices
  imports Alerts Discovery Dns_Message
begin

text \<open>
  The device registry (\<open>src/devices.rs\<close>): its three maps, the operations the resolver and the
  discovery workers call on it, and one turn of each worker (ARP poll, mDNS and DHCP packet, reverse
  DNS round, subnet sweep). The writer and the alert sink are handles shared with the rest of the
  program; they are passed along as a \<open>Hub\<close>. The constructor without a writer exists for the tests
  only. \<open>fp\<close> is the standard library's \<open>DefaultHasher\<close> over the hashed fields, whose algorithm is
  unspecified; the readings of the clocks are arguments.
\<close>

section \<open>State\<close>

definition LAST_SEEN_HEARTBEAT :: duration where
  "LAST_SEEN_HEARTBEAT = from_secs 60"

record Device =
  dev_mac :: string
  dev_ip :: "u32 option"
  dev_hostname :: "string option"
  dev_vendor :: "string option"
  dev_randomized :: bool
  written_fingerprint :: "u64 option"
  last_seen_written :: "instant option"

type_synonym hasher = "u32 option \<Rightarrow> string option \<Rightarrow> string option \<Rightarrow> bool \<Rightarrow> u64"

definition fingerprint :: "hasher \<Rightarrow> Device \<Rightarrow> u64" where
  "fingerprint fp d = fp (dev_ip d) (dev_hostname d) (dev_vendor d) (dev_randomized d)"

definition heartbeat_due :: "instant \<Rightarrow> Device \<Rightarrow> bool" where
  "heartbeat_due now d =
     (case last_seen_written d of None \<Rightarrow> True | Some t \<Rightarrow> LAST_SEEN_HEARTBEAT \<le> duration_since now t)"

definition take_write_slot :: "hasher \<Rightarrow> instant \<Rightarrow> Device \<Rightarrow> Device \<times> bool" where
  "take_write_slot fp now d =
     (let f = fingerprint fp d;
          changed = (written_fingerprint d \<noteq> Some f);
          stale = heartbeat_due now d
      in if changed \<or> stale
         then (d\<lparr>written_fingerprint := Some f, last_seen_written := Some now\<rparr>, True)
         else (d, False))"

record Inner =
  by_mac :: "(string, Device) hmap"
  ip_to_mac :: "(u32, string) hmap"
  pending_names :: "(u32, string) hmap"

datatype ListenerState = LS_Disabled | LS_Active | LS_Unavailable string

record DiscoveryStatus =
  ls_dhcp :: ListenerState
  ls_mdns :: ListenerState

record DeviceStore =
  ds_inner :: "Inner lock"
  ds_oui :: OuiDb

record Hub =
  h_writer :: Writer
  h_alerts :: "AlertSink option"

text \<open>The readings one operation makes: \<open>Instant::now()\<close> under the lock, \<open>db::now()\<close> in \<open>persist\<close>,
  \<open>Instant::now()\<close> in the alert sink.\<close>

record Clock =
  ck_now :: instant
  ck_ts :: int
  ck_alert :: instant

type_synonym registry = "DeviceStore \<times> Hub"

definition device_new :: "string \<Rightarrow> Device" where
  "device_new mac = \<lparr>dev_mac = mac, dev_ip = None, dev_hostname = None, dev_vendor = None,
     dev_randomized = False, written_fingerprint = None, last_seen_written = None\<rparr>"

definition devices_new :: "OuiDb \<Rightarrow> DeviceStore" where
  "devices_new oui = \<lparr>ds_inner = Some \<lparr>by_mac = [], ip_to_mac = [], pending_names = []\<rparr>, ds_oui = oui\<rparr>"

definition with_alerts :: "AlertSink option \<Rightarrow> registry \<Rightarrow> registry" where
  "with_alerts sink r = (fst r, (snd r)\<lparr>h_alerts := sink\<rparr>)"

section \<open>Operations\<close>

definition hydrate_row :: "hasher \<Rightarrow> instant \<Rightarrow> KnownDevice \<Rightarrow> Inner \<times> nat \<Rightarrow> Inner \<times> nat" where
  "hydrate_row fp now row st = (case st of (inner, loaded) \<Rightarrow>
     (case oui_normalize (kd_mac row) of
        None \<Rightarrow> (inner, loaded)
      | Some mac \<Rightarrow>
          let ip = Option.bind (kd_ip row) parse_ipv4;
              dev = \<lparr>dev_mac = mac, dev_ip = ip, dev_hostname = kd_hostname row, dev_vendor = kd_vendor row,
                     dev_randomized = kd_randomized row, written_fingerprint = None, last_seen_written = None\<rparr>;
              dev = dev\<lparr>written_fingerprint := Some (fingerprint fp dev), last_seen_written := Some now\<rparr>;
              inner = (case ip of
                  Some ip \<Rightarrow> inner\<lparr>ip_to_mac := hm_insert ip mac (ip_to_mac inner)\<rparr>
                | None \<Rightarrow> inner)
          in (inner\<lparr>by_mac := hm_insert mac dev (by_mac inner)\<rparr>, Suc loaded)))"

definition hydrate :: "hasher \<Rightarrow> instant \<Rightarrow> KnownDevice list \<Rightarrow> DeviceStore \<Rightarrow> DeviceStore \<times> nat" where
  "hydrate fp now rows st =
     (case ds_inner st of
        None \<Rightarrow> (st, 0)
      | Some inner \<Rightarrow>
          (case fold (hydrate_row fp now) rows (inner, 0) of
             (inner', loaded) \<Rightarrow> (st\<lparr>ds_inner := Some inner'\<rparr>, loaded)))"

definition persist :: "int \<Rightarrow> Device \<Rightarrow> Hub \<Rightarrow> Hub" where
  "persist ts d h = h\<lparr>h_writer := writer_send (W_Device \<lparr>do_mac = dev_mac d,
     do_ip = map_option show_ipv4 (dev_ip d), do_hostname = dev_hostname d, do_vendor = dev_vendor d,
     do_randomized = dev_randomized d, do_ts = ts\<rparr>) (h_writer h)\<rparr>"

definition hub_raise :: "instant \<Rightarrow> Alert \<Rightarrow> Hub \<Rightarrow> Hub" where
  "hub_raise now a h = h\<lparr>h_alerts := map_option (alert_raise now a) (h_alerts h)\<rparr>"

text \<open>The vendor label \<open>observe\<close> and \<open>observe_named\<close> compute.\<close>

definition vendor_label :: "OuiDb \<Rightarrow> string \<Rightarrow> string option" where
  "vendor_label oui mac = (if is_randomized mac then Some ''(randomized MAC)'' else oui_lookup oui mac)"

definition device_entry :: "string \<Rightarrow> Inner \<Rightarrow> Device" where
  "device_entry mac inner = (case hm_get (by_mac inner) mac of Some d \<Rightarrow> d | None \<Rightarrow> device_new mac)"

definition observe :: "hasher \<Rightarrow> Clock \<Rightarrow> u32 \<Rightarrow> string \<Rightarrow> registry \<Rightarrow> registry" where
  "observe fp ck ip raw r = (case r of (st, hub) \<Rightarrow>
     (case oui_normalize raw of
        None \<Rightarrow> r
      | Some mac \<Rightarrow>
          (case ds_inner st of
             None \<Rightarrow> r
           | Some inner \<Rightarrow>
               let pending = hm_get (pending_names inner) ip;
                   is_new = (hm_get (by_mac inner) mac = None);
                   entry = device_entry mac inner;
                   entry = entry\<lparr>dev_ip := Some ip, dev_randomized := is_randomized mac\<rparr>;
                   entry = (if dev_vendor entry = None then entry\<lparr>dev_vendor := vendor_label (ds_oui st) mac\<rparr> else entry);
                   entry = (case pending of Some name \<Rightarrow> entry\<lparr>dev_hostname := Some name\<rparr> | None \<Rightarrow> entry);
                   (entry', write) = take_write_slot fp (ck_now ck) entry;
                   inner = inner\<lparr>pending_names := hm_remove ip (pending_names inner),
                                 ip_to_mac := hm_insert ip mac (ip_to_mac inner),
                                 by_mac := hm_insert mac entry' (by_mac inner)\<rparr>;
                   hub = (if write then persist (ck_ts ck) entry hub else hub);
                   hub = (if is_new
                          then hub_raise (ck_alert ck) (alert_new_device mac (dev_hostname entry) (dev_vendor entry)) hub
                          else hub)
               in (st\<lparr>ds_inner := Some inner\<rparr>, hub))))"

definition observe_named :: "hasher \<Rightarrow> Clock \<Rightarrow> string \<Rightarrow> string \<Rightarrow> registry \<Rightarrow> registry" where
  "observe_named fp ck raw hostname r = (case r of (st, hub) \<Rightarrow>
     (case oui_normalize raw of
        None \<Rightarrow> r
      | Some mac \<Rightarrow>
          (case sanitize_hostname hostname of
             None \<Rightarrow> r
           | Some name \<Rightarrow>
               (case ds_inner st of
                  None \<Rightarrow> r
                | Some inner \<Rightarrow>
                    let entry = device_entry mac inner;
                        entry = entry\<lparr>dev_hostname := Some name, dev_randomized := is_randomized mac\<rparr>;
                        entry = (if dev_vendor entry = None then entry\<lparr>dev_vendor := vendor_label (ds_oui st) mac\<rparr> else entry);
                        (entry', write) = take_write_slot fp (ck_now ck) entry
                    in (st\<lparr>ds_inner := Some (inner\<lparr>by_mac := hm_insert mac entry' (by_mac inner)\<rparr>)\<rparr>,
                        if write then persist (ck_ts ck) entry' hub else hub)))))"

definition observe_name_for_ip :: "hasher \<Rightarrow> Clock \<Rightarrow> u32 \<Rightarrow> string \<Rightarrow> registry \<Rightarrow> registry" where
  "observe_name_for_ip fp ck ip hostname r = (case r of (st, hub) \<Rightarrow>
     (case sanitize_hostname hostname of
        None \<Rightarrow> r
      | Some name \<Rightarrow>
          (case ds_inner st of
             None \<Rightarrow> r
           | Some inner \<Rightarrow>
               (case hm_get (ip_to_mac inner) ip of
                  Some mac \<Rightarrow>
                    let entry = (case hm_get (by_mac inner) mac of
                            Some d \<Rightarrow> d
                          | None \<Rightarrow> (device_new mac)\<lparr>dev_ip := Some ip\<rparr>);
                        entry = (if dev_hostname entry = None then entry\<lparr>dev_hostname := Some name\<rparr> else entry);
                        (entry', write) = take_write_slot fp (ck_now ck) entry
                    in (st\<lparr>ds_inner := Some (inner\<lparr>by_mac := hm_insert mac entry' (by_mac inner)\<rparr>)\<rparr>,
                        if write then persist (ck_ts ck) entry' hub else hub)
                | None \<Rightarrow>
                    (st\<lparr>ds_inner := Some (inner\<lparr>pending_names := hm_insert ip name (pending_names inner)\<rparr>)\<rparr>, hub)))))"

text \<open>
  \<open>touch_ip\<close> checks under the read lock and, when a heartbeat is due, again under the write lock.
  The second part is a function of its own because another operation can come in between.
\<close>

definition touch_due :: "instant \<Rightarrow> u32 \<Rightarrow> Inner \<Rightarrow> bool" where
  "touch_due now v4 inner =
     (case Option.bind (hm_get (ip_to_mac inner) v4) (hm_get (by_mac inner)) of
        Some d \<Rightarrow> heartbeat_due now d
      | None \<Rightarrow> False)"

definition touch_mac :: "string \<Rightarrow> instant \<Rightarrow> Inner \<Rightarrow> Inner \<times> Device option" where
  "touch_mac mac now inner =
     (case hm_get (by_mac inner) mac of
        Some d \<Rightarrow>
          if heartbeat_due now d
          then let d = d\<lparr>last_seen_written := Some now\<rparr>
               in (inner\<lparr>by_mac := hm_insert mac d (by_mac inner)\<rparr>, Some d)
          else (inner, None)
      | None \<Rightarrow> (inner, None))"

definition touch_write :: "Clock \<Rightarrow> u32 \<Rightarrow> registry \<Rightarrow> registry" where
  "touch_write ck v4 r = (case r of (st, hub) \<Rightarrow>
     (case ds_inner st of
        None \<Rightarrow> r
      | Some inner \<Rightarrow>
          (case hm_get (ip_to_mac inner) v4 of
             None \<Rightarrow> r
           | Some mac \<Rightarrow>
               (case touch_mac mac (ck_now ck) inner of
                  (inner', dev) \<Rightarrow>
                    (st\<lparr>ds_inner := Some inner'\<rparr>,
                     case dev of Some d \<Rightarrow> persist (ck_ts ck) d hub | None \<Rightarrow> hub)))))"

fun touch_ip :: "Clock \<Rightarrow> IpAddr \<Rightarrow> registry \<Rightarrow> registry" where
  "touch_ip ck (IpV6 _) r = r"
| "touch_ip ck (IpV4 v4) r =
     (case ds_inner (fst r) of
        None \<Rightarrow> r
      | Some inner \<Rightarrow> if \<not> touch_due (ck_now ck) v4 inner then r else touch_write ck v4 r)"

definition ips_needing_names :: "((u32 \<times> string) list \<Rightarrow> (u32 \<times> string) list) \<Rightarrow> DeviceStore \<Rightarrow> u32 list" where
  "ips_needing_names iter st =
     (case ds_inner st of
        None \<Rightarrow> []
      | Some inner \<Rightarrow>
          map fst (filter (\<lambda>(ip, mac). hm_get (pending_names inner) ip = None \<and>
              (case hm_get (by_mac inner) mac of None \<Rightarrow> True | Some d \<Rightarrow> dev_hostname d = None))
            (iter (ip_to_mac inner))))"

definition learn_record :: "hasher \<Rightarrow> Clock \<Rightarrow> Record \<Rightarrow> registry \<Rightarrow> registry" where
  "learn_record fp ck rec r =
     (case r_data rec of
        RD_A a \<Rightarrow>
          (case strip_suffix ''.local'' (trim_end_matches CHR ''.'' (r_name rec)) of
             Some stripped \<Rightarrow> observe_name_for_ip fp ck a stripped r
           | None \<Rightarrow> r)
      | RD_PTR ptr \<Rightarrow>
          (case ptr_name_to_ip (r_name rec) of
             Some ip \<Rightarrow> observe_name_for_ip fp ck ip (strip_local (trim_end_matches CHR ''.'' ptr)) r
           | None \<Rightarrow> r)
      | _ \<Rightarrow> r)"

definition learn_from_dns :: "hasher \<Rightarrow> (nat \<Rightarrow> Clock) \<Rightarrow> Message \<Rightarrow> registry \<Rightarrow> registry" where
  "learn_from_dns fp ck msg r = fold (\<lambda>(i, rec). learn_record fp (ck i) rec) (enumerate 0 (answers msg)) r"

section \<open>Workers\<close>

text \<open>One turn of the ARP poller; \<open>table\<close> is what reading the neighbour table gave.\<close>

definition arp_poll ::
    "hasher \<Rightarrow> (nat \<Rightarrow> Clock) \<Rightarrow> Subnet option \<Rightarrow> string option \<Rightarrow> ArpEntry list option \<Rightarrow> registry \<Rightarrow> registry" where
  "arp_poll fp ck subnet iface table r =
     (case table of
        None \<Rightarrow> r
      | Some entries \<Rightarrow>
          fold (\<lambda>(i, e) r.
              if (case iface of Some want \<Rightarrow> arp_iface e \<noteq> want | None \<Rightarrow> False) then r
              else if (case subnet of Some s \<Rightarrow> \<not> subnet_contains s (arp_ip e) | None \<Rightarrow> False) then r
              else observe fp (ck i) (arp_ip e) (arp_mac e) r)
            (enumerate 0 entries) r)"

text \<open>The datagrams of one sweep: a zero byte to the discard port of every host.\<close>

definition sweep_datagrams :: "Subnet \<Rightarrow> (SocketAddr \<times> u8 list) list" where
  "sweep_datagrams subnet = map (\<lambda>ip. (\<lparr>sa_ip = IpV4 ip, sa_port = 9\<rparr>, [0])) (hosts subnet)"

text \<open>One datagram of the mDNS group. The receive buffer holds 4096 bytes.\<close>

definition mdns_packet :: "proto \<Rightarrow> hasher \<Rightarrow> (nat \<Rightarrow> Clock) \<Rightarrow> IpAddr \<Rightarrow> u8 list \<Rightarrow> registry \<Rightarrow> registry" where
  "mdns_packet P fp ck peer datagram r =
     (case peer of
        IpV6 _ \<Rightarrow> r
      | IpV4 src \<Rightarrow>
          (case from_vec P (take 4096 datagram) of
             None \<Rightarrow> r
           | Some msg \<Rightarrow>
               (let own = filter (\<lambda>(_, rec). r_data rec = RD_A src) (enumerate 0 (answers msg)) in
                if own \<noteq> []
                then fold (\<lambda>(i, rec). observe_name_for_ip fp (ck i) src
                         (strip_local (trim_end_matches CHR ''.'' (r_name rec)))) own r
                else case find (\<lambda>rec. r_data rec = RD_SRV) (answers msg) of
                  None \<Rightarrow> r
                | Some rec \<Rightarrow> observe_name_for_ip fp (ck 0) src (hd (split_on CHR ''.'' (r_name rec))) r)))"

text \<open>One datagram of the DHCP listener. The receive buffer holds 2048 bytes.\<close>

definition dhcp_packet :: "hasher \<Rightarrow> Clock \<Rightarrow> u8 list \<Rightarrow> registry \<Rightarrow> registry" where
  "dhcp_packet fp ck datagram r =
     (case parse_dhcp (take 2048 datagram) of
        Some (mac, Some name) \<Rightarrow> observe_named fp ck mac name r
      | _ \<Rightarrow> r)"

text \<open>The crate's constructors the query is built with.\<close>

record rdns_proto =
  name_from_ascii :: "string \<Rightarrow> Name option"
  message_query :: Message
  query_new :: Query

text \<open>\<open>exchange\<close>: bind, connect, send and receive within 1200 ms; the buffer holds 1500 bytes.\<close>

definition reverse_lookup :: "proto \<Rightarrow> rdns_proto \<Rightarrow> (u8 list \<Rightarrow> u8 list option) \<Rightarrow> u32 \<Rightarrow> string option" where
  "reverse_lookup P Q exchange ip =
     (case name_from_ascii Q (arpa_name ip) of
        None \<Rightarrow> None
      | Some name \<Rightarrow>
          let msg = message_query Q;
              msg = msg\<lparr>metadata := (metadata msg)\<lparr>recursion_desired := True\<rparr>\<rparr>;
              q = (query_new Q)\<lparr>q_name := name, q_type := T_PTR\<rparr>;
              msg = msg\<lparr>queries := queries msg @ [q]\<rparr>
          in (case to_vec P msg of
                None \<Rightarrow> None
              | Some request \<Rightarrow>
                  (case exchange request of
                     None \<Rightarrow> None
                   | Some reply \<Rightarrow>
                       (case from_vec P (take 1500 reply) of
                          None \<Rightarrow> None
                        | Some resp \<Rightarrow>
                            (case [ptr. RD_PTR ptr \<leftarrow> map r_data (answers resp)] of
                               [] \<Rightarrow> None
                             | ptr # _ \<Rightarrow>
                                 Some (hd (split_on CHR ''.'' (strip_local (trim_end_matches CHR ''.'' ptr)))))))))"

definition rdns_target :: "SocketAddr \<Rightarrow> u32 option \<Rightarrow> SocketAddr" where
  "rdns_target upstream gateway =
     (case gateway of Some gw \<Rightarrow> \<lparr>sa_ip = IpV4 gw, sa_port = 53\<rparr> | None \<Rightarrow> upstream)"

definition MAX_ATTEMPTS :: u8 where
  "MAX_ATTEMPTS = 3"

type_synonym attempts = "(u32, u8) hmap"

text \<open>One address of a reverse-DNS round; \<open>answer\<close> is what \<open>reverse_lookup\<close> returns for it. The last
  component lists the addresses that were asked about.\<close>

definition rdns_ip ::
    "hasher \<Rightarrow> Clock \<Rightarrow> string option \<Rightarrow> u32 \<Rightarrow> attempts \<times> registry \<times> u32 list \<Rightarrow> attempts \<times> registry \<times> u32 list" where
  "rdns_ip fp ck answer ip s = (case s of (attempts, r, asked) \<Rightarrow>
     let tries = (case hm_get attempts ip of Some n \<Rightarrow> n | None \<Rightarrow> 0);
         attempts = hm_or_insert ip 0 attempts
     in if MAX_ATTEMPTS \<le> tries then (attempts, r, asked)
        else
          let attempts = hm_insert ip (tries + 1) attempts
          in (case answer of
                Some name \<Rightarrow> (hm_remove ip attempts, observe_name_for_ip fp ck ip name r, asked @ [ip])
              | None \<Rightarrow> (attempts, r, asked @ [ip])))"

text \<open>A round: the addresses are listed once, then asked about one after the other.\<close>

definition rdns_round ::
    "hasher \<Rightarrow> (nat \<Rightarrow> Clock) \<Rightarrow> ((u32 \<times> string) list \<Rightarrow> (u32 \<times> string) list) \<Rightarrow> (nat \<Rightarrow> u32 \<Rightarrow> string option) \<Rightarrow>
     attempts \<times> registry \<times> u32 list \<Rightarrow> attempts \<times> registry \<times> u32 list" where
  "rdns_round fp ck iter lookup s =
     fold (\<lambda>(i, ip). rdns_ip fp (ck i) (lookup i ip) ip)
       (enumerate 0 (ips_needing_names iter (fst (fst (snd s))))) s"

section \<open>The registry invariant\<close>

fun name_ok :: "string option \<Rightarrow> bool" where
  "name_ok None = True"
| "name_ok (Some s) = safe_name s"

fun op_safe :: "WriteOp \<Rightarrow> bool" where
  "op_safe (W_Device d) = (is_mac (do_mac d) \<and> name_ok (do_hostname d))"
| "op_safe _ = True"

definition device_ok :: "string \<Rightarrow> Device \<Rightarrow> bool" where
  "device_ok mac d \<longleftrightarrow> is_mac mac \<and> dev_mac d = mac \<and> name_ok (dev_hostname d)"

definition inner_wf :: "Inner \<Rightarrow> bool" where
  "inner_wf i \<longleftrightarrow> hm_ok (by_mac i) \<and> hm_ok (ip_to_mac i) \<and> hm_ok (pending_names i)
     \<and> (\<forall>mac d. hm_get (by_mac i) mac = Some d \<longrightarrow> device_ok mac d)
     \<and> (\<forall>ip mac. hm_get (ip_to_mac i) ip = Some mac \<longrightarrow> hm_get (by_mac i) mac \<noteq> None)
     \<and> (\<forall>ip n. hm_get (pending_names i) ip = Some n \<longrightarrow> safe_name n)"

definition hub_wf :: "Hub \<Rightarrow> bool" where
  "hub_wf h \<longleftrightarrow> list_all op_safe (w_queue (h_writer h))"

definition registry_wf :: "registry \<Rightarrow> bool" where
  "registry_wf r \<longleftrightarrow> (\<forall>i. ds_inner (fst r) = Some i \<longrightarrow> inner_wf i) \<and> hub_wf (snd r)"

lemma slot_fields [simp]:
  "dev_mac (fst (take_write_slot fp now d)) = dev_mac d" "dev_ip (fst (take_write_slot fp now d)) = dev_ip d"
  "dev_hostname (fst (take_write_slot fp now d)) = dev_hostname d"
  "dev_vendor (fst (take_write_slot fp now d)) = dev_vendor d"
  "dev_randomized (fst (take_write_slot fp now d)) = dev_randomized d"
  by (simp_all add: take_write_slot_def Let_def)

lemma writer_send_safe: "op_safe op \<Longrightarrow> list_all op_safe (w_queue w) \<Longrightarrow> list_all op_safe (w_queue (writer_send op w))"
  by (simp add: writer_send_def)

lemma persist_wf [wf_intros]: "hub_wf h \<Longrightarrow> device_ok mac d \<Longrightarrow> hub_wf (persist ts d h)"
  by (simp add: hub_wf_def persist_def device_ok_def writer_send_safe)

lemma hub_raise_wf [wf_intros]: "hub_wf h \<Longrightarrow> hub_wf (hub_raise now a h)"
  by (simp add: hub_wf_def hub_raise_def)

lemma put_device_wf [wf_intros]:
  "inner_wf i \<Longrightarrow> device_ok mac d \<Longrightarrow> inner_wf (i\<lparr>by_mac := hm_insert mac d (by_mac i)\<rparr>)"
  by (auto simp: inner_wf_def hm_simps wf_intros)

lemma put_name_wf [wf_intros]:
  "inner_wf i \<Longrightarrow> safe_name n \<Longrightarrow> inner_wf (i\<lparr>pending_names := hm_insert ip n (pending_names i)\<rparr>)"
  by (auto simp: inner_wf_def hm_simps wf_intros)

lemma claim_ip_wf:
  "inner_wf i \<Longrightarrow> device_ok mac d \<Longrightarrow> inner_wf (i\<lparr>pending_names := hm_remove ip (pending_names i),
     ip_to_mac := hm_insert ip mac (ip_to_mac i), by_mac := hm_insert mac d (by_mac i)\<rparr>)"
  by (auto simp: inner_wf_def hm_simps wf_intros)

lemma entry_ok: "inner_wf i \<Longrightarrow> is_mac mac \<Longrightarrow> device_ok mac (device_entry mac i)"
  by (auto simp: device_entry_def inner_wf_def device_ok_def device_new_def split: option.splits)

lemma slot_ok: "device_ok mac (fst (take_write_slot fp now d)) = device_ok mac d"
  by (simp add: device_ok_def)

lemma index_entry:
  "inner_wf i \<Longrightarrow> hm_get (ip_to_mac i) ip = Some mac \<Longrightarrow> \<exists>d. hm_get (by_mac i) mac = Some d \<and> device_ok mac d"
  by (auto simp: inner_wf_def) blast

text \<open>The entry \<open>observe\<close> and \<open>observe_named\<close> make for a device, before the write decision.\<close>

definition sighted :: "OuiDb \<Rightarrow> u32 \<Rightarrow> string \<Rightarrow> Inner \<Rightarrow> Device" where
  "sighted oui ip mac i =
     (let e = device_entry mac i in
      e\<lparr>dev_ip := Some ip, dev_randomized := is_randomized mac,
        dev_vendor := (if dev_vendor e = None then vendor_label oui mac else dev_vendor e),
        dev_hostname := (case hm_get (pending_names i) ip of Some n \<Rightarrow> Some n | None \<Rightarrow> dev_hostname e)\<rparr>)"

definition named :: "OuiDb \<Rightarrow> string \<Rightarrow> string \<Rightarrow> Inner \<Rightarrow> Device" where
  "named oui mac n i =
     (let e = device_entry mac i in
      e\<lparr>dev_hostname := Some n, dev_randomized := is_randomized mac,
        dev_vendor := (if dev_vendor e = None then vendor_label oui mac else dev_vendor e)\<rparr>)"

lemma observe_eq:
  assumes "oui_normalize raw = Some mac" "ds_inner st = Some i"
  shows "observe fp ck ip raw (st, hub) =
    (let e = sighted (ds_oui st) ip mac i; s = take_write_slot fp (ck_now ck) e;
         h = (if snd s then persist (ck_ts ck) e hub else hub)
     in (st\<lparr>ds_inner := Some (i\<lparr>pending_names := hm_remove ip (pending_names i),
           ip_to_mac := hm_insert ip mac (ip_to_mac i), by_mac := hm_insert mac (fst s) (by_mac i)\<rparr>)\<rparr>,
         if hm_get (by_mac i) mac = None
         then hub_raise (ck_alert ck) (alert_new_device mac (dev_hostname e) (dev_vendor e)) h else h))"
  by (cases "device_entry mac i"; cases "hm_get (pending_names i) ip"; cases "dev_vendor (device_entry mac i)")
     (simp_all add: observe_def assms sighted_def Let_def case_prod_beta)

lemma observe_named_eq:
  assumes "oui_normalize raw = Some mac" "sanitize_hostname host = Some n" "ds_inner st = Some i"
  shows "observe_named fp ck raw host (st, hub) =
    (let s = take_write_slot fp (ck_now ck) (named (ds_oui st) mac n i)
     in (st\<lparr>ds_inner := Some (i\<lparr>by_mac := hm_insert mac (fst s) (by_mac i)\<rparr>)\<rparr>,
         if snd s then persist (ck_ts ck) (fst s) hub else hub))"
  by (cases "device_entry mac i"; cases "dev_vendor (device_entry mac i)")
     (simp_all add: observe_named_def assms named_def Let_def case_prod_beta)

lemma sighted_ok: "inner_wf i \<Longrightarrow> is_mac mac \<Longrightarrow> device_ok mac (sighted oui ip mac i)"
  using entry_ok [of i mac]
  by (auto simp: sighted_def Let_def device_ok_def inner_wf_def split: option.splits)

lemma named_ok: "inner_wf i \<Longrightarrow> is_mac mac \<Longrightarrow> safe_name n \<Longrightarrow> device_ok mac (named oui mac n i)"
  using entry_ok [of i mac] by (auto simp: named_def Let_def device_ok_def)

lemma registry_wfI: "inner_wf i \<Longrightarrow> hub_wf h \<Longrightarrow> registry_wf (st\<lparr>ds_inner := Some i\<rparr>, h)"
  by (simp add: registry_wf_def)

lemma observe_wf:
  assumes "registry_wf r"
  shows "registry_wf (observe fp ck ip raw r)"
proof (cases "oui_normalize raw = None \<or> ds_inner (fst r) = None")
  case True
  then show ?thesis using assms by (cases r) (auto simp: observe_def split: option.splits)
next
  case False
  then obtain mac i where m: "oui_normalize raw = Some mac" "ds_inner (fst r) = Some i" by auto
  have wf: "inner_wf i" "hub_wf (snd r)" using assms m by (auto simp: registry_wf_def)
  have e: "device_ok mac (sighted (ds_oui (fst r)) ip mac i)"
    using sighted_ok [OF wf(1) normalize_is_mac [OF m(1)]] .
  show ?thesis
    using observe_eq [OF m, of fp ck ip "snd r"] claim_ip_wf [OF wf(1)] e wf(2)
    by (auto simp: Let_def slot_ok intro!: registry_wfI hub_raise_wf persist_wf)
qed

lemma observe_named_wf:
  assumes "registry_wf r"
  shows "registry_wf (observe_named fp ck raw host r)"
proof (cases "oui_normalize raw = None \<or> sanitize_hostname host = None \<or> ds_inner (fst r) = None")
  case True
  then show ?thesis using assms by (cases r) (auto simp: observe_named_def split: option.splits)
next
  case False
  then obtain mac n i where m: "oui_normalize raw = Some mac" "sanitize_hostname host = Some n" "ds_inner (fst r) = Some i"
    by auto
  have wf: "inner_wf i" "hub_wf (snd r)" using assms m by (auto simp: registry_wf_def)
  have e: "device_ok mac (named (ds_oui (fst r)) mac n i)"
    using named_ok [OF wf(1) normalize_is_mac [OF m(1)] sanitize_safe [OF m(2)]] .
  show ?thesis
    using observe_named_eq [OF m, of fp ck "snd r"] put_device_wf [OF wf(1)] e wf(2)
    by (auto simp: Let_def slot_ok intro!: registry_wfI persist_wf)
qed

lemma observe_name_for_ip_wf:
  assumes "registry_wf r"
  shows "registry_wf (observe_name_for_ip fp ck ip host r)"
proof (cases "sanitize_hostname host = None \<or> ds_inner (fst r) = None")
  case True
  then show ?thesis using assms by (cases r) (auto simp: observe_name_for_ip_def split: option.splits)
next
  case False
  then obtain n i where m: "sanitize_hostname host = Some n" "ds_inner (fst r) = Some i" by auto
  have wf: "inner_wf i" "hub_wf (snd r)" using assms m by (auto simp: registry_wf_def)
  note n = sanitize_safe [OF m(1)]
  show ?thesis
  proof (cases "hm_get (ip_to_mac i) ip")
    case None
    then show ?thesis
      using m wf n by (cases r) (auto simp: observe_name_for_ip_def intro!: registry_wfI put_name_wf)
  next
    case (Some mac)
    then obtain d where d: "hm_get (by_mac i) mac = Some d" "device_ok mac d"
      using index_entry [OF wf(1)] by blast
    let ?e = "if dev_hostname d = None then d\<lparr>dev_hostname := Some n\<rparr> else d"
    have "device_ok mac ?e" using d(2) n by (simp add: device_ok_def)
    then show ?thesis
      using m wf Some d(1) put_device_wf [OF wf(1)]
      by (cases r) (auto simp: observe_name_for_ip_def Let_def case_prod_beta slot_ok intro!: registry_wfI persist_wf)
  qed
qed

lemma touch_mac_wf:
  assumes "inner_wf i" "touch_mac mac now i = (i', d)"
  shows "inner_wf i'" "d = Some e \<Longrightarrow> device_ok mac e"
proof -
  have ok: "hm_get (by_mac i) mac = Some x \<Longrightarrow> device_ok mac (x\<lparr>last_seen_written := t\<rparr>)" for x t
    using assms(1) by (auto simp: inner_wf_def device_ok_def)
  show "inner_wf i'" "d = Some e \<Longrightarrow> device_ok mac e"
    using assms put_device_wf [OF assms(1)] ok
    by (auto simp: touch_mac_def Let_def split: option.splits if_splits)
qed

lemma touch_write_wf:
  assumes "registry_wf r"
  shows "registry_wf (touch_write ck v4 r)"
proof (cases "Option.bind (ds_inner (fst r)) (\<lambda>i. hm_get (ip_to_mac i) v4)")
  case None
  then show ?thesis using assms by (cases r) (auto simp: touch_write_def split: option.splits)
next
  case (Some mac)
  then obtain i where i: "ds_inner (fst r) = Some i" "hm_get (ip_to_mac i) v4 = Some mac" by (auto simp: bind_eq_Some_conv)
  obtain i' d where t: "touch_mac mac (ck_now ck) i = (i', d)" by fastforce
  have wf: "inner_wf i" "hub_wf (snd r)" using assms i by (auto simp: registry_wf_def)
  show ?thesis
    using i t touch_mac_wf [OF wf(1) t] wf(2)
    by (cases r) (auto simp: touch_write_def intro!: registry_wfI split: option.splits intro: persist_wf)
qed

lemmas registry_wfs = observe_wf observe_named_wf observe_name_for_ip_wf touch_write_wf

text \<open>A law of the registry that every single observation keeps is kept by all the sources of
  observations: DNS answers, the ARP table, mDNS and DHCP datagrams, reverse DNS.\<close>

locale registry_law =
  fixes J :: "registry \<Rightarrow> bool"
  assumes keeps_observe: "J r \<Longrightarrow> J (observe fp ck ip raw r)"
    and keeps_observe_named: "J r \<Longrightarrow> J (observe_named fp ck raw host r)"
    and keeps_observe_name_for_ip: "J r \<Longrightarrow> J (observe_name_for_ip fp ck ip host r)"
    and keeps_touch_write: "J r \<Longrightarrow> J (touch_write ck v4 r)"
begin

lemma keeps_fold: "(\<And>x r. J r \<Longrightarrow> J (f x r)) \<Longrightarrow> J r \<Longrightarrow> J (fold f xs r)"
  by (induction xs arbitrary: r) auto

lemmas keeps_basic = keeps_observe keeps_observe_named keeps_observe_name_for_ip keeps_touch_write

lemma keeps_touch_ip: "J r \<Longrightarrow> J (touch_ip ck ip r)"
  by (cases ip) (auto simp: keeps_touch_write split: option.splits)

lemma keeps_learn_from_dns: "J r \<Longrightarrow> J (learn_from_dns fp ck msg r)"
  unfolding learn_from_dns_def
  by (rule keeps_fold) (auto simp: learn_record_def keeps_basic split: RData.splits option.splits)

lemma keeps_arp_poll: "J r \<Longrightarrow> J (arp_poll fp ck subnet iface table r)"
  unfolding arp_poll_def by (cases table) (auto intro!: keeps_fold keeps_basic)

lemma keeps_mdns_packet: "J r \<Longrightarrow> J (mdns_packet P fp ck peer datagram r)"
  unfolding mdns_packet_def Let_def
  by (auto intro!: keeps_fold keeps_basic split: IpAddr.splits option.splits)

lemma keeps_dhcp_packet: "J r \<Longrightarrow> J (dhcp_packet fp ck datagram r)"
  unfolding dhcp_packet_def by (auto intro!: keeps_basic split: option.splits)

lemma keeps_rdns_ip: "J (fst (snd s)) \<Longrightarrow> J (fst (snd (rdns_ip fp c a ip s)))"
  by (auto simp: rdns_ip_def Let_def keeps_basic split: prod.splits option.splits)

lemma keeps_rdns_round: "J (fst (snd s)) \<Longrightarrow> J (fst (snd (rdns_round fp ck iter ask s)))"
proof -
  have "J (fst (snd s)) \<Longrightarrow>
      J (fst (snd (fold (\<lambda>(i, ip). rdns_ip fp (ck i) (ask i ip) ip) xs s)))" for xs s
    by (induction xs arbitrary: s) (auto simp: keeps_rdns_ip split: prod.splits)
  then show "J (fst (snd s)) \<Longrightarrow> ?thesis" by (simp add: rdns_round_def)
qed

end

interpretation reg_wf: registry_law registry_wf
  by unfold_locales (fact registry_wfs)+

text \<open>The queues behind the registry stay within their depths.\<close>

definition hub_bounded :: "Hub \<Rightarrow> bool" where
  "hub_bounded h \<longleftrightarrow> length (w_queue (h_writer h)) \<le> WRITER_DEPTH \<and>
     (\<forall>s. h_alerts h = Some s \<longrightarrow> length (as_queue s) \<le> ALERT_QUEUE_DEPTH)"

lemma bounded_send: "hub_bounded h \<Longrightarrow> hub_bounded (h\<lparr>h_writer := writer_send op (h_writer h)\<rparr>)"
  by (auto simp: hub_bounded_def writer_send_def)

lemma alert_queue_bounded:
  "length (as_queue s) \<le> ALERT_QUEUE_DEPTH \<Longrightarrow> length (as_queue (alert_raise t a s)) \<le> ALERT_QUEUE_DEPTH"
  by (auto simp: alert_raise_def take_cooldown_slot_def alert_try_send_def split: option.splits prod.splits)

lemma bounded_persist: "hub_bounded h \<Longrightarrow> hub_bounded (persist ts d h)"
  unfolding persist_def by (rule bounded_send)

lemma bounded_raise: "hub_bounded h \<Longrightarrow> hub_bounded (hub_raise t a h)"
  by (auto simp: hub_bounded_def hub_raise_def alert_queue_bounded)

interpretation reg_bounded: registry_law "\<lambda>r. hub_bounded (snd r)"
proof
  fix r :: registry and fp ck ip raw host v4
  obtain st hub where [simp]: "r = (st, hub)" by fastforce
  assume "hub_bounded (snd r)"
  then have [simp]: "hub_bounded hub" "hub_bounded (persist t d hub)" for t d by (simp_all add: bounded_persist)
  show "hub_bounded (snd (observe fp ck ip raw r))"
    by (auto simp: observe_def Let_def bounded_persist bounded_raise split: option.splits prod.splits)
  show "hub_bounded (snd (observe_named fp ck raw host r))" "hub_bounded (snd (observe_name_for_ip fp ck ip host r))"
    by (auto simp: observe_named_def observe_name_for_ip_def Let_def bounded_persist split: option.splits prod.splits)
  show "hub_bounded (snd (touch_write ck v4 r))"
    by (auto simp: touch_write_def bounded_persist split: option.splits prod.splits)
qed

section \<open>The registry and the database over the life of the program\<close>

definition hub_new :: Hub where
  "hub_new = \<lparr>h_writer = writer_new, h_alerts = None\<rparr>"

text \<open>
  The registry together with the database, driven by every source of device information, the writer
  thread, and restarts that hydrate a fresh registry from the database. \<open>run_shared\<close> is what the
  other components do to the shared writer and alert sink: queue operations that are not about
  devices, and raise or drain alerts.
\<close>

inductive device_run :: "hasher \<Rightarrow> registry \<times> Database \<Rightarrow> bool" for fp where
  run_boot: "device_run fp ((devices_new oui, hub_new), db_empty)"
| run_restart: "device_run fp (r, db) \<Longrightarrow>
    device_run fp ((fst (hydrate fp now (known_devices db) (devices_new oui)), hub_new), db)"
| run_sink: "device_run fp (r, db) \<Longrightarrow> device_run fp (with_alerts sink r, db)"
| run_arp: "device_run fp (r, db) \<Longrightarrow> device_run fp (arp_poll fp ck subnet iface table r, db)"
| run_mdns: "device_run fp (r, db) \<Longrightarrow> device_run fp (mdns_packet P fp ck peer datagram r, db)"
| run_dhcp: "device_run fp (r, db) \<Longrightarrow> device_run fp (dhcp_packet fp c datagram r, db)"
| run_learn: "device_run fp (r, db) \<Longrightarrow> device_run fp (learn_from_dns fp ck msg r, db)"
| run_rdns: "device_run fp (r, db) \<Longrightarrow> device_run fp (observe_name_for_ip fp c ip host r, db)"
| run_touch: "device_run fp (r, db) \<Longrightarrow> device_run fp (touch_ip c addr r, db)"
| run_touch_late: "device_run fp (r, db) \<Longrightarrow> device_run fp (touch_write c v4 r, db)"
| run_shared: "device_run fp ((st, hub), db) \<Longrightarrow> \<forall>d. op \<noteq> W_Device d \<Longrightarrow>
    device_run fp ((st, hub\<lparr>h_writer := writer_send op (h_writer hub), h_alerts := sink\<rparr>), db)"
| run_writer: "device_run fp ((st, hub), db) \<Longrightarrow> writer_cycle n ok k now ts days (h_writer hub, db, lp) = (w, db', lp') \<Longrightarrow>
    device_run fp ((st, hub\<lparr>h_writer := w\<rparr>), db')"

definition row_safe :: "DeviceRec \<Rightarrow> bool" where
  "row_safe d \<longleftrightarrow> is_mac (dv_mac d) \<and> name_ok (dv_hostname d)"

definition db_safe :: "Database \<Rightarrow> bool" where
  "db_safe db \<longleftrightarrow> list_all row_safe (t_devices db)"

lemma apply_op_safe: "op_safe op \<Longrightarrow> db_safe db \<Longrightarrow> db_safe (apply_op op db)"
proof (cases op)
  case (W_Device d)
  assume "op_safe op" "db_safe db"
  moreover have "list_all row_safe (release_ip ip m ds) = list_all row_safe ds" for ip m ds
    by (induction ds) (simp_all add: release_ip_def row_safe_def)
  moreover have "list_all row_safe ds \<Longrightarrow> list_all row_safe (upsert_device d ds)" for ds
    using \<open>op_safe op\<close> by (auto simp: W_Device upsert_device_def list_all_iff row_safe_def coalesce_def split: option.splits)
  ultimately show ?thesis by (auto simp: db_safe_def W_Device Let_def split: option.splits)
qed (auto simp: db_safe_def)

lemma fold_ops_safe: "list_all op_safe ops \<Longrightarrow> db_safe db \<Longrightarrow> db_safe (fold apply_op ops db)"
  by (induction ops arbitrary: db) (auto simp: apply_op_safe)

lemma prune_safe: "db_safe (prune k days t1 t2 t3 db) = db_safe db"
  by (simp add: db_safe_def)

lemma writer_cycle_safe:
  assumes "list_all op_safe (w_queue w)" "db_safe db" "writer_cycle n ok k now ts days (w, db, lp) = (w', db', lp')"
  shows "list_all op_safe (w_queue w') \<and> db_safe db'"
proof -
  have "list_all op_safe (take m (w_queue w))" "list_all op_safe (drop m (w_queue w))" for m
    using assms(1) by (auto simp: list_all_iff dest: in_set_takeD in_set_dropD)
  then show ?thesis
    using assms by (auto simp: writer_cycle_def flush_def Let_def prune_safe fold_ops_safe split: if_splits)
qed

lemma hydrate_row_wf:
  assumes "inner_wf i" "name_ok (kd_hostname row)" "hydrate_row fp now row (i, n) = (i', n')"
  shows "inner_wf i'"
proof (cases "oui_normalize (kd_mac row)")
  case (Some mac)
  let ?ip = "Option.bind (kd_ip row) parse_ipv4"
  define e where "e = \<lparr>dev_mac = mac, dev_ip = ?ip, dev_hostname = kd_hostname row, dev_vendor = kd_vendor row,
    dev_randomized = kd_randomized row, written_fingerprint = None, last_seen_written = None\<rparr>"
  define d where "d = e\<lparr>written_fingerprint := Some (fingerprint fp e), last_seen_written := Some now\<rparr>"
  have d: "device_ok mac d" using assms(2) normalize_is_mac [OF Some] by (simp add: d_def e_def device_ok_def)
  have i': "i' = (case ?ip of Some ip \<Rightarrow> i\<lparr>ip_to_mac := hm_insert ip mac (ip_to_mac i)\<rparr> | None \<Rightarrow> i)
      \<lparr>by_mac := hm_insert mac d (by_mac i)\<rparr>"
    using assms(3) by (cases ?ip) (simp_all add: hydrate_row_def Some Let_def d_def e_def)
  show ?thesis
    using assms(1) d unfolding i'
    by (cases ?ip) (auto simp: inner_wf_def hm_simps wf_intros)
qed (use assms in \<open>simp add: hydrate_row_def\<close>)

lemma hydrate_wf:
  assumes "list_all (\<lambda>row. name_ok (kd_hostname row)) rows" "registry_wf (st, hub)"
  shows "registry_wf (fst (hydrate fp now rows st), hub)"
proof -
  have "inner_wf i \<Longrightarrow> list_all (\<lambda>row. name_ok (kd_hostname row)) rows \<Longrightarrow>
      inner_wf (fst (fold (hydrate_row fp now) rows (i, n)))" for i n
  proof (induction rows arbitrary: i n)
    case (Cons row rows)
    obtain i' n' where "hydrate_row fp now row (i, n) = (i', n')" by fastforce
    then show ?case
      using Cons.prems Cons.IH [of i' n'] hydrate_row_wf [of i row fp now n i' n'] by simp
  qed simp
  then show ?thesis
    using assms by (auto simp: hydrate_def registry_wf_def split: option.splits prod.splits) (metis fst_conv)
qed

lemma new_wf: "registry_wf (devices_new oui, hub_new)"
  by (simp add: registry_wf_def devices_new_def hub_new_def inner_wf_def hub_wf_def writer_new_def hm_simps wf_intros)

lemma known_devices_safe: "db_safe db \<Longrightarrow> list_all (\<lambda>row. name_ok (kd_hostname row)) (known_devices db)"
  by (auto simp: db_safe_def known_devices_def list_all_iff row_safe_def)

lemma device_run_wf: "device_run fp s \<Longrightarrow> registry_wf (fst s) \<and> db_safe (snd s)"
proof (induction rule: device_run.induct)
  case (run_boot oui)
  then show ?case by (simp add: new_wf db_safe_def db_empty_def)
next
  case (run_restart r db now oui)
  then show ?case by (simp add: hydrate_wf new_wf known_devices_safe)
next
  case (run_sink r db sink)
  then show ?case by (simp add: registry_wf_def with_alerts_def hub_wf_def)
next
  case (run_shared st hub db op sink)
  then show ?case by (cases op) (auto simp: registry_wf_def hub_wf_def writer_send_safe)
next
  case (run_writer st hub db n ok k now ts days lp w db' lp')
  then show ?case using writer_cycle_safe [of "h_writer hub" db] by (auto simp: registry_wf_def hub_wf_def)
qed (simp_all add: reg_wf.keeps_arp_poll reg_wf.keeps_mdns_packet reg_wf.keeps_dhcp_packet reg_wf.keeps_learn_from_dns
    reg_wf.keeps_touch_ip registry_wfs)

definition inner_lists :: "Inner \<Rightarrow> bool" where
  "inner_lists i \<longleftrightarrow>
     list_all (\<lambda>(mac, d). is_mac mac \<and> dev_mac d = mac \<and> name_ok (dev_hostname d)) (by_mac i) \<and>
     list_all (\<lambda>(ip, mac). hm_get (by_mac i) mac \<noteq> None) (ip_to_mac i) \<and>
     list_all (\<lambda>(ip, n). safe_name n) (pending_names i)"

lemma inner_wf_lists: "inner_wf i \<Longrightarrow> inner_lists i"
proof -
  assume wf: "inner_wf i"
  have all: "list_all (\<lambda>(k, v). Q k v) m" if "hm_ok m" "\<And>k v. hm_get m k = Some v \<Longrightarrow> Q k v"
    for m :: "('k, 'v) hmap" and Q
    using that by (auto simp: list_all_iff hm_get_iff)
  show ?thesis
    unfolding inner_lists_def using wf
    by (intro conjI all) (auto simp: inner_wf_def device_ok_def)
qed

text \<open>
  Whatever devices announce about themselves (ARP, mDNS, DHCP, DNS answers and reverse DNS, from
  any bytes on the wire), across any interleaving with the writer thread and any number of restarts,
  every device in the registry and every device row in the database has a canonical MAC address and
  a host name that is absent or at most 64 lower-case letters, digits and \<open>-_.\<close>; the address index
  points only at devices the registry holds.
\<close>

lemma device_strings_safe:
  assumes "device_run fp ((st, hub), db)"
  shows "list_all (\<lambda>d. is_mac (dv_mac d) \<and> name_ok (dv_hostname d)) (t_devices db) \<and>
    (case ds_inner st of
       None \<Rightarrow> True
     | Some i \<Rightarrow>
         list_all (\<lambda>(mac, d). is_mac mac \<and> dev_mac d = mac \<and> name_ok (dev_hostname d)) (by_mac i) \<and>
         list_all (\<lambda>(ip, mac). hm_get (by_mac i) mac \<noteq> None) (ip_to_mac i) \<and>
         list_all (\<lambda>(ip, n). safe_name n) (pending_names i))"
proof -
  have wf: "registry_wf (st, hub)" "db_safe db" using device_run_wf [OF assms] by simp_all
  have "case ds_inner st of None \<Rightarrow> True | Some i \<Rightarrow> inner_lists i"
    using wf(1) inner_wf_lists by (auto simp: registry_wf_def split: option.splits)
  then show ?thesis
    using wf(2) unfolding db_safe_def row_safe_def [abs_def] inner_lists_def [abs_def] by blast
qed

definition demo_ck :: "instant \<Rightarrow> Clock" where
  "demo_ck t = \<lparr>ck_now = t, ck_ts = 7, ck_alert = t\<rparr>"

definition demo_hash :: hasher where
  "demo_hash ip h v r = (if ip = None then 0 else 1) + (if h = None then 0 else 2)"

definition demo_oui :: OuiDb where
  "demo_oui = \<lparr>oui_map = [(''3C22FB'', ''Apple'')]\<rparr>"

definition demo_named :: registry where
  "demo_named = observe_name_for_ip demo_hash (demo_ck 0) 5 ''Kitchen-iPad.'' (devices_new demo_oui, hub_new)"

lemma demo_named_run: "device_run demo_hash (demo_named, db_empty)"
  unfolding demo_named_def by (rule run_rdns) (rule run_boot)

lemma demo_sanitize: "sanitize_hostname ''Kitchen-iPad.'' = Some ''kitchen-ipad''"
proof -
  have "trim ''Kitchen-iPad.'' = ''Kitchen-iPad.''" by (rule trim_graphic) (simp add: str_eval)
  moreover have "read_groups 0 (Suc 7) ''Kitchen-iPad'' = ([], False, ''Kitchen-iPad'')"
    by (subst read_groups.simps(2)) (simp add: read_separator_def ip_eval str_eval)
  then have "parse_ip ''Kitchen-iPad'' = None"
    by (simp add: read_ipv6_addr_def ip_eval str_eval)
  ultimately show ?thesis
    by (simp add: sanitize_hostname_def trim_end_matches_def str_eval)
qed

lemma demo_named_eq:
  "demo_named = (\<lparr>ds_inner = Some \<lparr>by_mac = [], ip_to_mac = [], pending_names = [(5, ''kitchen-ipad'')]\<rparr>,
     ds_oui = demo_oui\<rparr>, hub_new)"
  by (simp add: demo_named_def observe_name_for_ip_def demo_sanitize devices_new_def hm_defs)

lemma device_strings_safe_witness:
  "device_run demo_hash (demo_named, db_empty) \<and>
   list_all (\<lambda>(ip, n). safe_name n) [(5 :: u32, ''kitchen-ipad'')]"
  using demo_named_run device_strings_safe [OF demo_named_run [unfolded demo_named_eq]] by simp

section \<open>Write debouncing\<close>

definition touch_attempt :: "string \<Rightarrow> instant \<Rightarrow> Inner \<Rightarrow> Inner \<times> bool" where
  "touch_attempt mac now i = (fst (touch_mac mac now i), snd (touch_mac mac now i) \<noteq> None)"

definition touch_other :: "string \<Rightarrow> string \<Rightarrow> instant \<Rightarrow> Inner \<Rightarrow> Inner" where
  "touch_other mac m now i = (if m = mac then i else fst (touch_mac m now i))"

definition last_written :: "string \<Rightarrow> Inner \<Rightarrow> instant option" where
  "last_written mac i = Option.bind (hm_get (by_mac i) mac) last_seen_written"

lemma touch_mac_get:
  "hm_get (by_mac (fst (touch_mac m now i))) k =
     (if k = m then map_option (\<lambda>d. if heartbeat_due now d then d\<lparr>last_seen_written := Some now\<rparr> else d) (hm_get (by_mac i) m)
      else hm_get (by_mac i) k)"
  by (auto simp: touch_mac_def Let_def hm_simps split: option.splits)

lemma touch_mac_due: "snd (touch_mac m now i) \<noteq> None \<longleftrightarrow> (\<exists>d. hm_get (by_mac i) m = Some d \<and> heartbeat_due now d)"
  by (auto simp: touch_mac_def Let_def split: option.splits)

lemma touch_attempt_simps:
  "snd (touch_attempt m now i) \<longleftrightarrow> (\<exists>d. hm_get (by_mac i) m = Some d \<and> heartbeat_due now d)"
  "fst (touch_attempt m now i) = fst (touch_mac m now i)"
  using touch_mac_due [of m now i] by (simp_all only: touch_attempt_def fst_conv snd_conv)

interpretation hb: rate_gate "touch_attempt mac" "touch_other mac" "last_written mac"
    "\<lambda>i. hm_get (by_mac i) mac \<noteq> None" LAST_SEEN_HEARTBEAT
  for mac
  by unfold_locales
     (auto simp: touch_attempt_simps touch_other_def last_written_def touch_mac_get heartbeat_due_def
        duration_since_def split: option.splits)

definition rows_of :: "string \<Rightarrow> Hub \<Rightarrow> nat" where
  "rows_of mac h = length (filter (\<lambda>op. case op of W_Device d \<Rightarrow> do_mac d = mac | _ \<Rightarrow> False) (w_queue (h_writer h)))"

lemma persist_rows: "rows_of mac (persist ts d h) \<le> rows_of mac h + (if dev_mac d = mac then 1 else 0)"
  by (simp add: rows_of_def persist_def writer_send_def)

definition touch_all :: "(Clock \<times> IpAddr) list \<Rightarrow> registry \<Rightarrow> registry" where
  "touch_all es r = fold (\<lambda>(ck, ip). touch_ip ck ip) es r"

text \<open>Which device's gate a query from an address tries; addresses that belong to nobody try none.\<close>

definition touch_event :: "string \<Rightarrow> (u32, string) hmap \<Rightarrow> Clock \<times> IpAddr \<Rightarrow> instant \<times> string option" where
  "touch_event mac idx e = (ck_now (fst e),
     case snd e of IpV6 _ \<Rightarrow> Some mac
     | IpV4 v4 \<Rightarrow> (case hm_get idx v4 of None \<Rightarrow> Some mac | Some m \<Rightarrow> if m = mac then None else Some m))"

lemma touch_ip_eq:
  assumes "ds_inner st = Some i"
  shows "touch_ip ck (IpV4 v4) (st, hub) =
    (case hm_get (ip_to_mac i) v4 of
       None \<Rightarrow> (st, hub)
     | Some m \<Rightarrow> (st\<lparr>ds_inner := Some (fst (touch_mac m (ck_now ck) i))\<rparr>,
         case snd (touch_mac m (ck_now ck) i) of Some d \<Rightarrow> persist (ck_ts ck) d hub | None \<Rightarrow> hub))"
  using assms
  by (cases st) (auto simp: touch_due_def touch_write_def touch_mac_def Let_def split: option.splits)

lemma touch_mac_row: "inner_wf i \<Longrightarrow> snd (touch_mac m now i) = Some d \<Longrightarrow> dev_mac d = m"
  by (auto simp: touch_mac_def Let_def inner_wf_def device_ok_def split: option.splits if_splits)

lemma touch_mac_index [simp]: "ip_to_mac (fst (touch_mac m now i)) = ip_to_mac i"
  by (simp add: touch_mac_def Let_def split: option.splits)

lemma touch_mac_inner_wf: "inner_wf i \<Longrightarrow> inner_wf (fst (touch_mac m now i))"
  using touch_mac_wf(1) [of i m now] by (metis prod.collapse)

lemma touch_all_gate:
  "ds_inner st = Some i \<Longrightarrow> inner_wf i \<Longrightarrow>
     rows_of mac (snd (touch_all es (st, hub))) \<le> rows_of mac hub +
       length (gate_run (touch_attempt mac) (touch_other mac) (map (touch_event mac (ip_to_mac i)) es) i)"
proof (induction es arbitrary: st i hub)
  case Nil
  then show ?case by (simp add: touch_all_def)
next
  case (Cons e es)
  obtain ck ip where e: "e = (ck, ip)" by fastforce
  show ?case
  proof (cases "\<exists>v4 m. ip = IpV4 v4 \<and> hm_get (ip_to_mac i) v4 = Some m")
    case False
    then have "touch_ip ck ip (st, hub) = (st, hub)" "touch_event mac (ip_to_mac i) e = (ck_now ck, Some mac)"
      using touch_ip_eq [OF Cons.prems(1)] by (cases ip; simp add: e touch_event_def)+
    then show ?thesis using Cons.IH [OF Cons.prems] by (simp add: touch_all_def e touch_other_def)
  next
    case True
    then obtain v4 m where m: "ip = IpV4 v4" "hm_get (ip_to_mac i) v4 = Some m" by blast
    let ?t = "touch_mac m (ck_now ck) i"
    let ?h = "case snd ?t of Some d \<Rightarrow> persist (ck_ts ck) d hub | None \<Rightarrow> hub"
    have rows: "rows_of mac ?h \<le> rows_of mac hub + (if m = mac \<and> snd ?t \<noteq> None then 1 else 0)"
    proof (cases "snd ?t")
      case (Some d)
      then show ?thesis
        using persist_rows [of mac "ck_ts ck" d hub] touch_mac_row [OF Cons.prems(2) Some] by simp
    qed simp
    have "rows_of mac (snd (touch_all es (st\<lparr>ds_inner := Some (fst ?t)\<rparr>, ?h))) \<le> rows_of mac ?h +
        length (gate_run (touch_attempt mac) (touch_other mac) (map (touch_event mac (ip_to_mac i)) es) (fst ?t))"
      using Cons.IH [of "st\<lparr>ds_inner := Some (fst ?t)\<rparr>" "fst ?t" ?h] touch_mac_inner_wf [OF Cons.prems(2)] by simp
    moreover have "rows_of mac (snd (touch_all (e # es) (st, hub))) =
        rows_of mac (snd (touch_all es (st\<lparr>ds_inner := Some (fst ?t)\<rparr>, ?h)))"
      using touch_ip_eq [OF Cons.prems(1), of ck v4 hub] m by (simp add: touch_all_def e)
    moreover have "length (gate_run (touch_attempt mac) (touch_other mac) (map (touch_event mac (ip_to_mac i)) (e # es)) i) =
        (if m = mac \<and> snd ?t \<noteq> None then 1 else 0) +
        length (gate_run (touch_attempt mac) (touch_other mac) (map (touch_event mac (ip_to_mac i)) es) (fst ?t))"
    proof (cases "m = mac")
      case True
      then have "touch_event mac (ip_to_mac i) e = (ck_now ck, None)" using m by (simp add: e touch_event_def)
      then show ?thesis using True by (simp add: touch_attempt_simps(2)) (simp add: touch_attempt_def)
    next
      case False
      then have "touch_event mac (ip_to_mac i) e = (ck_now ck, Some m)" using m by (simp add: e touch_event_def)
      moreover have "touch_other mac m (ck_now ck) i = fst ?t" using False by (simp add: touch_other_def)
      ultimately show ?thesis using False by simp
    qed
    ultimately show ?thesis using rows by linarith
  qed
qed

text \<open>
  The DNS hot path costs at most one row write per device and minute: however many queries come
  from whatever addresses between two moments, the writes they cause for one device number at most
  one per heartbeat period and one more.
\<close>

lemma heartbeat_rate_limited:
  assumes "device_run fp ((st, hub), db)" "ds_inner st = Some i" "hm_get (by_mac i) mac \<noteq> None"
    and "sorted (map (\<lambda>(ck, _). ck_now ck) es)" "\<forall>(ck, _) \<in> set es. t0 \<le> ck_now ck \<and> ck_now ck \<le> t1"
  shows "rows_of mac (snd (touch_all es (st, hub))) \<le> rows_of mac hub + (t1 - t0) div LAST_SEEN_HEARTBEAT + 1"
proof -
  have wf: "inner_wf i" using device_run_wf [OF assms(1)] assms(2) by (simp add: registry_wf_def)
  let ?es = "map (touch_event mac (ip_to_mac i)) es"
  have "map fst ?es = map (\<lambda>(ck, _). ck_now ck) es" by (auto simp: touch_event_def)
  then have "sorted (map fst ?es)" using assms(4) by (simp only:)
  moreover have "\<forall>(t, _) \<in> set ?es. t0 \<le> t \<and> t \<le> t1" using assms(5) by (auto simp: touch_event_def)
  moreover have "0 < LAST_SEEN_HEARTBEAT" by (simp add: LAST_SEEN_HEARTBEAT_def from_secs_def)
  ultimately have "length (gate_run (touch_attempt mac) (touch_other mac) ?es i) \<le> (t1 - t0) div LAST_SEEN_HEARTBEAT + 1"
    using hb.at_most_per_window [of i mac ?es t0 t1] assms(3) by blast
  then show ?thesis using touch_all_gate [OF assms(2) wf, of mac es hub] by linarith
qed


definition demo_mac :: string where
  "demo_mac = ''3c:22:fb:00:00:01''"

definition demo_seen :: registry where
  "demo_seen = arp_poll demo_hash (\<lambda>_. demo_ck 0) None None
     (Some [\<lparr>arp_ip = 5, arp_mac = demo_mac, arp_iface = ''eth0''\<rparr>]) (devices_new demo_oui, hub_new)"

definition demo_device :: Device where
  "demo_device = \<lparr>dev_mac = demo_mac, dev_ip = Some 5, dev_hostname = None, dev_vendor = Some ''Apple'',
     dev_randomized = False, written_fingerprint = Some 1, last_seen_written = Some 0\<rparr>"

definition demo_row :: WriteOp where
  "demo_row = W_Device \<lparr>do_mac = demo_mac, do_ip = Some (show_ipv4 5), do_hostname = None,
     do_vendor = Some ''Apple'', do_randomized = False, do_ts = 7\<rparr>"

lemma demo_mac_norm: "oui_normalize demo_mac = Some demo_mac"
  by (simp add: oui_normalize_def demo_mac_def hex_filter_def str_eval)

lemma demo_vendor: "vendor_label demo_oui demo_mac = Some ''Apple''" "\<not> is_randomized demo_mac"
proof -
  show r: "\<not> is_randomized demo_mac"
    by (simp add: is_randomized_def demo_mac_def hex_filter_def str_eval)
  show "vendor_label demo_oui demo_mac = Some ''Apple''"
    using r by (simp add: vendor_label_def oui_lookup_def demo_oui_def demo_mac_def hex_key_def hex_filter_def
        hm_get_def ascii_upper_def str_eval)
qed

lemma demo_seen_run: "device_run demo_hash (demo_seen, db_empty)"
  unfolding demo_seen_def by (rule run_arp) (rule run_boot)

lemma demo_seen_eq:
  "demo_seen = (\<lparr>ds_inner = Some \<lparr>by_mac = [(demo_mac, demo_device)], ip_to_mac = [(5, demo_mac)], pending_names = []\<rparr>,
     ds_oui = demo_oui\<rparr>, hub_new\<lparr>h_writer := writer_send demo_row writer_new\<rparr>)"
  by (simp add: demo_seen_def arp_poll_def observe_def demo_mac_norm devices_new_def hm_defs device_entry_def device_new_def
      demo_vendor take_write_slot_def heartbeat_due_def fingerprint_def demo_hash_def demo_device_def demo_ck_def
      persist_def hub_raise_def hub_new_def demo_row_def Let_def)

lemma heartbeat_rate_limited_witness:
  "device_run demo_hash (demo_seen, db_empty) \<and>
   rows_of demo_mac (snd (touch_all [(demo_ck 1, IpV4 5), (demo_ck 60000000000, IpV4 5)] demo_seen)) \<le> 2"
proof -
  let ?es = "[(demo_ck 1, IpV4 5), (demo_ck 60000000000, IpV4 5)]"
  have "sorted (map (\<lambda>(ck, _). ck_now ck) ?es)"
    "\<forall>(ck, _) \<in> set ?es. 1 \<le> ck_now ck \<and> ck_now ck \<le> 60000000000"
    by (simp_all add: demo_ck_def)
  moreover have "rows_of demo_mac (hub_new\<lparr>h_writer := writer_send demo_row writer_new\<rparr>) = 1"
    by (simp add: rows_of_def writer_send_def writer_new_def WRITER_DEPTH_def demo_row_def)
  ultimately show ?thesis
    using demo_seen_run heartbeat_rate_limited [OF demo_seen_run [unfolded demo_seen_eq], of _ demo_mac ?es 1 60000000000]
    by (simp add: demo_seen_eq hm_get_def LAST_SEEN_HEARTBEAT_def from_secs_def)
qed

section \<open>Sightings and alerts\<close>

lemma slot_closed:
  "\<not> heartbeat_due now (fst (take_write_slot fp t d)) \<Longrightarrow>
     take_write_slot fp now (fst (take_write_slot fp t d)) = (fst (take_write_slot fp t d), False)"
  by (auto simp: take_write_slot_def Let_def fingerprint_def heartbeat_due_def split: if_splits)

lemma sighted_again:
  assumes "hm_get (by_mac i) mac = Some d" "hm_get (pending_names i) ip = None"
    and "dev_ip d = Some ip" "dev_randomized d = is_randomized mac" "dev_vendor d = None \<Longrightarrow> vendor_label oui mac = None"
  shows "sighted oui ip mac i = d"
  using assms by (cases d) (auto simp: sighted_def device_entry_def Let_def)

text \<open>
  Seeing a device again changes nothing: once a device has been observed at an address, every
  further observation of the same pair, until its heartbeat is due, leaves the registry, the write
  queue and the alerts exactly as they are.
\<close>

lemma sighting_idempotent:
  assumes "oui_normalize raw = Some mac" "ds_inner (fst r) = Some i"
    and "ds_inner (fst (observe fp ck ip raw r)) = Some i'" "hm_get (by_mac i') mac = Some d"
    and "\<not> heartbeat_due (ck_now ck2) d"
  shows "observe fp ck2 ip raw (observe fp ck ip raw r) = observe fp ck ip raw r"
proof -
  obtain st hub where r: "r = (st, hub)" by fastforce
  let ?e = "sighted (ds_oui st) ip mac i"
  let ?d = "fst (take_write_slot fp (ck_now ck) ?e)"
  let ?i = "i\<lparr>pending_names := hm_remove ip (pending_names i), ip_to_mac := hm_insert ip mac (ip_to_mac i),
      by_mac := hm_insert mac ?d (by_mac i)\<rparr>"
  have "fst (observe fp ck ip raw (st, hub)) = st\<lparr>ds_inner := Some ?i\<rparr>"
    using observe_eq [OF assms(1), of st i fp ck ip hub] assms(2) by (simp only: r fst_conv Let_def)
  then obtain h where o: "observe fp ck ip raw r = (st\<lparr>ds_inner := Some ?i\<rparr>, h)" unfolding r by (metis prod.collapse)
  have i': "i' = ?i" using assms(3) unfolding o by simp
  have get: "hm_get (by_mac i') mac = Some ?d" "hm_get (pending_names i') ip = None" "hm_get (ip_to_mac i') ip = Some mac"
    by (simp_all add: i' hm_simps)
  have "sighted (ds_oui st) ip mac i' = ?d"
  proof (rule sighted_again [OF get(1,2)])
    show "dev_ip ?d = Some ip" "dev_randomized ?d = is_randomized mac" by (simp_all add: sighted_def Let_def)
    show "vendor_label (ds_oui st) mac = None" if "dev_vendor ?d = None"
      using that unfolding slot_fields by (simp add: sighted_def Let_def split: if_splits)
  qed
  moreover have "take_write_slot fp (ck_now ck2) ?d = (?d, False)"
    using assms(4,5) get(1) by (intro slot_closed) simp
  ultimately have "observe fp ck2 ip raw (st\<lparr>ds_inner := Some i'\<rparr>, h) = (st\<lparr>ds_inner := Some i'\<rparr>, h)"
    using observe_eq [OF assms(1), of "st\<lparr>ds_inner := Some i'\<rparr>" i' fp ck2 ip h] get
    by (simp add: Let_def hm_insert_same hm_remove_absent)
  then show ?thesis unfolding o i' .
qed

lemma sighting_idempotent_witness:
  "observe demo_hash (demo_ck 59) 5 demo_mac (observe demo_hash (demo_ck 0) 5 demo_mac (devices_new demo_oui, hub_new)) =
     observe demo_hash (demo_ck 0) 5 demo_mac (devices_new demo_oui, hub_new)"
proof -
  have seen: "observe demo_hash (demo_ck 0) 5 demo_mac (devices_new demo_oui, hub_new) = demo_seen"
    by (simp add: demo_seen_def arp_poll_def)
  have "\<not> heartbeat_due (ck_now (demo_ck 59)) demo_device"
    by (simp add: heartbeat_due_def demo_device_def demo_ck_def LAST_SEEN_HEARTBEAT_def from_secs_def duration_since_def)
  moreover have "ds_inner (fst demo_seen) = Some \<lparr>by_mac = [(demo_mac, demo_device)], ip_to_mac = [(5, demo_mac)], pending_names = []\<rparr>"
    by (simp add: demo_seen_eq)
  moreover have "ds_inner (fst (devices_new demo_oui, hub_new)) = Some \<lparr>by_mac = [], ip_to_mac = [], pending_names = []\<rparr>"
    by (simp add: devices_new_def)
  ultimately show ?thesis
    by (intro sighting_idempotent [OF demo_mac_norm]) (simp_all add: seen, simp add: hm_get_def)
qed

lemma observe_known_alerts:
  assumes "oui_normalize raw = Some mac" "ds_inner st = Some i" "hm_get (by_mac i) mac \<noteq> None"
  shows "h_alerts (snd (observe fp ck ip raw (st, hub))) = h_alerts hub"
  using observe_eq [OF assms(1,2), of fp ck ip hub] assms(3) by (auto simp: Let_def persist_def)

lemma hydrate_row_keeps:
  "hm_get (by_mac (fst s)) mac \<noteq> None \<Longrightarrow> hm_get (by_mac (fst (hydrate_row fp now row s))) mac \<noteq> None"
  by (cases s) (auto simp: hydrate_row_def Let_def hm_simps split: option.splits)

lemma hydrate_row_adds:
  "oui_normalize (kd_mac row) = Some mac \<Longrightarrow> hm_get (by_mac (fst (hydrate_row fp now row s))) mac \<noteq> None"
  by (cases s) (auto simp: hydrate_row_def Let_def hm_simps split: option.splits)

lemma hydrate_fold_keeps:
  "hm_get (by_mac (fst s)) mac \<noteq> None \<Longrightarrow> hm_get (by_mac (fst (fold (hydrate_row fp now) rows s))) mac \<noteq> None"
proof (induction rows arbitrary: s)
  case (Cons row rows)
  show ?case using Cons.IH [OF hydrate_row_keeps [OF Cons.prems]] by simp
qed simp

lemma hydrate_fold_adds:
  "row \<in> set rows \<Longrightarrow> oui_normalize (kd_mac row) = Some mac \<Longrightarrow>
     hm_get (by_mac (fst (fold (hydrate_row fp now) rows s))) mac \<noteq> None"
proof (induction rows arbitrary: s)
  case (Cons x rows)
  show ?case
  proof (cases "row = x")
    case True
    then show ?thesis using hydrate_fold_keeps [OF hydrate_row_adds [OF Cons.prems(2)]] by simp
  qed (use Cons in auto)
qed simp

text \<open>
  A restart raises no false alarms: whatever the program did before, after the registry has been
  hydrated from the database, seeing a device that has a row there raises no new-device alert.
\<close>

lemma restart_raises_no_alarm:
  assumes "device_run fp (r, db)" "d \<in> set (t_devices db)" "oui_normalize raw = Some (dv_mac d)"
  shows "h_alerts (snd (observe fp ck ip raw (fst (hydrate fp now (known_devices db) (devices_new oui)), hub))) = h_alerts hub"
proof -
  have "is_mac (dv_mac d)" using device_run_wf [OF assms(1)] assms(2) by (auto simp: db_safe_def list_all_iff row_safe_def)
  then have "oui_normalize (dv_mac d) = Some (dv_mac d)" by (rule normalize_mac)
  moreover obtain row where "row \<in> set (known_devices db)" "kd_mac row = dv_mac d"
    using assms(2) by (force simp: known_devices_def)
  ultimately have known: "hm_get (by_mac (fst (fold (hydrate_row fp now) (known_devices db) s))) (dv_mac d) \<noteq> None" for s
    using hydrate_fold_adds by metis
  obtain i n where i: "fold (hydrate_row fp now) (known_devices db) (\<lparr>by_mac = [], ip_to_mac = [], pending_names = []\<rparr>, 0) = (i, n)"
    by fastforce
  then have "ds_inner (fst (hydrate fp now (known_devices db) (devices_new oui))) = Some i"
    by (simp add: hydrate_def devices_new_def)
  then show ?thesis using observe_known_alerts [OF assms(3)] known i by (metis fst_conv)
qed

definition demo_db :: Database where
  "demo_db = apply_op demo_row db_empty"

lemma demo_flushed: "device_run demo_hash ((fst demo_seen, hub_new), demo_db)"
proof -
  have "writer_cycle 0 True 0 0 7 14 (h_writer (hub_new\<lparr>h_writer := writer_send demo_row writer_new\<rparr>), db_empty, 0) =
      (writer_new, demo_db, 0)"
    by (simp add: writer_cycle_def writer_send_def writer_new_def WRITER_DEPTH_def flush_def duration_since_def from_secs_def demo_db_def)
  from run_writer [OF demo_seen_run [unfolded demo_seen_eq] this]
  show ?thesis by (simp add: demo_seen_eq hub_new_def)
qed

lemma restart_raises_no_alarm_witness:
  "map dv_mac (t_devices demo_db) = [demo_mac] \<and>
   h_alerts (snd (observe demo_hash (demo_ck 9) 5 demo_mac
     (fst (hydrate demo_hash 3 (known_devices demo_db) (devices_new demo_oui)), hub_new\<lparr>h_alerts := Some demo_sink\<rparr>))) = Some demo_sink"
proof -
  have d: "map dv_mac (t_devices demo_db) = [demo_mac]"
    by (simp add: demo_db_def demo_row_def db_empty_def upsert_device_def release_ip_def)
  then obtain x where "x \<in> set (t_devices demo_db)" "dv_mac x = demo_mac" by (cases "t_devices demo_db") auto
  then show ?thesis using d demo_mac_norm restart_raises_no_alarm [OF demo_flushed] by simp
qed

text \<open>
  C39. A device that introduces itself by DHCP first is not alerted about: \<open>observe_named\<close> enters the
  unknown device in the registry without raising an alert, and the next sighting of the same device
  finds it known and does not announce it either.
\<close>

theorem dhcp_first_never_alerted:
  assumes "oui_normalize raw = Some mac" "sanitize_hostname host = Some n" "ds_inner (fst r) = Some i"
    and "hm_get (by_mac i) mac = None"
  shows "h_alerts (snd (observe fp ck2 ip raw (observe_named fp ck raw host r))) = h_alerts (snd r)"
proof -
  obtain st hub where r: "r = (st, hub)" by fastforce
  obtain i' h where o: "observe_named fp ck raw host r = (st\<lparr>ds_inner := Some i'\<rparr>, h)"
    and i': "hm_get (by_mac i') mac \<noteq> None" and h: "h_alerts h = h_alerts hub"
    using observe_named_eq [OF assms(1,2), of st i fp ck hub] assms(3) by (auto simp: r Let_def hm_simps persist_def)
  then show ?thesis
    using observe_known_alerts [OF assms(1), of "st\<lparr>ds_inner := Some i'\<rparr>" i' fp ck2 ip h] by (simp add: r)
qed

theorem dhcp_first_never_alerted_witness:
  "hm_get [] demo_mac = (None :: Device option) \<and>
   h_alerts (snd (observe demo_hash (demo_ck 9) 5 demo_mac
     (observe_named demo_hash (demo_ck 0) demo_mac ''Kitchen-iPad.'' (devices_new demo_oui, hub_new\<lparr>h_alerts := Some demo_sink\<rparr>)))) =
   Some demo_sink"
  using dhcp_first_never_alerted [OF demo_mac_norm demo_sanitize,
      of "(devices_new demo_oui, hub_new\<lparr>h_alerts := Some demo_sink\<rparr>)"]
  by (simp add: devices_new_def hm_get_def)

end
