(* ===== verification/Blocklist.thy ===== *)
theory Blocklist
  imports Config
begin

text \<open>
  Blocklist loading and matching (\<open>src/blocklist.rs\<close>): the matcher and its parsers, the download of
  the remote lists with its health record, and the rebuild of the matcher from disk (the two manual lists
  are in \<open>Manual_Lists\<close>, what the matcher is for in \<open>Blocklist_Spec\<close>). The file system is a map from paths to contents, an argument and a result of the operations
  that change it; replies of the HTTP client and failures of the operating system are arguments.
\<close>

section \<open>The matcher\<close>

type_synonym SourceId = u16

record SourceStat =
  ss_name :: string
  ss_entries :: nat

record Blocklist =
  exact :: "(string, SourceId) hmap"
  wildcards :: "(string, SourceId) hmap"
  allow :: "string hset"
  allow_wildcards :: "string hset"
  sources :: "SourceStat list"

definition Blocklist_default :: Blocklist where
  "Blocklist_default = \<lparr>exact = [], wildcards = [], allow = [], allow_wildcards = [], sources = []\<rparr>"

definition bl_len :: "Blocklist \<Rightarrow> nat" where
  "bl_len bl = length (exact bl) + length (wildcards bl)"

definition source_name :: "Blocklist \<Rightarrow> SourceId \<Rightarrow> string" where
  "source_name bl i =
     (if unat i < length (sources bl) then ss_name (sources bl ! unat i) else ''unknown'')"

text \<open>\<open>Iterator::position\<close>.\<close>

fun position :: "('a \<Rightarrow> bool) \<Rightarrow> 'a list \<Rightarrow> nat option" where
  "position P [] = None"
| "position P (x # xs) = (if P x then Some 0 else map_option Suc (position P xs))"

definition intern :: "string \<Rightarrow> Blocklist \<Rightarrow> Blocklist \<times> SourceId" where
  "intern name bl =
     (case position (\<lambda>s. ss_name s = name) (sources bl) of
        Some i \<Rightarrow> (bl, word_of_nat i)
      | None \<Rightarrow>
          if 65535 \<le> length (sources bl) then (bl, 65535 - 1)
          else let bl' = bl\<lparr>sources := sources bl @ [\<lparr>ss_name = name, ss_entries = 0\<rparr>]\<rparr>
               in (bl', word_of_nat (length (sources bl') - 1)))"

text \<open>The rest of a name after its first dot.\<close>

fun after_dot :: "string \<Rightarrow> string option" where
  "after_dot [] = None"
| "after_dot (c # s) = (if c = CHR ''.'' then Some s else after_dot s)"

lemma after_dot_shorter: "after_dot s = Some r \<Longrightarrow> length r < length s"
  by (induction s) (auto split: if_splits)

function wildcard_above :: "(string, SourceId) hmap \<Rightarrow> string \<Rightarrow> SourceId option" where
  "wildcard_above m domain =
     (case after_dot domain of
        None \<Rightarrow> None
      | Some rest \<Rightarrow>
          if rest = [] then None
          else case hm_get m rest of
            Some src \<Rightarrow> Some src
          | None \<Rightarrow> wildcard_above m rest)"
  by pat_completeness auto
termination
  by (relation "measure (\<lambda>(_, d). length d)") (auto simp: after_dot_shorter)

function allowed_above :: "string hset \<Rightarrow> string \<Rightarrow> bool" where
  "allowed_above aw domain =
     (case after_dot domain of
        None \<Rightarrow> False
      | Some rest \<Rightarrow>
          if rest = [] then False
          else if rest \<in> set aw then True
          else allowed_above aw rest)"
  by pat_completeness auto
termination
  by (relation "measure (\<lambda>(_, d). length d)") (auto simp: after_dot_shorter)

declare wildcard_above.simps [simp del] allowed_above.simps [simp del]

definition is_allowed :: "Blocklist \<Rightarrow> string \<Rightarrow> bool" where
  "is_allowed bl domain =
     (if domain \<in> set (allow bl) then True
      else if domain \<in> set (allow_wildcards bl) then True
      else allowed_above (allow_wildcards bl) domain)"

definition lookup :: "Blocklist \<Rightarrow> string \<Rightarrow> string option" where
  "lookup bl domain =
     (if is_allowed bl domain then None
      else case hm_get (exact bl) domain of
        Some src \<Rightarrow> Some (source_name bl src)
      | None \<Rightarrow> (case hm_get (wildcards bl) domain of
          Some src \<Rightarrow> Some (source_name bl src)
        | None \<Rightarrow> map_option (source_name bl) (wildcard_above (wildcards bl) domain)))"

datatype Entry = Exact string | Wildcard string

definition label_ok :: "string \<Rightarrow> bool" where
  "label_ok label \<longleftrightarrow> label \<noteq> [] \<and> length label \<le> 63 \<and>
     list_all (\<lambda>b. is_ascii_alphanumeric b \<or> b = CHR ''-'' \<or> b = CHR ''_'') label"

definition normalize :: "string \<Rightarrow> Entry option" where
  "normalize entry =
     (let e = to_ascii_lowercase (trim_end_matches CHR ''.'' (trim entry));
          (wildcard, domain) = (case strip_prefix ''*.'' e of Some rest \<Rightarrow> (True, rest) | None \<Rightarrow> (False, e))
      in if domain = [] \<or> 253 < length domain \<or> CHR ''.'' \<notin> set domain then None
         else if parse_ip domain \<noteq> None then None
         else if \<not> list_all label_ok (split_on CHR ''.'' domain) then None
         else Some (if wildcard then Wildcard domain else Exact domain))"

definition add_block :: "string \<Rightarrow> SourceId \<Rightarrow> Blocklist \<Rightarrow> Blocklist" where
  "add_block entry source bl =
     (case normalize entry of
        Some (Exact d) \<Rightarrow> bl\<lparr>exact := hm_or_insert d source (exact bl)\<rparr>
      | Some (Wildcard d) \<Rightarrow> bl\<lparr>wildcards := hm_or_insert d source (wildcards bl)\<rparr>
      | None \<Rightarrow> bl)"

definition add_allow :: "string \<Rightarrow> Blocklist \<Rightarrow> Blocklist" where
  "add_allow entry bl =
     (case normalize entry of
        Some (Exact d) \<Rightarrow> bl\<lparr>allow := hs_insert d (allow bl)\<rparr>
      | Some (Wildcard d) \<Rightarrow> bl\<lparr>allow_wildcards := hs_insert d (allow_wildcards bl)\<rparr>
      | None \<Rightarrow> bl)"

datatype AdblockRule = Block string | Exception string

definition parse_adblock :: "string \<Rightarrow> AdblockRule option" where
  "parse_adblock line =
     (if starts_with ''['' line then None
      else
        let (rest, exception) = (case strip_prefix ''@@'' line of Some r \<Rightarrow> (r, True) | None \<Rightarrow> (line, False))
        in case strip_prefix ''||'' rest of
             None \<Rightarrow> None
           | Some rest \<Rightarrow>
               (let domain = takeWhile (\<lambda>c. c \<notin> set ''^$/'') rest;
                    tail = dropWhile (\<lambda>c. c \<notin> set ''^$/'') rest;
                    has_modifier = (CHR ''$'' \<in> set tail \<or> CHR ''/'' \<in> set tail)
                in if has_modifier \<or> domain = [] \<or> CHR ''*'' \<in> set domain then None
                   else Some (if exception then Exception domain else Block domain)))"

text \<open>A line up to the first comment character, trimmed.\<close>

definition strip_comment :: "string \<Rightarrow> string" where
  "strip_comment raw = trim (takeWhile (\<lambda>c. c \<noteq> CHR ''#'' \<and> c \<noteq> CHR ''!'') raw)"

definition is_hosts_addr :: "string \<Rightarrow> bool" where
  "is_hosts_addr s \<longleftrightarrow> s \<in> {''0.0.0.0'', ''127.0.0.1'', ''::'', ''::1'', ''0.0.0.0.0''}"

definition is_local_name :: "string \<Rightarrow> bool" where
  "is_local_name d \<longleftrightarrow> eq_ignore_ascii_case d ''localhost''
     \<or> eq_ignore_ascii_case d ''localhost.localdomain'' \<or> eq_ignore_ascii_case d ''broadcasthost''"

definition add_entry :: "bool \<Rightarrow> SourceId \<Rightarrow> string \<Rightarrow> Blocklist \<Rightarrow> Blocklist" where
  "add_entry is_allow source_id domain bl =
     (if is_allow then add_allow domain bl else add_block domain source_id bl)"

text \<open>One iteration of the loop of \<open>ingest\<close>.\<close>

definition ingest_line :: "bool \<Rightarrow> SourceId \<Rightarrow> string \<Rightarrow> Blocklist \<Rightarrow> Blocklist" where
  "ingest_line is_allow source_id raw bl =
     (let line = strip_comment raw in
      if line = [] then bl
      else case parse_adblock line of
        Some (Block d) \<Rightarrow>
          if \<not> is_allow then add_block (''*.'' @ d) source_id bl else add_allow (''*.'' @ d) bl
      | Some (Exception d) \<Rightarrow> add_allow (''*.'' @ d) bl
      | None \<Rightarrow>
          (case split_whitespace line of
             [] \<Rightarrow> add_entry is_allow source_id [] bl
           | first # names \<Rightarrow>
               if is_hosts_addr first then
                 fold (\<lambda>domain bl. if is_local_name domain then bl else add_entry is_allow source_id domain bl)
                   names bl
               else if names = [] then add_entry is_allow source_id first bl
               else bl))"

definition rule_count :: "bool \<Rightarrow> Blocklist \<Rightarrow> nat" where
  "rule_count is_allow bl =
     (if is_allow then length (allow bl) + length (allow_wildcards bl) else bl_len bl)"

definition ingest :: "string \<Rightarrow> string \<Rightarrow> bool \<Rightarrow> Blocklist \<Rightarrow> Blocklist \<times> nat" where
  "ingest contents name is_allow bl =
     (let before = rule_count is_allow bl;
          (bl, source_id) = (if is_allow then (bl, 0) else intern name bl);
          bl = fold (ingest_line is_allow source_id) (lines contents) bl;
          added = rule_count is_allow bl - before;
          bl = (if \<not> is_allow \<and> unat source_id < length (sources bl)
                then bl\<lparr>sources := (sources bl)[unat source_id :=
                       (sources bl ! unat source_id)\<lparr>ss_entries :=
                          ss_entries (sources bl ! unat source_id) + added\<rparr>]\<rparr>
                else bl)
      in (bl, added))"

section \<open>Downloads\<close>

datatype HState = NeverFetched | Ok_state | Stale | Error_state

record SourceHealth =
  sh_url :: string
  last_attempt :: "int option"
  last_success :: "int option"
  sh_bytes :: "nat option"
  sh_state :: HState
  sh_error :: "string option"

definition SourceHealth_new :: "string \<Rightarrow> SourceHealth" where
  "SourceHealth_new url =
     \<lparr>sh_url = url, last_attempt = None, last_success = None, sh_bytes = None,
      sh_state = NeverFetched, sh_error = None\<rparr>"

type_synonym HealthMap = "SourceHealth list lock"

definition new_health :: "Config \<Rightarrow> HealthMap" where
  "new_health cfg = Some (map SourceHealth_new (b_sources (blocking cfg)))"

record RefreshOutcome =
  attempted :: nat
  succeeded :: nat
  failures :: "(string \<times> string) list"

definition RefreshOutcome_default :: RefreshOutcome where
  "RefreshOutcome_default = \<lparr>attempted = 0, succeeded = 0, failures = []\<rparr>"

definition total_failure :: "RefreshOutcome \<Rightarrow> bool" where
  "total_failure o1 \<longleftrightarrow> 0 < attempted o1 \<and> succeeded o1 = 0"

definition MAX_LIST_BYTES :: nat where
  "MAX_LIST_BYTES = 64 * 1024 * 1024"

fun update_first :: "('a \<Rightarrow> bool) \<Rightarrow> ('a \<Rightarrow> 'a) \<Rightarrow> 'a list \<Rightarrow> 'a list" where
  "update_first P f [] = []"
| "update_first P f (x # xs) = (if P x then f x # xs else x # update_first P f xs)"

definition set_health :: "string \<Rightarrow> (SourceHealth \<Rightarrow> SourceHealth) \<Rightarrow> HealthMap \<Rightarrow> HealthMap" where
  "set_health url f health = map_option (update_first (\<lambda>h. sh_url h = url) f) health"

type_synonym fs = "(path, string) hmap"

text \<open>
  The reply of the HTTP client to one request: failed, or a status, the announced length and the
  chunks of the body, each of which may fail to arrive. \<open>wr\<close> and \<open>mv\<close> say whether the temporary
  file can be written and renamed.
\<close>

record http_response =
  http_success :: bool
  http_length :: "nat option"
  http_chunks :: "string option list"

datatype FetchError =
    RequestFailed | HttpStatus | TooLong | BodyError | TooLongMidDownload | EmptyBody
  | WriteFailed | ReplaceFailed

fun read_body :: "string \<Rightarrow> string option list \<Rightarrow> FetchError + string" where
  "read_body body [] = Inr body"
| "read_body body (None # _) = Inl BodyError"
| "read_body body (Some chunk # rest) =
     (if length body + length chunk \<le> MAX_LIST_BYTES then read_body (body @ chunk) rest
      else Inl TooLongMidDownload)"

text \<open>A temporary file that could not be written is left out of the model: no operation reads it.\<close>

definition fetch_one ::
    "http_response option \<Rightarrow> bool \<Rightarrow> bool \<Rightarrow> path \<Rightarrow> fs \<Rightarrow> fs \<times> (FetchError + nat)" where
  "fetch_one reply wr mv dest files =
     (case reply of
        None \<Rightarrow> (files, Inl RequestFailed)
      | Some resp \<Rightarrow>
          if \<not> http_success resp then (files, Inl HttpStatus)
          else if (case http_length resp of Some len \<Rightarrow> MAX_LIST_BYTES < len | None \<Rightarrow> False)
          then (files, Inl TooLong)
          else case read_body [] (http_chunks resp) of
            Inl e \<Rightarrow> (files, Inl e)
          | Inr body \<Rightarrow>
              if body = [] then (files, Inl EmptyBody)
              else if \<not> wr then (files, Inl WriteFailed)
              else if \<not> mv then (files, Inl ReplaceFailed)
              else (hm_insert dest body files, Inr (length body)))"

text \<open>What the world does during a refresh: whether the directory and the client can be made, and
  per source the clock, the reply, the two file operations, and the text of an error.\<close>

record refresh_env =
  dir_ok :: bool
  client_ok :: bool
  env_now :: "string \<Rightarrow> int"
  env_reply :: "string \<Rightarrow> http_response option"
  env_write :: "string \<Rightarrow> bool"
  env_rename :: "string \<Rightarrow> bool"
  env_reason :: "FetchError \<Rightarrow> string"

definition refresh_one ::
    "Config \<Rightarrow> refresh_env \<Rightarrow> string \<Rightarrow> RefreshOutcome \<times> HealthMap \<times> fs \<Rightarrow> RefreshOutcome \<times> HealthMap \<times> fs" where
  "refresh_one cfg env url st =
     (case st of (outcome, health, files) \<Rightarrow>
        (let outcome = outcome\<lparr>attempted := attempted outcome + 1\<rparr>;
             now = env_now env url;
             health = set_health url (\<lambda>h. h\<lparr>last_attempt := Some now\<rparr>) health
         in case fetch_one (env_reply env url) (env_write env url) (env_rename env url)
                  (cached_list_path cfg url) files of
              (files, Inr bytes) \<Rightarrow>
                (outcome\<lparr>succeeded := succeeded outcome + 1\<rparr>,
                 set_health url (\<lambda>h. h\<lparr>last_success := Some now, sh_bytes := Some bytes,
                                      sh_state := Ok_state, sh_error := None\<rparr>) health,
                 files)
            | (files, Inl e) \<Rightarrow>
                (outcome\<lparr>failures := failures outcome @ [(url, env_reason env e)]\<rparr>,
                 set_health url (\<lambda>h. h\<lparr>sh_state := (if last_success h \<noteq> None then Stale else Error_state),
                                      sh_error := Some (env_reason env e)\<rparr>) health,
                 files)))"

definition refresh_sources ::
    "Config \<Rightarrow> refresh_env \<Rightarrow> HealthMap \<Rightarrow> fs \<Rightarrow> RefreshOutcome \<times> HealthMap \<times> fs" where
  "refresh_sources cfg env health files =
     (let all_fail = (\<lambda>reason. fold (\<lambda>url outcome. outcome\<lparr>attempted := attempted outcome + 1,
              failures := failures outcome @ [(url, reason)]\<rparr>) (b_sources (blocking cfg)) RefreshOutcome_default)
      in if \<not> dir_ok env then (all_fail ''list directory is not writable'', health, files)
         else if \<not> client_ok env then (all_fail ''HTTP client unavailable'', health, files)
         else fold (refresh_one cfg env) (b_sources (blocking cfg)) (RefreshOutcome_default, health, files))"

section \<open>Rebuilding\<close>

text \<open>\<open>read_to_string\<close> fails on a missing file and on one that is not UTF-8.\<close>

definition read_file :: "fs \<Rightarrow> path \<Rightarrow> string option" where
  "read_file files p =
     (case hm_get files p of
        None \<Rightarrow> None
      | Some s \<Rightarrow> if utf8_valid (map ch s) then Some s else None)"

text \<open>\<open>Path::file_name\<close> followed by the lossy conversion: the last component, the whole path when
  there is none.\<close>

definition file_name :: "path \<Rightarrow> string" where
  "file_name p =
     (case rev (filter (\<lambda>c. c \<noteq> [] \<and> c \<noteq> ''.'') (split_on CHR ''/'' p)) of
        [] \<Rightarrow> p
      | c # _ \<Rightarrow> if c = ''..'' then p else c)"

definition ingest_file :: "fs \<Rightarrow> path \<Rightarrow> bool \<Rightarrow> Blocklist \<Rightarrow> Blocklist \<times> nat option" where
  "ingest_file files p is_allow bl =
     (case read_file files p of
        None \<Rightarrow> (bl, None)
      | Some contents \<Rightarrow> (let (bl', n) = ingest contents (file_name p) is_allow bl in (bl', Some n)))"

definition build_source :: "Config \<Rightarrow> fs \<Rightarrow> string \<Rightarrow> Blocklist \<Rightarrow> Blocklist" where
  "build_source cfg files url bl =
     (case read_file files (cached_list_path cfg url) of
        None \<Rightarrow> bl
      | Some contents \<Rightarrow> fst (ingest contents url False bl))"

definition build :: "Config \<Rightarrow> fs \<Rightarrow> Blocklist" where
  "build cfg files =
     (if \<not> b_enabled (blocking cfg) then Blocklist_default
      else
        let bl = fold (build_source cfg files) (b_sources (blocking cfg)) Blocklist_default;
            bl = fold (\<lambda>file bl. fst (ingest_file files file False bl)) (b_files (blocking cfg)) bl;
            bl = fst (ingest_file files (manual_deny_path cfg) False bl)
        in fst (ingest_file files (manual_allow_path cfg) True bl))"

section \<open>Matching\<close>

text \<open>A rule for \<open>r\<close> covers \<open>r\<close> itself and every name beneath it.\<close>

definition beneath :: "string \<Rightarrow> string \<Rightarrow> bool" where
  "beneath d r \<longleftrightarrow> (\<exists>p. d = p @ ''.'' @ r)"

definition covers :: "string \<Rightarrow> string \<Rightarrow> bool" where
  "covers r d \<longleftrightarrow> r = d \<or> r \<noteq> [] \<and> beneath d r"

lemma after_dot_iff: "after_dot d = Some r \<longleftrightarrow> (\<exists>p. CHR ''.'' \<notin> set p \<and> d = p @ ''.'' @ r)"
proof (induction d)
  case (Cons c d)
  then show ?case
    by (auto simp: Cons_eq_append_conv)
qed simp

lemma after_dot_None: "after_dot d = None \<longleftrightarrow> CHR ''.'' \<notin> set d"
  by (induction d) auto

lemma beneath_step: "beneath d r \<longleftrightarrow> (\<exists>t. after_dot d = Some t \<and> (r = t \<or> beneath t r))"
proof
  assume "beneath d r"
  then obtain p where p: "d = p @ ''.'' @ r" by (auto simp: beneath_def)
  show "\<exists>t. after_dot d = Some t \<and> (r = t \<or> beneath t r)"
  proof (cases "CHR ''.'' \<in> set p")
    case True
    then obtain q s where "p = q @ CHR ''.'' # s" "CHR ''.'' \<notin> set q" by (metis split_list_first)
    then show ?thesis unfolding after_dot_iff beneath_def
      by (intro exI [of _ "s @ ''.'' @ r"]) (auto simp: p)
  qed (use p in \<open>auto simp: after_dot_iff\<close>)
next
  assume "\<exists>t. after_dot d = Some t \<and> (r = t \<or> beneath t r)"
  then show "beneath d r"
    by (auto simp: after_dot_iff beneath_def)
qed

lemma not_beneath_nil: "\<not> beneath [] r"
  by (simp add: beneath_def)

lemma allowed_above_iff: "allowed_above aw d \<longleftrightarrow> (\<exists>r. r \<in> set aw \<and> r \<noteq> [] \<and> beneath d r)"
proof (induction aw d rule: allowed_above.induct)
  case (1 aw d)
  show ?case
  proof (cases "after_dot d")
    case None
    then show ?thesis by (simp add: allowed_above.simps [of aw d] beneath_step [of d])
  next
    case (Some t)
    with 1 show ?thesis
      by (auto simp: allowed_above.simps [of aw d] beneath_step [of d] not_beneath_nil)
  qed
qed

lemma wildcard_above_None:
  "wildcard_above m d = None \<longleftrightarrow> (\<forall>r. r \<noteq> [] \<and> beneath d r \<longrightarrow> hm_get m r = None)"
proof (induction m d rule: wildcard_above.induct)
  case (1 m d)
  show ?case
  proof (cases "after_dot d")
    case None
    then show ?thesis by (simp add: wildcard_above.simps [of m d] beneath_step [of d])
  next
    case (Some t)
    with 1 show ?thesis
      by (auto simp: wildcard_above.simps [of m d] beneath_step [of d] not_beneath_nil split: option.splits)
  qed
qed

lemma wildcard_above_Some:
  "wildcard_above m d = Some i \<Longrightarrow> \<exists>r. r \<noteq> [] \<and> beneath d r \<and> hm_get m r = Some i"
proof (induction m d rule: wildcard_above.induct)
  case (1 m d)
  then show ?case
    by (auto simp: wildcard_above.simps [of m d] beneath_step [of d] split: option.splits if_splits)
qed

lemma is_allowed_iff:
  "is_allowed bl d \<longleftrightarrow> d \<in> set (allow bl) \<or> (\<exists>r \<in> set (allow_wildcards bl). covers r d)"
  by (auto simp: is_allowed_def allowed_above_iff covers_def)

text \<open>
  What is blocked: a name is blocked exactly when no allow rule covers it and it is listed itself
  or a wildcard rule covers it, where a rule \<open>*.r\<close> covers \<open>r\<close> and every name that ends in \<open>.r\<close>, and
  nothing else. So an allow rule overrides every block rule.
\<close>

lemma lookup_exact:
  "lookup bl d \<noteq> None \<longleftrightarrow>
     \<not> (d \<in> set (allow bl) \<or> (\<exists>r. r \<in> set (allow_wildcards bl) \<and> covers r d)) \<and>
     (hm_get (exact bl) d \<noteq> None \<or> (\<exists>r. covers r d \<and> hm_get (wildcards bl) r \<noteq> None))"
proof -
  have "hm_get (wildcards bl) d \<noteq> None \<or> wildcard_above (wildcards bl) d \<noteq> None \<longleftrightarrow>
      (\<exists>r. covers r d \<and> hm_get (wildcards bl) r \<noteq> None)"
    by (auto simp: wildcard_above_None covers_def)
  then show ?thesis by (auto simp: lookup_def is_allowed_iff split: option.splits)
qed

section \<open>Normal form\<close>

definition valid_domain :: "string \<Rightarrow> bool" where
  "valid_domain d \<longleftrightarrow> d \<noteq> [] \<and> length d \<le> 253 \<and> CHR ''.'' \<in> set d \<and> parse_ip d = None \<and>
     list_all label_ok (split_on CHR ''.'' d) \<and> list_all (\<lambda>c. \<not> is_ascii_upper c) d"

lemma split_on_snoc: "split_on c (s @ [c]) = split_on c s @ [[]]"
  by (induction s) (auto split: list.splits)

lemma valid_domain_chars:
  "valid_domain d \<Longrightarrow> x \<in> set d \<Longrightarrow> is_ascii_alphanumeric x \<or> x = CHR ''-'' \<or> x = CHR ''_'' \<or> x = CHR ''.''"
  using split_on_set [of x d "CHR ''.''"]
  by (fastforce simp: valid_domain_def label_ok_def list_all_iff)

lemma valid_domain_graphic: "valid_domain d \<Longrightarrow> list_all graphic d"
  using valid_domain_chars [of d] alphanumeric_graphic
  by (fastforce simp: list_all_iff graphic_def)

lemma valid_domain_last: "valid_domain d \<Longrightarrow> last d \<noteq> CHR ''.''"
proof
  assume v: "valid_domain d" "last d = CHR ''.''"
  then have "d = butlast d @ [CHR ''.'']" by (metis append_butlast_last_id valid_domain_def)
  then have "[] \<in> set (split_on CHR ''.'' d)" by (metis split_on_snoc in_set_conv_decomp)
  with v(1) show False by (auto simp: valid_domain_def label_ok_def list_all_iff)
qed

lemma valid_domain_star: "valid_domain d \<Longrightarrow> CHR ''*'' \<notin> set d"
  using valid_domain_chars [of d "CHR ''*''"] by (auto simp: str_eval)

lemma normalize_valid:
  assumes "normalize e = Some r"
  shows "\<exists>d. valid_domain d \<and> (r = Exact d \<or> r = Wildcard d)"
proof -
  let ?e = "to_ascii_lowercase (trim_end_matches CHR ''.'' (trim e))"
  have low: "list_all (\<lambda>c. \<not> is_ascii_upper c) ?e" by (auto simp: list_all_iff dest: lowercase_not_upper)
  then have "list_all (\<lambda>c. \<not> is_ascii_upper c) s" if "strip_prefix ''*.'' ?e = Some s" for s
    using that by (auto simp: strip_prefix_def list_all_iff split: if_splits dest: in_set_dropD)
  with low assms show ?thesis
    by (auto simp: normalize_def valid_domain_def Let_def not_less split: option.splits if_splits)
qed

lemma normalize_exact_valid: "valid_domain d \<Longrightarrow> normalize d = Some (Exact d)"
proof -
  assume v: "valid_domain d"
  have "strip_prefix ''*.'' d = None"
    using valid_domain_star [OF v] v by (cases d) (auto simp: strip_prefix_def)
  with v show ?thesis
    using valid_domain_last [OF v]
    by (simp add: normalize_def trim_graphic valid_domain_graphic trim_end_matches_noop lower_noop Let_def)
       (auto simp: valid_domain_def lower_noop)
qed

lemma normalize_wildcard_valid: "valid_domain d \<Longrightarrow> normalize (''*.'' @ d) = Some (Wildcard d)"
proof -
  assume v: "valid_domain d"
  then have low: "to_ascii_lowercase (''*.'' @ d) = ''*.'' @ d"
    by (intro lower_noop) (auto simp: valid_domain_def is_ascii_upper_def)
  have g: "list_all graphic (''*.'' @ d)" using valid_domain_graphic [OF v] by (simp add: graphic_def)
  have l: "last (''*.'' @ d) \<noteq> CHR ''.''" using valid_domain_last [OF v] v by (simp add: valid_domain_def)
  have "strip_prefix ''*.'' (''*.'' @ d) = Some d" by (simp add: strip_prefix_def)
  with v low g l show ?thesis
    by (simp add: normalize_def trim_graphic trim_end_matches_noop Let_def del: append_Cons)
       (auto simp: valid_domain_def)
qed

text \<open>
  Every rule that reaches the matcher is a plausible host name in canonical form: at most 253
  bytes, at least two labels of 1 to 63 letters, digits, hyphens or underscores, no upper case and
  not an IP literal. The canonical form is a fixed point: it normalises to the same rule.
\<close>

lemma normalize_canonical_rule:
  assumes "normalize e = Some r"
  shows "\<exists>d. valid_domain d \<and>
    (r = Exact d \<and> normalize d = Some r \<or> r = Wildcard d \<and> normalize (''*.'' @ d) = Some r)"
  using normalize_valid [OF assms] normalize_exact_valid normalize_wildcard_valid by metis

lemma parse_ip_nonhex:
  assumes "\<not> is_digit 16 c" "c \<noteq> CHR '':''"
  shows "parse_ip (c # s) = None"
proof -
  have "\<not> is_digit 10 c" using assms(1) by (simp add: is_digit_def)
  then have v4: "read_ipv4_addr (c # s) = None" by (simp add: read_ipv4_addr_def read_number_def)
  have "read_groups 0 (Suc n) (c # s) = ([], False, c # s)" for n
    using assms(1) v4 by (simp add: read_separator_def read_number_def)
  from this [of 7] have "read_groups 0 8 (c # s) = ([], False, c # s)" by simp
  then have "read_ipv6_addr (c # s) = None" using assms(2) by (simp add: read_ipv6_addr_def read_char_def)
  with v4 show ?thesis by (simp add: parse_ip_def)
qed

lemma normalize_demo: "normalize '' *.Tracker.Example. '' = Some (Wildcard ''tracker.example'')"
proof -
  have "trim '' *.Tracker.Example. '' = ''*.Tracker.Example.''"
    by (simp add: trim_def ws1_def ws2_def ws3_def)
  moreover have "parse_ip ''tracker.example'' = None"
    by (rule parse_ip_nonhex) (simp_all add: str_eval)
  ultimately show ?thesis
    by (simp add: normalize_def trim_end_matches_def strip_prefix_def label_ok_def Let_def str_eval)
qed

lemma normalize_canonical_rule_witness: "valid_domain ''tracker.example''"
  using normalize_canonical_rule [OF normalize_demo] by auto

section \<open>The invariant of the matcher\<close>

definition count_src :: "SourceId \<Rightarrow> (string, SourceId) hmap \<Rightarrow> nat" where
  "count_src i m = length (filter (\<lambda>(_, v). v = i) m)"

definition src_total :: "SourceId \<Rightarrow> Blocklist \<Rightarrow> nat" where
  "src_total i bl = count_src i (exact bl) + count_src i (wildcards bl)"

text \<open>What the parsers guarantee of the rule tables: canonical names, each listed once, whose source
  is one of \<open>ids\<close>.\<close>

definition rules_wf :: "SourceId set \<Rightarrow> Blocklist \<Rightarrow> bool" where
  "rules_wf ids bl \<longleftrightarrow> hm_ok (exact bl) \<and> hm_ok (wildcards bl) \<and>
     distinct (allow bl) \<and> distinct (allow_wildcards bl) \<and>
     (\<forall>(d, i) \<in> set (exact bl @ wildcards bl). valid_domain d \<and> i \<in> ids) \<and>
     (\<forall>d \<in> set (allow bl @ allow_wildcards bl). valid_domain d)"

text \<open>What adding rules of source \<open>s\<close> may do: no rule is lost or attributed anew, and every new one
  is attributed to \<open>s\<close>.\<close>

definition grows :: "SourceId \<Rightarrow> Blocklist \<Rightarrow> Blocklist \<Rightarrow> bool" where
  "grows s bl bl' \<longleftrightarrow> sources bl' = sources bl \<and>
     (\<forall>d i. hm_get (exact bl) d = Some i \<longrightarrow> hm_get (exact bl') d = Some i) \<and>
     (\<forall>d i. hm_get (wildcards bl) d = Some i \<longrightarrow> hm_get (wildcards bl') d = Some i) \<and>
     set (allow bl) \<subseteq> set (allow bl') \<and> set (allow_wildcards bl) \<subseteq> set (allow_wildcards bl') \<and>
     bl_len bl \<le> bl_len bl' \<and>
     (\<forall>i. src_total i bl' = src_total i bl + (if i = s then bl_len bl' - bl_len bl else 0))"

lemma grows_refl: "grows s bl bl"
  by (simp add: grows_def)

lemma grows_trans: "grows s a b \<Longrightarrow> grows s b c \<Longrightarrow> grows s a c"
  by (auto simp: grows_def)

lemma update_absent: "k \<notin> fst ` set m \<Longrightarrow> AList.update k v m = m @ [(k, v)]"
  by (induction m) auto

lemma or_insert_absent: "hm_get m k = None \<Longrightarrow> hm_or_insert k v m = m @ [(k, v)]"
  by (simp add: hm_or_insert_def hm_insert_def update_absent hm_get_None_iff [symmetric])

lemma or_insert_present: "hm_get m k = Some w \<Longrightarrow> hm_or_insert k v m = m"
  by (simp add: hm_or_insert_def)

lemma or_insert_cases:
  obtains "hm_or_insert k v m = m" | "hm_get m k = None" "hm_or_insert k v m = m @ [(k, v)]"
  using or_insert_absent or_insert_present by (metis option.exhaust)

lemma count_src_append [simp]: "count_src i (a @ b) = count_src i a + count_src i b"
  by (simp add: count_src_def)

lemma count_src_single [simp]: "count_src i [(k, v)] = (if v = i then 1 else 0)"
  by (simp add: count_src_def)

lemma grows_exact: "grows s bl (bl\<lparr>exact := hm_or_insert d s (exact bl)\<rparr>)"
proof (cases rule: or_insert_cases [of d s "exact bl"])
  case 2
  then show ?thesis
    using hm_get_or_insert [of d s "exact bl"] by (auto simp: grows_def src_total_def bl_len_def)
qed (simp add: grows_refl)

lemma grows_wildcards: "grows s bl (bl\<lparr>wildcards := hm_or_insert d s (wildcards bl)\<rparr>)"
proof (cases rule: or_insert_cases [of d s "wildcards bl"])
  case 2
  then show ?thesis
    using hm_get_or_insert [of d s "wildcards bl"] by (auto simp: grows_def src_total_def bl_len_def)
qed (simp add: grows_refl)

lemma set_or_insert: "set (hm_or_insert k v m) \<subseteq> insert (k, v) (set m)"
  by (cases rule: or_insert_cases [of k v m]) auto

lemma rules_wf_exact:
  assumes "rules_wf ids bl" "valid_domain d" "s \<in> ids"
  shows "rules_wf ids (bl\<lparr>exact := hm_or_insert d s (exact bl)\<rparr>)"
  using assms set_or_insert [of d s "exact bl"] hm_ok_or_insert [of "exact bl" d s]
  by (fastforce simp: rules_wf_def)

lemma rules_wf_wildcards:
  assumes "rules_wf ids bl" "valid_domain d" "s \<in> ids"
  shows "rules_wf ids (bl\<lparr>wildcards := hm_or_insert d s (wildcards bl)\<rparr>)"
  using assms set_or_insert [of d s "wildcards bl"] hm_ok_or_insert [of "wildcards bl" d s]
  by (fastforce simp: rules_wf_def)

text \<open>Both facts together, for one operation.\<close>

definition adds :: "SourceId \<Rightarrow> SourceId set \<Rightarrow> Blocklist \<Rightarrow> Blocklist \<Rightarrow> bool" where
  "adds s ids bl bl' \<longleftrightarrow> grows s bl bl' \<and> (rules_wf ids bl \<longrightarrow> rules_wf ids bl')"

lemma adds_refl: "adds s ids bl bl"
  by (simp add: adds_def grows_refl)

lemma adds_trans: "adds s ids a b \<Longrightarrow> adds s ids b c \<Longrightarrow> adds s ids a c"
  by (auto simp: adds_def intro: grows_trans)

lemma adds_fold: "(\<And>x b. x \<in> set xs \<Longrightarrow> adds s ids b (f x b)) \<Longrightarrow> adds s ids bl (fold f xs bl)"
  by (induction xs arbitrary: bl) (auto intro: adds_refl adds_trans)

lemma add_block_adds: "s \<in> ids \<Longrightarrow> adds s ids bl (add_block e s bl)"
  using normalize_valid [of e]
  by (auto simp: add_block_def adds_def grows_exact grows_wildcards rules_wf_exact rules_wf_wildcards grows_refl
      split: option.splits Entry.splits)

lemma add_allow_adds: "adds s ids bl (add_allow e bl)"
  using normalize_valid [of e]
  by (auto simp: add_allow_def adds_def grows_def rules_wf_def src_total_def bl_len_def hs_insert_distinct
      split: option.splits Entry.splits)

lemma add_entry_adds: "al \<or> s \<in> ids \<Longrightarrow> adds s ids bl (add_entry al s e bl)"
  by (auto simp: add_entry_def add_block_adds add_allow_adds)

lemma ingest_line_adds: "al \<or> s \<in> ids \<Longrightarrow> adds s ids bl (ingest_line al s raw bl)"
  by (auto simp: ingest_line_def Let_def add_block_adds add_allow_adds add_entry_adds adds_refl
      split: option.splits AdblockRule.splits list.splits intro!: adds_fold)

text \<open>An allow list adds no block rule.\<close>

definition same_blocks :: "Blocklist \<Rightarrow> Blocklist \<Rightarrow> bool" where
  "same_blocks a b \<longleftrightarrow> exact b = exact a \<and> wildcards b = wildcards a"

lemma add_allow_same: "same_blocks bl (add_allow e bl)"
  by (auto simp: same_blocks_def add_allow_def split: option.splits Entry.splits)

lemma same_fold: "(\<And>x b. same_blocks b (f x b)) \<Longrightarrow> same_blocks bl (fold f xs bl)"
  by (induction xs arbitrary: bl) (simp_all add: same_blocks_def)

lemma allow_line_same: "same_blocks bl (ingest_line True s raw bl)"
proof -
  have "same_blocks b b" for b by (simp add: same_blocks_def)
  then show ?thesis
    by (auto simp: ingest_line_def Let_def add_allow_same add_entry_def
        split: option.splits AdblockRule.splits list.splits intro!: same_fold)
qed

definition blocklist_wf :: "Blocklist \<Rightarrow> bool" where
  "blocklist_wf bl \<longleftrightarrow> rules_wf {i. unat i < length (sources bl)} bl \<and>
     length (sources bl) \<le> 65535 \<and> distinct (map ss_name (sources bl)) \<and>
     (\<forall>i. unat i < length (sources bl) \<longrightarrow> ss_entries (sources bl ! unat i) = src_total i bl)"

lemma rules_wf_mono: "rules_wf ids bl \<Longrightarrow> ids \<subseteq> ids' \<Longrightarrow> rules_wf ids' bl"
  by (auto simp: rules_wf_def)

lemma rules_wf_sources [simp]: "rules_wf ids (bl\<lparr>sources := x\<rparr>) = rules_wf ids bl"
  by (simp add: rules_wf_def)

lemma position_Some: "position P xs = Some i \<Longrightarrow> i < length xs \<and> P (xs ! i)"
  by (induction xs arbitrary: i) (auto split: if_splits)

lemma position_None: "position P xs = None \<longleftrightarrow> (\<forall>x \<in> set xs. \<not> P x)"
  by (induction xs) auto

lemma unat_small: "n < 65535 \<Longrightarrow> unat (word_of_nat n :: u16) = n"
  by (simp add: unat_of_nat)

lemma count_src_zero: "\<forall>(_, i) \<in> set m. i \<noteq> j \<Longrightarrow> count_src j m = 0"
  by (auto simp: count_src_def filter_empty_conv)

lemma intern_cases:
  assumes "intern name bl = (bl', i)"
  obtains (old) j where "j < length (sources bl)" "ss_name (sources bl ! j) = name" "bl' = bl" "i = word_of_nat j"
    | (full) "65535 \<le> length (sources bl)" "name \<notin> ss_name ` set (sources bl)" "bl' = bl" "i = 65534"
    | (new) "length (sources bl) < 65535" "name \<notin> ss_name ` set (sources bl)"
        "bl' = bl\<lparr>sources := sources bl @ [\<lparr>ss_name = name, ss_entries = 0\<rparr>]\<rparr>"
        "i = word_of_nat (length (sources bl))"
proof (cases "position (\<lambda>s. ss_name s = name) (sources bl)")
  case None
  then have "name \<notin> ss_name ` set (sources bl)" by (auto simp: position_None)
  with None assms show ?thesis
    by (cases "65535 \<le> length (sources bl)") (auto simp: intern_def Let_def intro: full new)
next
  case (Some j)
  with assms position_Some [OF Some] show ?thesis by (intro old [of j]) (auto simp: intern_def)
qed

lemma wf_new_source:
  assumes "blocklist_wf bl" "length (sources bl) < 65535" "name \<notin> ss_name ` set (sources bl)"
  shows "blocklist_wf (bl\<lparr>sources := sources bl @ [\<lparr>ss_name = name, ss_entries = 0\<rparr>]\<rparr>)" (is "blocklist_wf ?b")
proof -
  have wf: "rules_wf {i. unat i < length (sources bl)} bl" using assms(1) by (simp add: blocklist_wf_def)
  then have zero: "src_total j bl = 0" if "\<not> unat j < length (sources bl)" for j
    using that by (auto simp: rules_wf_def src_total_def intro!: count_src_zero)
  have rules: "rules_wf {i. unat i < length (sources ?b)} ?b"
    using wf by (simp add: rules_wf_mono [of "{i. unat i < length (sources bl)}"] Collect_mono)
  have tot: "src_total j ?b = src_total j bl" for j by (simp add: src_total_def)
  have "ss_entries (sources ?b ! unat j) = src_total j ?b" if "unat j < length (sources ?b)" for j
    using that zero [of j] assms(1) by (auto simp: tot blocklist_wf_def nth_append less_Suc_eq)
  with rules assms show ?thesis by (simp add: blocklist_wf_def)
qed

lemma intern_spec:
  assumes "blocklist_wf bl" "intern name bl = (bl', i)"
  shows "blocklist_wf bl'" "unat i < length (sources bl')" "bl_len bl' = bl_len bl"
    "exact bl' = exact bl" "wildcards bl' = wildcards bl" "allow bl' = allow bl"
    "allow_wildcards bl' = allow_wildcards bl"
    "length (sources bl) < 65535 \<or> name \<in> ss_name ` set (sources bl) \<Longrightarrow> source_name bl' i = name"
    "take (length (sources bl)) (sources bl') = sources bl"
proof -
  have len: "length (sources bl) \<le> 65535" using assms(1) by (simp add: blocklist_wf_def)
  have "blocklist_wf bl' \<and> unat i < length (sources bl') \<and> bl_len bl' = bl_len bl \<and>
    exact bl' = exact bl \<and> wildcards bl' = wildcards bl \<and> allow bl' = allow bl \<and>
    allow_wildcards bl' = allow_wildcards bl \<and> take (length (sources bl)) (sources bl') = sources bl \<and>
    (length (sources bl) < 65535 \<or> name \<in> ss_name ` set (sources bl) \<longrightarrow> source_name bl' i = name)"
    using assms(2)
  proof (cases rule: intern_cases)
    case (old j)
    then have "unat i = j" using len by (simp add: unat_small)
    with old assms(1) show ?thesis by (simp add: source_name_def)
  next
    case full
    then have "unat i = 65534" by simp
    with full assms(1) show ?thesis by simp
  next
    case new
    then have "unat i = length (sources bl)" by (simp add: unat_small)
    moreover have "blocklist_wf bl'" using new wf_new_source [OF assms(1)] by simp
    ultimately show ?thesis using new by (simp add: source_name_def bl_len_def)
  qed
  then show "blocklist_wf bl'" "unat i < length (sources bl')" "bl_len bl' = bl_len bl"
    "exact bl' = exact bl" "wildcards bl' = wildcards bl" "allow bl' = allow bl"
    "allow_wildcards bl' = allow_wildcards bl"
    "length (sources bl) < 65535 \<or> name \<in> ss_name ` set (sources bl) \<Longrightarrow> source_name bl' i = name"
    "take (length (sources bl)) (sources bl') = sources bl" by auto
qed

lemma ingest_block:
  assumes "blocklist_wf bl" "ingest contents name False bl = (bl', n)"
  obtains i bl1 bl2 where "intern name bl = (bl1, i)" "blocklist_wf bl1" "unat i < length (sources bl1)"
    "adds i {i. unat i < length (sources bl1)} bl1 bl2" "n = bl_len bl2 - bl_len bl1"
    "bl2 = fold (ingest_line False i) (lines contents) bl1"
    "bl' = bl2\<lparr>sources := (sources bl1)[unat i := (sources bl1 ! unat i)\<lparr>ss_entries :=
       ss_entries (sources bl1 ! unat i) + n\<rparr>]\<rparr>"
proof -
  obtain bl1 i where it: "intern name bl = (bl1, i)" by fastforce
  note sp = intern_spec [OF assms(1) it]
  define bl2 where "bl2 = fold (ingest_line False i) (lines contents) bl1"
  have ad: "adds i {i. unat i < length (sources bl1)} bl1 bl2"
    unfolding bl2_def using sp(2) by (intro adds_fold ingest_line_adds) simp
  then have "sources bl2 = sources bl1" by (simp add: adds_def grows_def)
  then show ?thesis
    using assms(2) sp it ad
    by (intro that [of bl1 i bl2]) (auto simp: ingest_def bl2_def [symmetric] rule_count_def Let_def)
qed

lemma wf_count_source:
  assumes "blocklist_wf bl1" "unat i < length (sources bl1)"
    "adds i {i. unat i < length (sources bl1)} bl1 bl2"
  shows "blocklist_wf (bl2\<lparr>sources := (sources bl1)[unat i := (sources bl1 ! unat i)\<lparr>ss_entries :=
       ss_entries (sources bl1 ! unat i) + (bl_len bl2 - bl_len bl1)\<rparr>]\<rparr>)" (is "blocklist_wf ?b")
proof -
  have tot: "src_total j bl2 = src_total j bl1 + (if j = i then bl_len bl2 - bl_len bl1 else 0)" for j
    using assms(3) by (simp add: adds_def grows_def)
  have "src_total j ?b = src_total j bl2" for j by (simp add: src_total_def)
  then have "ss_entries (sources ?b ! unat j) = src_total j ?b" if "unat j < length (sources ?b)" for j
    using that assms(1,2) tot [of j]
    by (cases "j = i") (auto simp: blocklist_wf_def nth_list_update word_unat_eq_iff [symmetric])
  moreover have "map ss_name (sources ?b) = map ss_name (sources bl1)"
    using assms(2) by (auto simp: map_update intro: list_update_same_conv [THEN iffD2])
  moreover have "rules_wf {i. unat i < length (sources bl1)} bl2"
    using assms(1,3) by (simp add: adds_def blocklist_wf_def)
  ultimately show ?thesis using assms(1) by (simp add: blocklist_wf_def)
qed

lemma ingest_allow:
  assumes "ingest contents name True bl = (bl', n)"
  shows "bl' = fold (ingest_line True 0) (lines contents) bl" "adds 0 ids bl bl'" "same_blocks bl bl'"
proof -
  show "bl' = fold (ingest_line True 0) (lines contents) bl"
    using assms by (simp add: ingest_def Let_def)
  then show "adds 0 ids bl bl'" "same_blocks bl bl'"
    by (auto intro!: adds_fold ingest_line_adds same_fold allow_line_same)
qed

lemma ingest_wf [wf_intros]: "blocklist_wf bl \<Longrightarrow> blocklist_wf (fst (ingest contents name al bl))"
proof (cases "ingest contents name al bl")
  case (Pair bl' n)
  assume wf: "blocklist_wf bl"
  show ?thesis
  proof (cases al)
    case True
    with Pair have a: "adds 0 {i. unat i < length (sources bl)} bl bl'" "same_blocks bl bl'"
      using ingest_allow(2,3) [of contents name bl bl' n] by auto
    then show ?thesis
      using wf Pair by (auto simp: blocklist_wf_def adds_def grows_def same_blocks_def src_total_def)
  next
    case False
    with Pair have "ingest contents name False bl = (bl', n)" by simp
    with wf show ?thesis
      by (rule ingest_block) (simp add: Pair wf_count_source)
  qed
qed

lemma ingest_file_wf [wf_intros]: "blocklist_wf bl \<Longrightarrow> blocklist_wf (fst (ingest_file fs p al bl))"
  using ingest_wf by (auto simp: ingest_file_def split: option.splits prod.splits) (metis fst_conv)

lemma build_source_wf [wf_intros]: "blocklist_wf bl \<Longrightarrow> blocklist_wf (build_source cfg fs url bl)"
  by (auto simp: build_source_def wf_intros split: option.splits)

lemma default_wf [wf_intros]: "blocklist_wf Blocklist_default"
  by (simp add: blocklist_wf_def Blocklist_default_def rules_wf_def src_total_def hm.inv_empty)

lemma fold_wf: "(\<And>x b. blocklist_wf b \<Longrightarrow> blocklist_wf (f x b)) \<Longrightarrow> blocklist_wf bl \<Longrightarrow> blocklist_wf (fold f xs bl)"
  by (induction xs arbitrary: bl) auto

lemma build_wf: "blocklist_wf (build cfg fs)"
  by (auto simp: build_def Let_def intro!: wf_intros fold_wf)

section \<open>Properties\<close>

text \<open>
  C24. The matcher built from the configured lists is well formed whatever the files contain: every
  rule is canonical and listed once, source labels are distinct, every rule's source is a registered
  one, and the entry count shown for a source is exactly the number of rules attributed to it. In
  particular a blocked name is always reported with the name of a registered list, never as unknown.
\<close>

theorem build_well_formed:
  "blocklist_wf (build cfg fs) \<and>
   (\<forall>d name. lookup (build cfg fs) d = Some name \<longrightarrow> name \<in> ss_name ` set (sources (build cfg fs)))"
proof -
  have "name \<in> ss_name ` set (sources bl)" if wf: "blocklist_wf bl" and lk: "lookup bl d = Some name" for bl d name
  proof -
    obtain r i where "hm_get (exact bl) r = Some i \<or> hm_get (wildcards bl) r = Some i" "name = source_name bl i"
      using lk by (auto simp: lookup_def dest!: wildcard_above_Some split: option.splits if_splits)
    moreover from this have "unat i < length (sources bl)"
      using wf by (auto simp: blocklist_wf_def rules_wf_def dest!: hm_get_in_set)
    ultimately show ?thesis by (simp add: source_name_def)
  qed
  then show ?thesis using build_wf by blast
qed

text \<open>
  Loading a block list: the reported number is exactly the growth of the rule tables; no rule
  that was there is lost or attributed anew, so the first list to name a domain keeps it; a domain
  that is new is attributed to this list (as long as the 16-bit table of names has room).
\<close>

lemma ingest_attribution:
  assumes "blocklist_wf bl" "ingest contents name False bl = (bl', n)" "length (sources bl) < 65535"
  shows "blocklist_wf bl' \<and> bl_len bl' = bl_len bl + n \<and>
    (\<forall>d i. hm_get (exact bl) d = Some i \<longrightarrow> hm_get (exact bl') d = Some i \<and> source_name bl' i = source_name bl i) \<and>
    (\<forall>d i. hm_get (wildcards bl) d = Some i \<longrightarrow> hm_get (wildcards bl') d = Some i \<and> source_name bl' i = source_name bl i) \<and>
    (\<exists>i. source_name bl' i = name \<and>
      (\<forall>j. src_total j bl' = src_total j bl + (if j = i then n else 0)))"
proof -
  obtain i bl1 bl2 where b: "intern name bl = (bl1, i)" "blocklist_wf bl1" "unat i < length (sources bl1)"
    "adds i {i. unat i < length (sources bl1)} bl1 bl2" "n = bl_len bl2 - bl_len bl1"
    "bl' = bl2\<lparr>sources := (sources bl1)[unat i := (sources bl1 ! unat i)\<lparr>ss_entries :=
       ss_entries (sources bl1 ! unat i) + n\<rparr>]\<rparr>"
    using ingest_block [OF assms(1,2)] by metis
  note it = intern_spec [OF assms(1) b(1)]
  have g: "grows i bl1 bl2" using b(4) by (simp add: adds_def)
  have nm: "source_name bl' j = source_name bl1 j" for j
    using b(3) by (simp add: b(6) source_name_def nth_list_update)
  have old: "source_name bl1 j = source_name bl j" if "unat j < length (sources bl)" for j
    using that it(9) by (metis length_take min_less_iff_conj nth_take source_name_def)
  have idx: "unat j < length (sources bl)" if "hm_get (exact bl) d = Some j \<or> hm_get (wildcards bl) d = Some j" for d j
    using that assms(1) by (auto simp: blocklist_wf_def rules_wf_def dest!: hm_get_in_set)
  have keep: "hm_get (exact bl) d = Some j \<Longrightarrow> hm_get (exact bl') d = Some j"
    "hm_get (wildcards bl) d = Some j \<Longrightarrow> hm_get (wildcards bl') d = Some j" for d j
    using g it(4,5) by (auto simp: b(6) grows_def)
  have "src_total j bl' = src_total j bl + (if j = i then n else 0)" for j
    using g b(5) it(4,5) by (simp add: b(6) grows_def src_total_def)
  moreover have "source_name bl' i = name" using it(8) assms(3) nm by simp
  moreover have "bl_len bl' = bl_len bl + n"
    using g it(3) b(5) by (simp add: b(6) grows_def bl_len_def)
  moreover have "blocklist_wf bl'" using ingest_wf [OF assms(1), of contents name False] assms(2) by simp
  ultimately show ?thesis using keep nm old idx by metis
qed

lemma demo_domain: "valid_domain ''tracker.example''"
  using normalize_valid [OF normalize_demo] by auto

definition demo_list :: string where
  "demo_list = ''# ads\<newline>0.0.0.0 tracker.example localhost\<newline>||tracker.example^\<newline>''"

lemma demo_lines: "lines demo_list = [''# ads'', ''0.0.0.0 tracker.example localhost'', ''||tracker.example^'']"
  by (simp add: demo_list_def lines_def strip_cr_def)

lemma demo_s1: "strip_comment ''# ads'' = []" by (simp add: strip_comment_def trim_def)

lemma demo_s2: "strip_comment ''0.0.0.0 tracker.example localhost'' = ''0.0.0.0 tracker.example localhost''"
  by (simp add: strip_comment_def trim_ends_graphic graphic_def)

lemma demo_s3: "strip_comment ''||tracker.example^'' = ''||tracker.example^''"
  by (simp add: strip_comment_def trim_ends_graphic graphic_def)

lemma demo_w2: "split_whitespace ''0.0.0.0 tracker.example localhost'' = [''0.0.0.0'', ''tracker.example'', ''localhost'']"
  by (simp add: split_whitespace_def ws1_def ws2_def ws3_def)

lemma demo_a2: "parse_adblock ''0.0.0.0 tracker.example localhost'' = None" by (simp add: parse_adblock_def strip_prefix_def starts_with_def)

lemma demo_a3: "parse_adblock ''||tracker.example^'' = Some (Block ''tracker.example'')" by (simp add: parse_adblock_def strip_prefix_def starts_with_def)

lemma demo_l2: "is_local_name ''localhost''" "\<not> is_local_name ''tracker.example''" by (simp_all add: is_local_name_def eq_ignore_ascii_case_def str_eval)

lemma demo_ingest:
  "ingest demo_list ''demo'' False Blocklist_default =
     (\<lparr>exact = [(''tracker.example'', 0)], wildcards = [(''tracker.example'', 0)], allow = [],
       allow_wildcards = [], sources = [\<lparr>ss_name = ''demo'', ss_entries = 2\<rparr>]\<rparr>, 2)"
  using normalize_exact_valid [OF demo_domain] normalize_wildcard_valid [OF demo_domain]
  by (simp add: ingest_def intern_def ingest_line_def demo_lines Blocklist_default_def demo_s1 demo_s2 demo_s3 demo_w2 demo_a2 demo_a3 demo_l2 add_entry_def add_block_def rule_count_def bl_len_def Let_def is_hosts_addr_def hm_defs)

lemma ingest_attribution_witness:
  "bl_len (fst (ingest demo_list ''demo'' False Blocklist_default)) = 2"
  using ingest_attribution [OF default_wf demo_ingest]
  by (simp add: demo_ingest) (simp add: Blocklist_default_def bl_len_def)

lemma lookup_exact_witness:
  "lookup (fst (ingest demo_list ''demo'' False Blocklist_default)) ''ads.tracker.example'' \<noteq> None"
  using lookup_exact [of "fst (ingest demo_list ''demo'' False Blocklist_default)" "''ads.tracker.example''"]
  by (simp add: demo_ingest covers_def beneath_def hm_get_def)

theorem build_well_formed_witness: "lookup (build Config_default []) ''a.b'' \<noteq> Some ''unknown''"
proof
  assume "lookup (build Config_default []) ''a.b'' = Some ''unknown''"
  then have "''unknown'' \<in> ss_name ` set (sources (build Config_default []))"
    using build_well_formed [of Config_default "[]"] by blast
  moreover have "sources (build Config_default []) = []"
    by (simp add: build_def build_source_def ingest_file_def read_file_def hm_simps Config_default_def
        BlockingConfig_default_def Blocklist_default_def)
  ultimately show False by simp
qed

lemma dns_char_facts:
  assumes "is_ascii_alphanumeric x \<or> x = CHR ''-'' \<or> x = CHR ''_'' \<or> x = CHR ''.''"
  shows "graphic x" "x \<notin> set ''#!^$/|@[''"
  using assms alphanumeric_graphic by (auto simp: str_eval)

lemma strip_comment_noop:
  "list_all graphic s \<Longrightarrow> CHR ''#'' \<notin> set s \<Longrightarrow> CHR ''!'' \<notin> set s \<Longrightarrow> strip_comment s = s"
proof -
  assume a: "list_all graphic s" "CHR ''#'' \<notin> set s" "CHR ''!'' \<notin> set s"
  then have "takeWhile (\<lambda>c. c \<noteq> CHR ''#'' \<and> c \<noteq> CHR ''!'') s = s"
    by (auto simp: takeWhile_eq_all_conv)
  then show ?thesis unfolding strip_comment_def by (simp only: trim_graphic [OF a(1)])
qed

lemma valid_domain_no:
  assumes "valid_domain d"
  shows "CHR ''#'' \<notin> set d" "CHR ''!'' \<notin> set d" "CHR ''^'' \<notin> set d" "CHR ''$'' \<notin> set d"
    "CHR ''/'' \<notin> set d" "CHR ''|'' \<notin> set d" "CHR ''@'' \<notin> set d" "CHR ''['' \<notin> set d"
  using valid_domain_chars [OF assms] dns_char_facts(2) by fastforce+

lemma parse_adblock_domain: "valid_domain d \<Longrightarrow> parse_adblock d = None"
  using valid_domain_no [of d] by (cases d) (auto simp: parse_adblock_def starts_with_def strip_prefix_def)

lemma adblock_tail:
  assumes "valid_domain d"
  shows "takeWhile (\<lambda>c. c \<notin> set ''^$/'') (d @ ''^'') = d" "dropWhile (\<lambda>c. c \<notin> set ''^$/'') (d @ ''^'') = ''^''"
  using valid_domain_no [OF assms] by (auto simp: takeWhile_append dropWhile_append)

lemma parse_adblock_block: "valid_domain d \<Longrightarrow> parse_adblock (''||'' @ d @ ''^'') = Some (Block d)"
  using adblock_tail [of d] valid_domain_star [of d]
  by (auto simp: parse_adblock_def starts_with_def strip_prefix_def valid_domain_def)

lemma parse_adblock_exception: "valid_domain d \<Longrightarrow> parse_adblock (''@@||'' @ d @ ''^'') = Some (Exception d)"
  using adblock_tail [of d] valid_domain_star [of d]
  by (auto simp: parse_adblock_def starts_with_def strip_prefix_def valid_domain_def)

lemma abp_line_noop:
  assumes "valid_domain d" "p = ''||'' \<or> p = ''@@||''"
  shows "strip_comment (p @ d @ ''^'') = p @ d @ ''^''"
  using assms valid_domain_graphic [OF assms(1)] valid_domain_no [OF assms(1)]
  by (intro strip_comment_noop) (auto simp: graphic_def)

lemma not_hosts: "valid_domain d \<Longrightarrow> d \<noteq> ''0.0.0.0.0'' \<Longrightarrow> \<not> is_hosts_addr d"
  unfolding valid_domain_def is_hosts_addr_def
  by (auto simp: ip_eval str_eval)

lemma line_bare:
  "valid_domain d \<Longrightarrow> d \<noteq> ''0.0.0.0.0'' \<Longrightarrow>
     ingest_line False s d bl = bl\<lparr>exact := hm_or_insert d s (exact bl)\<rparr>"
  using strip_comment_noop [of d] valid_domain_graphic [of d] valid_domain_no [of d]
  by (simp add: ingest_line_def parse_adblock_domain split_whitespace_graphic not_hosts add_entry_def
      add_block_def normalize_exact_valid) (simp add: valid_domain_def)

lemma line_abp:
  "valid_domain d \<Longrightarrow> ingest_line False s (''||'' @ d @ ''^'') bl =
     bl\<lparr>wildcards := hm_or_insert d s (wildcards bl)\<rparr>"
  using abp_line_noop [of d "''||''"] parse_adblock_block [of d] normalize_wildcard_valid [of d]
  by (simp add: ingest_line_def add_block_def)

lemma line_exception:
  "valid_domain d \<Longrightarrow> ingest_line False s (''@@||'' @ d @ ''^'') bl =
     bl\<lparr>allow_wildcards := hs_insert d (allow_wildcards bl)\<rparr>"
  using abp_line_noop [of d "''@@||''"] parse_adblock_exception [of d] normalize_wildcard_valid [of d]
  by (simp add: ingest_line_def add_allow_def)

lemma blocked_iff:
  "lookup bl x \<noteq> None \<longleftrightarrow> \<not> is_allowed bl x \<and>
     (hm_get (exact bl) x \<noteq> None \<or> (\<exists>r. covers r x \<and> hm_get (wildcards bl) r \<noteq> None))"
proof -
  have "hm_get (wildcards bl) x \<noteq> None \<or> wildcard_above (wildcards bl) x \<noteq> None \<longleftrightarrow>
      (\<exists>r. covers r x \<and> hm_get (wildcards bl) r \<noteq> None)"
    by (auto simp: wildcard_above_None covers_def)
  then show ?thesis by (auto simp: lookup_def split: option.splits)
qed

lemma is_allowed_blocks [simp]:
  "is_allowed (bl\<lparr>exact := m\<rparr>) = is_allowed bl" "is_allowed (bl\<lparr>wildcards := m\<rparr>) = is_allowed bl"
  by (auto simp: fun_eq_iff is_allowed_def)

text \<open>
  What one line of a block list does, for every canonical domain \<open>d\<close>: the bare domain blocks
  exactly \<open>d\<close>; the Adblock rule \<open>||d^\<close> blocks exactly \<open>d\<close> and the names beneath it; the exception
  \<open>@@||d^\<close> unblocks exactly those. What was blocked or allowed before stays so otherwise.
\<close>

lemma list_line_semantics:
  assumes "valid_domain d" "d \<noteq> ''0.0.0.0.0''"
  shows "(lookup (ingest_line False s d bl) x \<noteq> None \<longleftrightarrow>
      lookup bl x \<noteq> None \<or> x = d \<and> \<not> is_allowed bl x) \<and>
    (lookup (ingest_line False s (''||'' @ d @ ''^'') bl) x \<noteq> None \<longleftrightarrow>
      lookup bl x \<noteq> None \<or> covers d x \<and> \<not> is_allowed bl x) \<and>
    (lookup (ingest_line False s (''@@||'' @ d @ ''^'') bl) x \<noteq> None \<longleftrightarrow>
      lookup bl x \<noteq> None \<and> \<not> covers d x)"
proof (intro conjI)
  show "lookup (ingest_line False s d bl) x \<noteq> None \<longleftrightarrow> lookup bl x \<noteq> None \<or> x = d \<and> \<not> is_allowed bl x"
    unfolding line_bare [OF assms] blocked_iff by (auto simp: hm_simps)
  show "lookup (ingest_line False s (''||'' @ d @ ''^'') bl) x \<noteq> None \<longleftrightarrow>
      lookup bl x \<noteq> None \<or> covers d x \<and> \<not> is_allowed bl x"
    unfolding line_abp [OF assms(1)] blocked_iff by (auto simp: hm_simps)
  show "lookup (ingest_line False s (''@@||'' @ d @ ''^'') bl) x \<noteq> None \<longleftrightarrow>
      lookup bl x \<noteq> None \<and> \<not> covers d x"
    unfolding line_exception [OF assms(1)] blocked_iff by (auto simp: is_allowed_iff)
qed

lemma list_line_semantics_witness:
  "lookup (ingest_line False 0 ''||tracker.example^'' Blocklist_default) ''a.b.tracker.example'' \<noteq> None"
proof -
  have "covers ''tracker.example'' ''a.b.tracker.example''"
    by (simp add: covers_def beneath_def)
  then show ?thesis
    using list_line_semantics [OF demo_domain, of 0 Blocklist_default "''a.b.tracker.example''"]
    by (simp add: is_allowed_iff Blocklist_default_def)
qed

text \<open>
  C40. An element-hiding rule is meant to be ignored, but the comment stripper cuts it at the number
  sign first: the line \<open>d##selector\<close>, for any selector, has the effect of the bare line \<open>d\<close> and so
  blocks the whole site.
\<close>

theorem cosmetic_rule_blocks_site:
  assumes "valid_domain d" "d \<noteq> ''0.0.0.0.0''" "\<not> is_allowed bl d"
  shows "lookup (ingest_line False s (d @ ''##'' @ selector) bl) d \<noteq> None"
proof -
  note v = valid_domain_graphic [OF assms(1)] valid_domain_no(1,2) [OF assms(1)]
  have "takeWhile (\<lambda>c. c \<noteq> CHR ''#'' \<and> c \<noteq> CHR ''!'') (d @ ''##'' @ selector) = d"
    using v(2,3) by (subst takeWhile_append2) auto
  then have "strip_comment (d @ ''##'' @ selector) = strip_comment d"
    unfolding strip_comment_noop [OF v] by (simp only: strip_comment_def trim_graphic [OF v(1)])
  then have "ingest_line False s (d @ ''##'' @ selector) bl = ingest_line False s d bl"
    by (simp only: ingest_line_def)
  then show ?thesis
    unfolding line_bare [OF assms(1,2)] blocked_iff using assms(3) by (simp add: hm_simps)
qed

theorem cosmetic_rule_blocks_site_witness:
  "lookup (ingest_line False 0 ''tracker.example##.ad'' Blocklist_default) ''tracker.example'' \<noteq> None"
  using cosmetic_rule_blocks_site [OF demo_domain, of Blocklist_default 0 "''.ad''"]
  by (simp add: is_allowed_iff Blocklist_default_def)

section \<open>Downloads keep what is there\<close>

lemma fetch_files:
  assumes "fetch_one reply wr mv dest files = (files', r)"
  shows "case r of Inl _ \<Rightarrow> files' = files
    | Inr n \<Rightarrow> \<exists>body. files' = hm_insert dest body files \<and> n = length body \<and> body \<noteq> [] \<and> n \<le> MAX_LIST_BYTES"
proof -
  have "length body \<le> MAX_LIST_BYTES" if "read_body acc cs = Inr body" "length acc \<le> MAX_LIST_BYTES" for acc cs body
    using that by (induction acc cs rule: read_body.induct) (auto split: if_splits)
  from this [of "[]"] show ?thesis
    using assms by (auto simp: fetch_one_def split: option.splits if_splits sum.splits)
qed

text \<open>The bookkeeping of a refresh after some of the sources.\<close>

definition refresh_inv :: "Config \<Rightarrow> fs \<Rightarrow> string list \<Rightarrow> RefreshOutcome \<times> HealthMap \<times> fs \<Rightarrow> bool" where
  "refresh_inv cfg files0 urls st \<longleftrightarrow> (case st of (outcome, _, files) \<Rightarrow>
     attempted outcome = length urls \<and>
     succeeded outcome + length (failures outcome) = length urls \<and>
     (\<forall>p. hm_get files p = hm_get files0 p \<or>
       (\<exists>url body. url \<in> set urls \<and> p = cached_list_path cfg url \<and> hm_get files p = Some body \<and>
          body \<noteq> [] \<and> length body \<le> MAX_LIST_BYTES \<and> 0 < succeeded outcome)))"

lemma refresh_one_inv:
  assumes "refresh_inv cfg files0 urls (outcome, health, files)"
  shows "refresh_inv cfg files0 (urls @ [url]) (refresh_one cfg env url (outcome, health, files))"
proof -
  obtain files' r where f: "fetch_one (env_reply env url) (env_write env url) (env_rename env url)
      (cached_list_path cfg url) files = (files', r)" by fastforce
  show ?thesis
  proof (cases r)
    case (Inl e)
    then show ?thesis
      using assms fetch_files [OF f] by (auto simp: refresh_inv_def refresh_one_def f Let_def)
  next
    case (Inr n)
    then obtain body where b: "files' = hm_insert (cached_list_path cfg url) body files" "n = length body"
      "body \<noteq> []" "n \<le> MAX_LIST_BYTES" using fetch_files [OF f] by auto
    have "hm_get files' p = hm_get files0 p \<or>
       (\<exists>u body. u \<in> set (urls @ [url]) \<and> p = cached_list_path cfg u \<and> hm_get files' p = Some body \<and>
          body \<noteq> [] \<and> length body \<le> MAX_LIST_BYTES)" for p
    proof (cases "p = cached_list_path cfg url")
      case True
      with b show ?thesis by (intro disjI2 exI [of _ url] exI [of _ body]) (simp add: hm_simps)
    next
      case False
      then have "hm_get files' p = hm_get files p" by (simp add: b hm_simps)
      with assms show ?thesis by (fastforce simp: refresh_inv_def)
    qed
    with assms Inr show ?thesis by (simp add: refresh_inv_def refresh_one_def f Let_def)
  qed
qed

lemma refresh_fold_inv:
  "refresh_inv cfg files0 done st \<Longrightarrow> refresh_inv cfg files0 (done @ urls) (fold (refresh_one cfg env) urls st)"
proof (induction urls arbitrary: "done" st)
  case (Cons url urls)
  then show ?case
    using refresh_one_inv [of cfg files0 "done"] Cons.IH [of "done @ [url]"] by (cases st) auto
qed simp

lemma all_fail_outcome:
  "attempted (fold (\<lambda>url out. out\<lparr>attempted := Suc (attempted out), failures := failures out @ [(url, r)]\<rparr>) urls o1)
     = attempted o1 + length urls"
  "succeeded (fold (\<lambda>url out. out\<lparr>attempted := Suc (attempted out), failures := failures out @ [(url, r)]\<rparr>) urls o1)
     = succeeded o1"
  "length (failures (fold (\<lambda>url out. out\<lparr>attempted := Suc (attempted out), failures := failures out @ [(url, r)]\<rparr>) urls o1))
     = length (failures o1) + length urls"
  by (induction urls arbitrary: o1) auto

lemma refresh_sources_inv:
  assumes "refresh_sources cfg env health files = (outcome, health', files')"
  shows "refresh_inv cfg files (b_sources (blocking cfg)) (outcome, health', files')"
proof (cases "dir_ok env \<and> client_ok env")
  case True
  have "refresh_inv cfg files [] (RefreshOutcome_default, health, files)"
    by (simp add: refresh_inv_def RefreshOutcome_default_def)
  from refresh_fold_inv [OF this, of "b_sources (blocking cfg)" env] True assms show ?thesis
    by (simp add: refresh_sources_def)
next
  case False
  with assms show ?thesis
    by (auto simp: refresh_sources_def refresh_inv_def RefreshOutcome_default_def all_fail_outcome Let_def
        split: if_splits)
qed

text \<open>
  C26. A refresh accounts for every configured source, as a success or as a failure with a reason,
  and a network failure never costs a cached list: a file changes only if it is the cache file of a
  configured source, and then to a complete, non-empty body within the size limit. When every
  source fails no file changes at all.
\<close>

theorem refresh_keeps_cached_lists:
  assumes "refresh_sources cfg env health files = (outcome, health', files')"
  shows "attempted outcome = length (b_sources (blocking cfg)) \<and>
    succeeded outcome + length (failures outcome) = attempted outcome \<and>
    (\<forall>p. hm_get files' p = hm_get files p \<or>
       (\<exists>url body. url \<in> set (b_sources (blocking cfg)) \<and> p = cached_list_path cfg url \<and>
          hm_get files' p = Some body \<and> body \<noteq> [] \<and> length body \<le> MAX_LIST_BYTES)) \<and>
    (total_failure outcome \<longrightarrow> (\<forall>p. hm_get files' p = hm_get files p))"
  using refresh_sources_inv [OF assms] by (auto simp: refresh_inv_def total_failure_def)


definition demo_env :: refresh_env where
  "demo_env = \<lparr>dir_ok = True, client_ok = True, env_now = (\<lambda>_. 0), env_reply = (\<lambda>_. None),
     env_write = (\<lambda>_. True), env_rename = (\<lambda>_. True), env_reason = (\<lambda>_. ''request failed'')\<rparr>"

lemma demo_refresh:
  "refresh_sources Config_default demo_env None [(''x'', ''y'')] =
     (\<lparr>attempted = 1, succeeded = 0,
       failures = [(''https://raw.githubusercontent.com/StevenBlack/hosts/master/hosts'', ''request failed'')]\<rparr>,
      None, [(''x'', ''y'')])"
  by (simp add: refresh_sources_def refresh_one_def demo_env_def fetch_one_def set_health_def
      RefreshOutcome_default_def Config_default_def BlockingConfig_default_def Let_def)

theorem refresh_keeps_cached_lists_witness:
  "\<forall>p. hm_get (snd (snd (refresh_sources Config_default demo_env None [(''x'', ''y'')]))) p =
     hm_get [(''x'', ''y'')] p"
  using refresh_keeps_cached_lists [OF demo_refresh] by (simp add: demo_refresh total_failure_def)

end
