(* ===== verification/Cache.thy ===== *)
theory Cache
  imports Dns_Message
begin

text \<open>
  The TTL-aware answer cache (\<open>src/dns/cache.rs\<close>). Every operation takes the clock readings it
  makes as arguments; \<open>evict\<close> also takes the iteration order of the hash map. \<open>now + lifetime\<close> does
  not overflow an \<open>Instant\<close>: instants are natural numbers. The counters wrap at 64 bits.
\<close>

section \<open>Definitions\<close>

record Key =
  key_name :: string
  key_qtype :: RecordType
  key_qclass :: DNSClass
  key_dnssec_ok :: bool
  key_checking_disabled :: bool

definition from_request :: "Message \<Rightarrow> string \<Rightarrow> Key option" where
  "from_request msg name =
     (case queries msg of
        [] \<Rightarrow> None
      | query # _ \<Rightarrow> Some
          \<lparr>key_name = name,
           key_qtype = q_type query,
           key_qclass = q_class query,
           key_dnssec_ok = (case edns msg of Some e \<Rightarrow> em_dnssec_ok e | None \<Rightarrow> False),
           key_checking_disabled = checking_disabled (metadata msg)\<rparr>)"

record Entry =
  ce_answers :: "Record list"
  ce_authorities :: "Record list"
  ce_additionals :: "Record list"
  ce_response_code :: ResponseCode
  ce_authoritative :: bool
  ce_inserted :: instant
  ce_expires :: instant

record CachedAnswer =
  ca_answers :: "Record list"
  ca_authorities :: "Record list"
  ca_additionals :: "Record list"
  ca_response_code :: ResponseCode
  ca_authoritative :: bool

record Cache =
  c_map :: "(Key, Entry) hmap"
  c_max_entries :: nat
  c_min_ttl :: u32
  c_max_ttl :: u32
  c_hits :: u64
  c_misses :: u64

definition cache_new :: "nat \<Rightarrow> u32 \<Rightarrow> u32 \<Rightarrow> Cache" where
  "cache_new max_entries min_ttl max_ttl =
     \<lparr>c_map = [], c_max_entries = max max_entries 1, c_min_ttl = min_ttl, c_max_ttl = max_ttl,
      c_hits = 0, c_misses = 0\<rparr>"

definition cache_len :: "Cache \<Rightarrow> nat" where
  "cache_len c = length (c_map c)"

text \<open>\<open>u32::saturating_sub\<close> followed by \<open>max(1)\<close> on the TTL of one record.\<close>

definition age_ttl :: "u32 \<Rightarrow> u32 \<Rightarrow> u32" where
  "age_ttl elapsed ttl = max (if ttl \<le> elapsed then 0 else ttl - elapsed) 1"

definition age :: "u32 \<Rightarrow> Record list \<Rightarrow> Record list" where
  "age elapsed rs = map (\<lambda>r. r\<lparr>r_ttl := age_ttl elapsed (r_ttl r)\<rparr>) rs"

definition cache_get :: "instant \<Rightarrow> Key \<Rightarrow> Cache \<Rightarrow> Cache \<times> CachedAnswer option" where
  "cache_get now key c =
     (case hm_get (c_map c) key of
        None \<Rightarrow> (c, None)
      | Some entry \<Rightarrow>
          if ce_expires entry \<le> now then
            (c\<lparr>c_map := hm_remove key (c_map c), c_misses := c_misses c + 1\<rparr>, None)
          else
            let elapsed = word_of_nat (as_secs (duration_since now (ce_inserted entry)));
                answer = \<lparr>ca_answers = age elapsed (ce_answers entry),
                          ca_authorities = age elapsed (ce_authorities entry),
                          ca_additionals = age elapsed (ce_additionals entry),
                          ca_response_code = ce_response_code entry,
                          ca_authoritative = ce_authoritative entry\<rparr>
            in (c\<lparr>c_hits := c_hits c + 1\<rparr>, Some answer))"

definition retain_live :: "instant \<Rightarrow> (Key, Entry) hmap \<Rightarrow> (Key, Entry) hmap" where
  "retain_live now m = hm_retain (\<lambda>_ e. now < ce_expires e) m"

definition evict ::
    "instant \<Rightarrow> ((Key \<times> Entry) list \<Rightarrow> (Key \<times> Entry) list) \<Rightarrow> Cache \<Rightarrow> Cache" where
  "evict now iter c =
     (let before = length (c_map c);
          m = retain_live now (c_map c)
      in if length m < before then c\<lparr>c_map := m\<rparr>
         else let target = length m div 10 + 1;
                  by_expiry = map (\<lambda>(k, e). (k, ce_expires e)) (iter m);
                  sorted = sort_key snd by_expiry
              in c\<lparr>c_map := fold (\<lambda>(k, _) m. hm_remove k m) (take target sorted) m\<rparr>)"

text \<open>The shortest TTL of the answer and authority sections, \<open>None\<close> when both are empty.\<close>

definition shortest_ttl :: "Message \<Rightarrow> u32 option" where
  "shortest_ttl msg =
     (case map r_ttl (answers msg @ authorities msg) of
        [] \<Rightarrow> None
      | t # ts \<Rightarrow> Some (fold min ts t))"

text \<open>\<open>now1\<close> is the reading \<open>evict\<close> makes, \<open>now2\<close> the later one the entry is stamped with.\<close>

definition cache_insert ::
    "instant \<Rightarrow> instant \<Rightarrow> ((Key \<times> Entry) list \<Rightarrow> (Key \<times> Entry) list) \<Rightarrow> Key \<Rightarrow> Message \<Rightarrow> Cache
       \<Rightarrow> Cache \<times> bool" where
  "cache_insert now1 now2 iter key message c =
     (if \<not> (response_code (metadata message) = NoError \<or> response_code (metadata message) = NXDomain)
      then (c, False)
      else case shortest_ttl message of
        None \<Rightarrow> (c, False)
      | Some shortest \<Rightarrow>
          if shortest = 0 \<or> shortest < c_min_ttl c then (c, False)
          else
            let lifetime = min shortest (c_max_ttl c);
                c = (if c_max_entries c \<le> length (c_map c) then evict now1 iter c else c);
                entry = \<lparr>ce_answers = answers message,
                         ce_authorities = authorities message,
                         ce_additionals = filter (\<lambda>r. record_type r \<noteq> T_OPT) (additionals message),
                         ce_response_code = response_code (metadata message),
                         ce_authoritative = authoritative (metadata message),
                         ce_inserted = now2,
                         ce_expires = now2 + from_secs (unat lifetime)\<rparr>
            in (c\<lparr>c_map := hm_insert key entry (c_map c)\<rparr>, True))"

definition sweep :: "instant \<Rightarrow> Cache \<Rightarrow> Cache" where
  "sweep now c = c\<lparr>c_map := retain_live now (c_map c)\<rparr>"

definition cache_clear :: "Cache \<Rightarrow> Cache" where
  "cache_clear c = c\<lparr>c_map := []\<rparr>"

definition response_edns :: "proto \<Rightarrow> Message \<Rightarrow> u16 \<Rightarrow> Edns option" where
  "response_edns P request our_max_payload =
     (case edns request of
        None \<Rightarrow> None
      | Some req_edns \<Rightarrow> Some
          (edns_set_dnssec_ok P (em_dnssec_ok req_edns)
            (edns_set_version P 0
              (edns_set_max_payload P (min (em_max_payload req_edns) our_max_payload)
                (edns_new P)))))"

text \<open>
  The life of a cache: what any sequence of operations, with clock readings that never go back,
  makes of a new one. \<open>t\<close> is the latest reading.
\<close>

inductive cache_run :: "nat \<Rightarrow> u32 \<Rightarrow> u32 \<Rightarrow> instant \<Rightarrow> Cache \<Rightarrow> bool" for n lo hi where
  run_new: "cache_run n lo hi t (cache_new n lo hi)"
| run_get: "cache_run n lo hi t c \<Longrightarrow> t \<le> now \<Longrightarrow> cache_run n lo hi now (fst (cache_get now key c))"
| run_insert: "cache_run n lo hi t c \<Longrightarrow> t \<le> now1 \<Longrightarrow> now1 \<le> now2 \<Longrightarrow> iteration_order iter \<Longrightarrow>
    cache_run n lo hi now2 (fst (cache_insert now1 now2 iter key msg c))"
| run_sweep: "cache_run n lo hi t c \<Longrightarrow> t \<le> now \<Longrightarrow> cache_run n lo hi now (sweep now c)"
| run_clear: "cache_run n lo hi t c \<Longrightarrow> cache_run n lo hi t (cache_clear c)"

section \<open>Laws\<close>

lemma shortest_ttl_Some:
  "shortest_ttl msg = Some t \<longleftrightarrow>
     answers msg @ authorities msg \<noteq> [] \<and> t = Min (set (map r_ttl (answers msg @ authorities msg)))"
proof -
  have "fold min xs x = Min (set (x # xs))" for xs and x :: u32
    by (simp only: Min.set_eq_fold)
  then show ?thesis
    by (auto simp: shortest_ttl_def split: list.splits simp del: set_map set_append map_append)
qed

lemma shortest_ttl_None: "shortest_ttl msg = None \<longleftrightarrow> answers msg @ authorities msg = []"
  by (auto simp: shortest_ttl_def split: list.splits)

lemma shortest_ttl_le:
  "shortest_ttl msg = Some t \<Longrightarrow> r \<in> set (answers msg @ authorities msg) \<Longrightarrow> t \<le> r_ttl r"
  by (auto simp: shortest_ttl_Some)

lemma get_fold_remove:
  "hm_get (fold (\<lambda>(k, _) m. hm_remove k m) ks m) k = (if k \<in> fst ` set ks then None else hm_get m k)"
  by (induction ks arbitrary: m) (auto simp: hm_simps)

lemma ok_fold_remove: "hm_ok m \<Longrightarrow> hm_ok (fold (\<lambda>(k, _) m. hm_remove k m) ks m)"
  by (induction ks arbitrary: m) (auto intro: wf_intros)

lemma len_fold_remove:
  "hm_ok m \<Longrightarrow> distinct (map fst ks) \<Longrightarrow> list_all (\<lambda>(k, _). hm_get m k \<noteq> None) ks \<Longrightarrow>
     length (fold (\<lambda>(k, _) m. hm_remove k m) ks m) = length m - length ks"
proof (induction ks arbitrary: m)
  case (Cons a ks)
  obtain k x where a: "a = (k, x)" by fastforce
  from Cons.prems have "list_all (\<lambda>(k', _). hm_get (hm_remove k m) k' \<noteq> None) ks"
    by (force simp: a list_all_iff hm_simps)
  then show ?case using Cons by (auto simp: a hm.len_remove wf_intros)
qed simp

lemma retain_live_all:
  "length (retain_live now m) = length m \<longleftrightarrow> (\<forall>(k, e) \<in> set m. now < ce_expires e)"
  unfolding retain_live_def hm_retain_def
  by (metis (mono_tags, lifting) filter_True length_filter_less less_irrefl)

lemma retain_live_noop: "length m \<le> length (retain_live now m) \<Longrightarrow> retain_live now m = m"
  unfolding retain_live_def hm_retain_def
  by (metis (mono_tags, lifting) filter_True length_filter_less linorder_not_less)

text \<open>The entries \<open>evict\<close> sheds when none has expired.\<close>

definition shed :: "((Key \<times> Entry) list \<Rightarrow> (Key \<times> Entry) list) \<Rightarrow> (Key, Entry) hmap \<Rightarrow> (Key \<times> instant) list" where
  "shed iter m = take (length m div 10 + 1) (sort_key snd (map (\<lambda>(k, e). (k, ce_expires e)) (iter m)))"

lemma shed_keys:
  assumes "hm_ok m" "iteration_order iter"
  shows "distinct (map fst (shed iter m))"
    and "list_all (\<lambda>(k, x). \<exists>e. hm_get m k = Some e \<and> ce_expires e = x) (shed iter m)"
    and "m \<noteq> [] \<Longrightarrow> length (shed iter m) = length m div 10 + 1"
proof -
  let ?xs = "map (\<lambda>(k, e). (k, ce_expires e)) (iter m)"
  have "map fst ?xs = map fst (iter m)" by auto
  then have "distinct (map fst ?xs)"
    using assms by (simp add: iteration_order_distinct hm_ok_def del: map_map)
  then have "distinct (map fst (sort_key snd ?xs))"
    by (subst mset_eq_imp_distinct_iff [of _ "map fst ?xs"]) (simp_all del: map_map)
  then show "distinct (map fst (shed iter m))"
    by (simp add: shed_def take_map [symmetric] distinct_take)
  have "set (shed iter m) \<subseteq> set ?xs" using set_take_subset by (force simp: shed_def)
  then show "list_all (\<lambda>(k, x). \<exists>e. hm_get m k = Some e \<and> ce_expires e = x) (shed iter m)"
    using assms by (fastforce simp: list_all_iff iteration_order_set hm_get_iff)
  show "length (shed iter m) = length m div 10 + 1" if "m \<noteq> []"
  proof -
    have "length m div 10 + 1 \<le> length m" using that by (cases m) auto
    then show ?thesis using assms(2) by (simp add: shed_def iteration_order_length)
  qed
qed

lemma sorted_take_le:
  "sorted (map f xs) \<Longrightarrow> x \<in> set (take n xs) \<Longrightarrow> y \<in> set xs \<Longrightarrow> y \<notin> set (take n xs) \<Longrightarrow> f x \<le> f y"
proof -
  assume a: "sorted (map f xs)" "x \<in> set (take n xs)" "y \<in> set xs" "y \<notin> set (take n xs)"
  have "xs = take n xs @ drop n xs" by simp
  with a(3,4) have "y \<in> set (drop n xs)" by (metis Un_iff set_append)
  moreover have "sorted (map f (take n xs) @ map f (drop n xs))"
    using a(1) by (metis append_take_drop_id map_append)
  ultimately show ?thesis using a(2) by (auto simp: sorted_append)
qed

lemma shed_order:
  assumes "hm_ok m" "iteration_order iter" "hm_get m k = Some e" "k \<in> fst ` set (shed iter m)"
    "hm_get m k' = Some e'" "k' \<notin> fst ` set (shed iter m)"
  shows "ce_expires e \<le> ce_expires e'"
proof -
  let ?s = "sort_key snd (map (\<lambda>(k, e). (k, ce_expires e)) (iter m))"
  have in_s: "(k, ce_expires e) \<in> set ?s" if "hm_get m k = Some e" for k e
    using that assms(1,2) by (force simp: iteration_order_set hm_get_iff)
  obtain x where x: "(k, x) \<in> set (shed iter m)" using assms(4) by auto
  then have "x = ce_expires e" using shed_keys(2) [OF assms(1,2)] assms(3) by (auto simp: list_all_iff)
  moreover have "(k', ce_expires e') \<notin> set (shed iter m)" using assms(6) by force
  ultimately show ?thesis
    using x in_s [OF assms(5)] sorted_take_le [of snd ?s "(k, x)" _ "(k', ce_expires e')"]
    by (auto simp: shed_def)
qed

lemma evict_map:
  "c_map (evict now iter c) =
     (if length (retain_live now (c_map c)) < length (c_map c) then retain_live now (c_map c)
      else fold (\<lambda>(k, _) m. hm_remove k m) (shed iter (c_map c)) (c_map c))"
  using retain_live_noop [of "c_map c" now] by (auto simp: evict_def shed_def Let_def not_less)

lemma evict_subset:
  assumes "hm_ok (c_map c)" "iteration_order iter"
  shows "hm_get (c_map (evict now iter c)) k = Some e \<Longrightarrow> hm_get (c_map c) k = Some e"
    and "hm_ok (c_map (evict now iter c))"
    and "c_map c \<noteq> [] \<Longrightarrow> length (c_map (evict now iter c)) < length (c_map c)"
proof -
  show "hm_ok (c_map (evict now iter c))"
    using assms by (auto simp: evict_map retain_live_def intro: wf_intros ok_fold_remove)
  show "hm_get (c_map (evict now iter c)) k = Some e \<Longrightarrow> hm_get (c_map c) k = Some e"
    using assms by (auto simp: evict_map get_fold_remove retain_live_def hm_simps split: if_splits option.splits)
  assume ne: "c_map c \<noteq> []"
  have "list_all (\<lambda>(k, _). hm_get (c_map c) k \<noteq> None) (shed iter (c_map c))"
    using shed_keys(2) [OF assms] by (auto simp: list_all_iff)
  then show "length (c_map (evict now iter c)) < length (c_map c)"
    using ne shed_keys [OF assms] by (auto simp: evict_map len_fold_remove assms)
qed

text \<open>
  What holds of every entry of a cache in use, \<open>t\<close> being the latest clock reading: it was stamped
  in the past, it expires no later than its shortest-lived answer or authority record, and it holds
  no OPT record.
\<close>

definition entry_wf :: "instant \<Rightarrow> Entry \<Rightarrow> bool" where
  "entry_wf t e \<longleftrightarrow> ce_inserted e \<le> t \<and>
     list_all (\<lambda>r. ce_expires e \<le> ce_inserted e + from_secs (unat (r_ttl r))) (ce_answers e @ ce_authorities e) \<and>
     list_all (\<lambda>r. record_type r \<noteq> T_OPT) (ce_additionals e) \<and>
     ce_answers e @ ce_authorities e \<noteq> [] \<and>
     (ce_response_code e = NoError \<or> ce_response_code e = NXDomain)"

definition cache_wf :: "nat \<Rightarrow> u32 \<Rightarrow> u32 \<Rightarrow> instant \<Rightarrow> Cache \<Rightarrow> bool" where
  "cache_wf n lo hi t c \<longleftrightarrow> hm_ok (c_map c) \<and> length (c_map c) \<le> c_max_entries c \<and>
     c_max_entries c = max n 1 \<and> c_min_ttl c = lo \<and> c_max_ttl c = hi \<and>
     (\<forall>k e. hm_get (c_map c) k = Some e \<longrightarrow> entry_wf t e)"

lemma entry_wf_later: "entry_wf t e \<Longrightarrow> t \<le> t' \<Longrightarrow> entry_wf t' e"
  by (simp add: entry_wf_def)

lemma cache_wf_later: "cache_wf n lo hi t c \<Longrightarrow> t \<le> t' \<Longrightarrow> cache_wf n lo hi t' c"
  by (auto simp: cache_wf_def intro: entry_wf_later)

lemma wf_new [wf_intros]: "cache_wf n lo hi t (cache_new n lo hi)"
  by (simp add: cache_wf_def cache_new_def hm_simps wf_intros)

lemma wf_submap:
  assumes "cache_wf n lo hi t c" "hm_ok m" "length m \<le> length (c_map c)"
    and "\<And>k e. hm_get m k = Some e \<Longrightarrow> hm_get (c_map c) k = Some e"
  shows "cache_wf n lo hi t (c\<lparr>c_map := m\<rparr>)"
  using assms by (auto simp: cache_wf_def)

lemma wf_counters [simp]:
  "cache_wf n lo hi t (c\<lparr>c_hits := h\<rparr>) = cache_wf n lo hi t c"
  "cache_wf n lo hi t (c\<lparr>c_misses := h\<rparr>) = cache_wf n lo hi t c"
  by (simp_all add: cache_wf_def)

lemma wf_retain_live: "cache_wf n lo hi t c \<Longrightarrow> cache_wf n lo hi t (c\<lparr>c_map := retain_live now (c_map c)\<rparr>)"
  by (rule wf_submap)
     (auto simp: cache_wf_def retain_live_def hm_simps hm.len_retain_le wf_intros split: option.splits if_splits)

lemma wf_sweep [wf_intros]: "cache_wf n lo hi t c \<Longrightarrow> cache_wf n lo hi t (sweep now c)"
  by (simp add: sweep_def wf_retain_live)

lemma wf_clear [wf_intros]: "cache_wf n lo hi t c \<Longrightarrow> cache_wf n lo hi t (cache_clear c)"
  unfolding cache_clear_def by (erule wf_submap) (simp_all add: hm_simps wf_intros)

lemma wf_remove: "cache_wf n lo hi t c \<Longrightarrow> cache_wf n lo hi t (c\<lparr>c_map := hm_remove k (c_map c)\<rparr>)"
  by (rule wf_submap) (auto simp: cache_wf_def hm_simps hm.len_remove wf_intros split: if_splits)

lemma wf_get [wf_intros]:
  "cache_wf n lo hi t c \<Longrightarrow> t \<le> now \<Longrightarrow> cache_wf n lo hi now (fst (cache_get now key c))"
  using wf_remove [of n lo hi now c key] cache_wf_later [of n lo hi t c now]
  by (auto simp: cache_get_def Let_def split: option.splits)

lemma evict_fields [simp]:
  "c_max_entries (evict now iter c) = c_max_entries c" "c_min_ttl (evict now iter c) = c_min_ttl c"
  "c_max_ttl (evict now iter c) = c_max_ttl c"
  by (simp_all add: evict_def Let_def)

lemma evict_as_map: "evict now iter c = c\<lparr>c_map := c_map (evict now iter c)\<rparr>"
  by (simp add: evict_def Let_def)

lemma wf_evict:
  assumes "cache_wf n lo hi t c" "iteration_order iter" "c_map c \<noteq> []"
  shows "cache_wf n lo hi t (evict now iter c)"
proof -
  have ok: "hm_ok (c_map c)" using assms(1) by (simp add: cache_wf_def)
  have "cache_wf n lo hi t (c\<lparr>c_map := c_map (evict now iter c)\<rparr>)"
    using wf_submap [OF assms(1) evict_subset(2) [OF ok assms(2)]] evict_subset [OF ok assms(2)] assms(3)
    by (simp add: less_imp_le)
  then show ?thesis by (simp only: evict_as_map [symmetric])
qed

lemma insert_accepts:
  "snd (cache_insert now1 now2 iter key msg c) \<longleftrightarrow>
     (response_code (metadata msg) = NoError \<or> response_code (metadata msg) = NXDomain) \<and>
     (\<exists>t. shortest_ttl msg = Some t \<and> t \<noteq> 0 \<and> c_min_ttl c \<le> t)"
  by (auto simp: cache_insert_def Let_def not_less split: option.splits)

text \<open>The entry an accepted answer becomes and the cache it is put into.\<close>

definition entry_of :: "instant \<Rightarrow> u32 \<Rightarrow> Message \<Rightarrow> Entry" where
  "entry_of now lifetime msg =
     \<lparr>ce_answers = answers msg, ce_authorities = authorities msg,
      ce_additionals = filter (\<lambda>r. record_type r \<noteq> T_OPT) (additionals msg),
      ce_response_code = response_code (metadata msg), ce_authoritative = authoritative (metadata msg),
      ce_inserted = now, ce_expires = now + from_secs (unat lifetime)\<rparr>"

definition make_room :: "instant \<Rightarrow> ((Key \<times> Entry) list \<Rightarrow> (Key \<times> Entry) list) \<Rightarrow> Cache \<Rightarrow> Cache" where
  "make_room now iter c = (if c_max_entries c \<le> length (c_map c) then evict now iter c else c)"

lemma insert_accepted:
  assumes "cache_insert now1 now2 iter key msg c = (c', True)"
  obtains t where "shortest_ttl msg = Some t" "t \<noteq> 0" "c_min_ttl c \<le> t"
    "response_code (metadata msg) = NoError \<or> response_code (metadata msg) = NXDomain"
    "c' = (make_room now1 iter c)\<lparr>c_map := hm_insert key (entry_of now2 (min t (c_max_ttl c)) msg)
       (c_map (make_room now1 iter c))\<rparr>"
  using assms by (auto simp: cache_insert_def entry_of_def make_room_def Let_def not_less
      split: if_splits option.splits)

lemma insert_refused: "cache_insert now1 now2 iter key msg c = (c', False) \<Longrightarrow> c' = c"
  by (auto simp: cache_insert_def Let_def split: if_splits option.splits)

lemma make_room_wf:
  assumes "cache_wf n lo hi t c" "iteration_order iter"
  shows "cache_wf n lo hi t (make_room now iter c)"
    and "length (c_map (make_room now iter c)) < c_max_entries c"
    and "hm_get (c_map (make_room now iter c)) k = Some e \<Longrightarrow> hm_get (c_map c) k = Some e"
proof -
  have ok: "hm_ok (c_map c)" and len: "length (c_map c) \<le> c_max_entries c" "0 < c_max_entries c"
    using assms(1) by (auto simp: cache_wf_def)
  have ne: "c_map c \<noteq> []" if "c_max_entries c \<le> length (c_map c)" using that len(2) by auto
  show "cache_wf n lo hi t (make_room now iter c)"
    using assms ne by (auto simp: make_room_def intro: wf_evict)
  show "length (c_map (make_room now iter c)) < c_max_entries c"
    using evict_subset(3) [OF ok assms(2) ne, of now] len(1) by (auto simp: make_room_def)
  show "hm_get (c_map (make_room now iter c)) k = Some e \<Longrightarrow> hm_get (c_map c) k = Some e"
    using evict_subset(1) [OF ok assms(2)] by (auto simp: make_room_def split: if_splits)
qed

lemma entry_of_wf:
  assumes "shortest_ttl msg = Some t" "l \<le> t"
    "response_code (metadata msg) = NoError \<or> response_code (metadata msg) = NXDomain"
  shows "entry_wf now (entry_of now l msg)"
proof -
  have "unat l \<le> unat (r_ttl r)" if "r \<in> set (answers msg @ authorities msg)" for r
    using shortest_ttl_le [OF assms(1) that] assms(2) by (simp add: word_le_nat_alt)
  then show ?thesis
    using assms(1,3) by (auto simp: entry_wf_def entry_of_def list_all_iff from_secs_def shortest_ttl_Some)
qed

lemma wf_insert [wf_intros]:
  assumes "cache_wf n lo hi t c" "t \<le> now1" "now1 \<le> now2" "iteration_order iter"
  shows "cache_wf n lo hi now2 (fst (cache_insert now1 now2 iter key msg c))"
proof (cases "cache_insert now1 now2 iter key msg c")
  case (Pair c' ok)
  have wf: "cache_wf n lo hi now2 c" using assms(1-3) cache_wf_later by (meson order_trans)
  show ?thesis
  proof (cases ok)
    case True
    with Pair obtain l where l: "shortest_ttl msg = Some l"
      "response_code (metadata msg) = NoError \<or> response_code (metadata msg) = NXDomain"
      "c' = (make_room now1 iter c)\<lparr>c_map := hm_insert key (entry_of now2 (min l (c_max_ttl c)) msg)
        (c_map (make_room now1 iter c))\<rparr>" by (auto elim: insert_accepted)
    note room = make_room_wf [OF wf assms(4), of now1]
    have "length (hm_insert k e (c_map (make_room now1 iter c))) \<le> c_max_entries c" for k e
      using room(1,2) hm.len_insert_le by (meson Suc_leI cache_wf_def le_trans)
    moreover have "c_max_entries (make_room now1 iter c) = c_max_entries c"
      by (simp add: make_room_def)
    ultimately show ?thesis
      using room(1) entry_of_wf [OF l(1) _ l(2), of "min l (c_max_ttl c)" now2]
      by (auto simp: Pair l(3) cache_wf_def hm_simps wf_intros)
  next
    case False
    with Pair have "c' = c" by (auto dest: insert_refused)
    with wf Pair show ?thesis by simp
  qed
qed

lemma cache_run_wf: "cache_run n lo hi t c \<Longrightarrow> cache_wf n lo hi t c"
  by (induction rule: cache_run.induct) (auto intro: wf_intros cache_wf_later)

lemma as_secs_bound:
  assumes "now < i + from_secs s" "i \<le> now"
  shows "as_secs (duration_since now i) < s"
  using assms by (simp add: as_secs_def duration_since_def from_secs_def less_mult_imp_div_less)

lemma age_ttl_exact: "s < unat ttl \<Longrightarrow> unat (age_ttl (word_of_nat s) ttl) = unat ttl - s"
proof -
  assume s: "s < unat ttl"
  then have u: "unat (word_of_nat s :: u32) = s"
    using unsigned_less [of ttl, where ?'a = nat] by (simp add: unat_of_nat)
  have "unat (ttl - word_of_nat s) = unat ttl - s"
    using s u by (simp add: unat_sub word_le_nat_alt)
  then show ?thesis using s u by (auto simp: age_ttl_def word_le_nat_alt max_def)
qed

section \<open>Properties\<close>

text \<open>
  C22. A cached answer is never served with a TTL the authority did not grant: in any run of the
  cache, a hit returns the stored answer and authority records with each TTL reduced by exactly the
  whole seconds since insertion, which is at least 1 and at most the original; nothing else of the
  records changes, and no OPT record is returned.
\<close>

theorem ttl_counted_down_exactly:
  assumes "cache_run n lo hi t c" "t \<le> now" "cache_get now key c = (c', Some a)"
  shows "\<exists>e. hm_get (c_map c) key = Some e \<and>
    list_all2 (\<lambda>r r'. as_secs (now - ce_inserted e) < unat (r_ttl r) \<and>
        unat (r_ttl r') = unat (r_ttl r) - as_secs (now - ce_inserted e) \<and>
        r_name r' = r_name r \<and> r_data r' = r_data r)
      (ce_answers e @ ce_authorities e) (ca_answers a @ ca_authorities a) \<and>
    list_all (\<lambda>r. record_type r \<noteq> T_OPT) (ca_additionals a) \<and>
    ca_response_code a = ce_response_code e"
proof -
  obtain e where e: "hm_get (c_map c) key = Some e" "now < ce_expires e"
    "ca_answers a @ ca_authorities a =
       age (word_of_nat (as_secs (now - ce_inserted e))) (ce_answers e @ ce_authorities e)"
    "ca_additionals a = age (word_of_nat (as_secs (now - ce_inserted e))) (ce_additionals e)"
    "ca_response_code a = ce_response_code e"
    using assms(3) by (auto simp: cache_get_def Let_def duration_since_def age_def split: option.splits if_splits)
  have wf: "entry_wf t e" using cache_run_wf [OF assms(1)] e(1) by (auto simp: cache_wf_def)
  have s: "as_secs (now - ce_inserted e) < unat (r_ttl r)" if "r \<in> set (ce_answers e @ ce_authorities e)" for r
  proof -
    have "ce_expires e \<le> ce_inserted e + from_secs (unat (r_ttl r))" "ce_inserted e \<le> now"
      using wf that assms(2) by (auto simp: entry_wf_def list_all_iff)
    then show ?thesis
      using e(2) as_secs_bound [of now "ce_inserted e" "unat (r_ttl r)"] by (simp add: duration_since_def)
  qed
  then have "list_all2 (\<lambda>r r'. as_secs (now - ce_inserted e) < unat (r_ttl r) \<and>
        unat (r_ttl r') = unat (r_ttl r) - as_secs (now - ce_inserted e) \<and>
        r_name r' = r_name r \<and> r_data r' = r_data r)
      (ce_answers e @ ce_authorities e) (ca_answers a @ ca_authorities a)"
    unfolding e(3) age_def list_all2_map2 by (intro list.rel_refl_strong) (simp add: age_ttl_exact)
  then show ?thesis
    using e(1,4,5) wf by (auto simp: entry_wf_def age_def list_all_iff record_type_def)
qed

definition demo_msg :: Message where
  "demo_msg =
     \<lparr>metadata = \<lparr>m_id = 7, message_type = MT_Response, op_code = OP_Query, authoritative = False,
        truncation = False, recursion_desired = True, recursion_available = True,
        checking_disabled = False, response_code = NoError\<rparr>,
      queries = [\<lparr>q_name = ''a.example.'', q_type = T_A, q_class = 1\<rparr>],
      answers = [\<lparr>r_name = ''a.example.'', r_ttl = 300, r_data = RD_A 5\<rparr>,
                 \<lparr>r_name = ''a.example.'', r_ttl = 60, r_data = RD_A 6\<rparr>],
      authorities = [], additionals = [\<lparr>r_name = ''b.example.'', r_ttl = 0, r_data = RD_A 7\<rparr>],
      edns = None\<rparr>"

definition demo_key :: Key where
  "demo_key = \<lparr>key_name = ''a.example'', key_qtype = T_A, key_qclass = 1, key_dnssec_ok = False,
     key_checking_disabled = False\<rparr>"

definition demo_cache :: Cache where
  "demo_cache = fst (cache_insert 0 0 id demo_key demo_msg (cache_new 4 0 3600))"

lemmas demo_defs = demo_cache_def cache_insert_def cache_new_def demo_msg_def shortest_ttl_def
  record_type_def

lemma demo_run: "cache_run 4 0 3600 0 demo_cache"
  unfolding demo_cache_def
  by (rule run_insert [OF run_new order.refl order.refl iteration_order_id])

lemma demo_hit: "cache_get 10500000000 demo_key demo_cache =
   (demo_cache\<lparr>c_hits := 1\<rparr>,
    Some \<lparr>ca_answers = [\<lparr>r_name = ''a.example.'', r_ttl = 290, r_data = RD_A 5\<rparr>,
                         \<lparr>r_name = ''a.example.'', r_ttl = 50, r_data = RD_A 6\<rparr>],
          ca_authorities = [],
          ca_additionals = [\<lparr>r_name = ''b.example.'', r_ttl = 1, r_data = RD_A 7\<rparr>],
          ca_response_code = NoError, ca_authoritative = False\<rparr>)"
  by (simp add: demo_defs cache_get_def hm_simps age_def age_ttl_def as_secs_def duration_since_def
      from_secs_def Let_def)

theorem ttl_counted_down_exactly_witness:
  "list_all2 (\<lambda>r r'. unat (r_ttl r') = unat (r_ttl r) - 10) (answers demo_msg)
     (ca_answers (the (snd (cache_get 10500000000 demo_key demo_cache))))"
  using ttl_counted_down_exactly [OF demo_run _ demo_hit]
  by (simp add: demo_hit) (simp add: demo_defs hm_simps as_secs_def)

text \<open>
  The cache never holds more entries than it was configured for (one, if configured for none),
  whatever operations are applied and in whatever order the hash map iterates.
\<close>

lemma cache_bounded:
  assumes "cache_run n lo hi t c"
  shows "cache_len c \<le> max n 1"
  using cache_run_wf [OF assms] by (simp add: cache_wf_def cache_len_def)

lemma cache_bounded_witness: "cache_len demo_cache \<le> 4"
  using cache_bounded [OF demo_run] by simp

lemma get_in_wf:
  "snd (cache_get now key c) =
     (case hm_get (c_map c) key of None \<Rightarrow> None
      | Some e \<Rightarrow> if ce_expires e \<le> now then None
          else let s = word_of_nat (as_secs (now - ce_inserted e)) in
            Some \<lparr>ca_answers = age s (ce_answers e), ca_authorities = age s (ce_authorities e),
                  ca_additionals = age s (ce_additionals e),
                  ca_response_code = ce_response_code e, ca_authoritative = ce_authoritative e\<rparr>)"
  by (auto simp: cache_get_def Let_def duration_since_def split: option.splits)

lemma make_room_get:
  assumes "hm_ok (c_map c)" "iteration_order iter"
  shows "hm_get (c_map (make_room now iter c)) k = hm_get (c_map c) k \<or>
    hm_get (c_map (make_room now iter c)) k = None \<and> c_max_entries c \<le> cache_len c"
  using evict_subset(1) [OF assms, of now k]
  by (cases "hm_get (c_map (evict now iter c)) k") (auto simp: make_room_def cache_len_def)

text \<open>
  What is inserted is what is looked up: after an accepted insertion the key answers with the
  message's own records, OPT removed and aged by the time since, for exactly the smaller of the
  shortest TTL and \<open>max_ttl\<close> seconds, and then no more. Every other key answers as before, unless
  the cache was full and the entry was evicted to make room.
\<close>

lemma insert_then_get:
  assumes "cache_run n lo hi t c" "iteration_order iter"
    "cache_insert now1 now2 iter key msg c = (c', True)" "now2 \<le> now"
  shows "\<exists>ttl. shortest_ttl msg = Some ttl \<and>
    (let s = word_of_nat (as_secs (now - now2)) in
     snd (cache_get now key c') =
       (if now < now2 + from_secs (unat (min ttl hi))
        then Some \<lparr>ca_answers = age s (answers msg), ca_authorities = age s (authorities msg),
                   ca_additionals = age s (filter (\<lambda>r. record_type r \<noteq> T_OPT) (additionals msg)),
                   ca_response_code = response_code (metadata msg),
                   ca_authoritative = authoritative (metadata msg)\<rparr>
        else None)) \<and>
    (\<forall>key'. key' \<noteq> key \<longrightarrow>
       snd (cache_get now key' c') = snd (cache_get now key' c) \<or>
       snd (cache_get now key' c') = None \<and> max n 1 \<le> cache_len c)"
proof -
  have wf: "hm_ok (c_map c)" "c_max_ttl c = hi" "c_max_entries c = max n 1"
    using cache_run_wf [OF assms(1)] by (auto simp: cache_wf_def)
  obtain ttl where t: "shortest_ttl msg = Some ttl"
    "c' = (make_room now1 iter c)\<lparr>c_map := hm_insert key (entry_of now2 (min ttl (c_max_ttl c)) msg)
       (c_map (make_room now1 iter c))\<rparr>" using assms(3) by (auto elim: insert_accepted)
  have "snd (cache_get now key' c') = snd (cache_get now key' c) \<or>
      snd (cache_get now key' c') = None \<and> max n 1 \<le> cache_len c" if "key' \<noteq> key" for key'
  proof -
    have "hm_get (c_map c') key' = hm_get (c_map (make_room now1 iter c)) key'"
      using that by (simp add: t(2) hm_simps)
    then have "hm_get (c_map c') key' = hm_get (c_map c) key' \<or>
        hm_get (c_map c') key' = None \<and> max n 1 \<le> cache_len c"
      using make_room_get [OF wf(1) assms(2), of now1 key'] wf(3) by metis
    then show ?thesis unfolding get_in_wf by (elim disjE conjE) simp_all
  qed
  then show ?thesis
    using t(1) wf(2) by (intro exI [of _ ttl]) (simp add: t(2) get_in_wf hm_simps entry_of_def Let_def not_less)
qed

lemma demo_insert: "cache_insert 0 0 id demo_key demo_msg (cache_new 4 0 3600) = (demo_cache, True)"
  by (simp add: demo_defs Let_def)

lemma insert_then_get_witness:
  "snd (cache_get (from_secs 59) demo_key demo_cache) \<noteq> None \<and>
   snd (cache_get (from_secs 60) demo_key demo_cache) = None"
  using insert_then_get [OF run_new iteration_order_id demo_insert, of "from_secs 59"]
    insert_then_get [OF run_new iteration_order_id demo_insert, of "from_secs 60"]
  by (auto simp: shortest_ttl_def demo_msg_def from_secs_def Let_def)

text \<open>
  Exactly these answers are cached: NOERROR or NXDOMAIN, with at least one answer or authority
  record, none of which has a TTL of zero or below \<open>min_ttl\<close>. A refused answer leaves the cache as
  it was.
\<close>

lemma insert_accepts_exactly:
  "(snd (cache_insert now1 now2 iter key msg c) \<longleftrightarrow>
     (response_code (metadata msg) = NoError \<or> response_code (metadata msg) = NXDomain) \<and>
     answers msg @ authorities msg \<noteq> [] \<and>
     list_all (\<lambda>r. r_ttl r \<noteq> 0 \<and> c_min_ttl c \<le> r_ttl r) (answers msg @ authorities msg)) \<and>
   (snd (cache_insert now1 now2 iter key msg c) \<or> fst (cache_insert now1 now2 iter key msg c) = c)"
proof -
  have "(\<exists>t. shortest_ttl msg = Some t \<and> t \<noteq> 0 \<and> c_min_ttl c \<le> t) \<longleftrightarrow>
      answers msg @ authorities msg \<noteq> [] \<and>
      list_all (\<lambda>r. r_ttl r \<noteq> 0 \<and> c_min_ttl c \<le> r_ttl r) (answers msg @ authorities msg)"
  proof (cases "shortest_ttl msg")
    case None
    then show ?thesis by (auto simp: shortest_ttl_None shortest_ttl_Some)
  next
    case (Some t)
    then have t: "t \<in> r_ttl ` set (answers msg @ authorities msg)"
      using Min_in [of "r_ttl ` set (answers msg @ authorities msg)"]
      by (simp add: shortest_ttl_Some image_Un)
    have le: "\<And>r. r \<in> set (answers msg @ authorities msg) \<Longrightarrow> t \<le> r_ttl r" using shortest_ttl_le [OF Some] .
    have "r_ttl r \<noteq> 0" if "r \<in> set (answers msg @ authorities msg)" "t \<noteq> 0" for r
      using le [OF that(1)] that(2) by (metis word_le_0_iff)
    then show ?thesis
      using Some t le by (auto simp: list_all_iff shortest_ttl_Some intro: order_trans)
  qed
  moreover have "snd (cache_insert now1 now2 iter key msg c) \<or> fst (cache_insert now1 now2 iter key msg c) = c"
    using insert_refused [of now1 now2 iter key msg c] by (metis (full_types) prod.collapse)
  ultimately show ?thesis using insert_accepts by blast
qed

text \<open>
  Making room: when some entry has expired, exactly the expired ones are dropped; otherwise
  exactly a tenth of the entries plus one are, and none of those dropped outlives one that is kept.
\<close>

lemma evict_sheds_soonest:
  assumes "cache_run n lo hi t c" "iteration_order iter" "c_map c \<noteq> []"
  shows "if (\<exists>k e. hm_get (c_map c) k = Some e \<and> ce_expires e \<le> now)
    then (\<forall>k. hm_get (c_map (evict now iter c)) k =
        (case hm_get (c_map c) k of Some e \<Rightarrow> if now < ce_expires e then Some e else None | None \<Rightarrow> None))
    else cache_len (evict now iter c) = cache_len c - (cache_len c div 10 + 1) \<and>
      (\<forall>k e k' e'. hm_get (c_map c) k = Some e \<and> hm_get (c_map (evict now iter c)) k = None \<and>
         hm_get (c_map (evict now iter c)) k' = Some e' \<longrightarrow> ce_expires e \<le> ce_expires e')"
proof -
  have ok: "hm_ok (c_map c)" using cache_run_wf [OF assms(1)] by (simp add: cache_wf_def)
  have all: "length (retain_live now (c_map c)) = length (c_map c) \<longleftrightarrow>
      \<not> (\<exists>k e. hm_get (c_map c) k = Some e \<and> ce_expires e \<le> now)"
    using ok by (force simp: retain_live_all hm_get_iff)
  have le: "length (retain_live now (c_map c)) \<le> length (c_map c)"
    by (simp add: retain_live_def ok hm.len_retain_le)
  show ?thesis
  proof (cases "\<exists>k e. hm_get (c_map c) k = Some e \<and> ce_expires e \<le> now")
    case True
    then have "c_map (evict now iter c) = retain_live now (c_map c)"
      using all le by (simp add: evict_map)
    with True show ?thesis by (auto simp: retain_live_def hm_simps ok split: option.splits)
  next
    case False
    then have ev: "c_map (evict now iter c) = fold (\<lambda>(k, _) m. hm_remove k m) (shed iter (c_map c)) (c_map c)"
      using all by (simp add: evict_map)
    note shed = shed_keys [OF ok assms(2)]
    have "list_all (\<lambda>(k, _). hm_get (c_map c) k \<noteq> None) (shed iter (c_map c))"
      using shed(2) by (auto simp: list_all_iff)
    then have len: "cache_len (evict now iter c) = cache_len c - (cache_len c div 10 + 1)"
      using shed(1,3) assms(3) ok by (simp add: cache_len_def ev len_fold_remove)
    have "ce_expires e \<le> ce_expires e'"
      if "hm_get (c_map c) k = Some e" "hm_get (c_map (evict now iter c)) k = None"
        "hm_get (c_map (evict now iter c)) k' = Some e'" for k e k' e'
      using shed_order [OF ok assms(2)] that by (auto simp: ev get_fold_remove split: if_splits)
    then show ?thesis unfolding if_not_P [OF False] using len by blast
  qed
qed

lemma evict_sheds_soonest_witness:
  "\<forall>k. hm_get (c_map (evict (from_secs 61) id demo_cache)) k = None"
proof -
  have entry: "\<exists>e. (\<forall>k. hm_get (c_map demo_cache) k = (if k = demo_key then Some e else None)) \<and>
      ce_expires e = from_secs 60"
    by (simp add: demo_defs Let_def hm_simps from_secs_def)
  then have "c_map demo_cache \<noteq> []" by (metis hm.get_empty option.distinct(1))
  moreover have "\<exists>k e. hm_get (c_map demo_cache) k = Some e \<and> ce_expires e \<le> from_secs 61"
    "\<And>k. (case hm_get (c_map demo_cache) k of Some e \<Rightarrow> if from_secs 61 < ce_expires e then Some e else None
       | None \<Rightarrow> None) = None"
    using entry by (auto simp: from_secs_def)
  ultimately show ?thesis
    using evict_sheds_soonest [OF demo_run iteration_order_id, of "from_secs 61"] by simp
qed

text \<open>
  The one place where a TTL is lengthened: the additional section does not count towards the
  lifetime of an entry, so an additional record with TTL 0 is accepted and served with TTL 1.
\<close>

lemma additional_zero_ttl_extended:
  "\<exists>c a r. cache_run 4 0 3600 0 c \<and> r \<in> set (additionals demo_msg) \<and> r_ttl r = 0 \<and>
     snd (cache_get (from_secs 10) demo_key c) = Some a \<and> map r_ttl (ca_additionals a) = [1]"
proof (intro exI conjI)
  show "cache_run 4 0 3600 0 demo_cache" by (rule demo_run)
  show "\<lparr>r_name = ''b.example.'', r_ttl = 0, r_data = RD_A 7\<rparr> \<in> set (additionals demo_msg)"
    by (simp add: demo_msg_def)
  show "snd (cache_get (from_secs 10) demo_key demo_cache) =
     Some (the (snd (cache_get (from_secs 10) demo_key demo_cache)))"
    "map r_ttl (ca_additionals (the (snd (cache_get (from_secs 10) demo_key demo_cache)))) = [1]"
    by (simp_all add: get_in_wf demo_defs hm_simps age_def age_ttl_def as_secs_def from_secs_def Let_def)
qed simp

end
