(* ===== verification/Resolver.thy ===== *)
theory Resolver
  imports Devices Blocklist Cache
begin

text \<open>
  The DNS forwarder (\<open>src/dns/mod.rs\<close>): the resolver's state, the handling of one request from raw
  bytes to raw answer, and the upstream exchanges. The only suspension point of a request is the
  upstream exchange, so a request is a first part that runs at once (\<open>handle_local\<close>) and a second
  that runs when the exchange is over (\<open>handle_reply\<close>, \<open>handle_timeout\<close>). The network, the clocks and the crate's functions are
  arguments, and so is the moment a timeout fires.
\<close>

section \<open>State\<close>

definition BLOCK_TTL :: u32 where
  "BLOCK_TTL = 60"

definition FIREFOX_CANARY :: string where
  "FIREFOX_CANARY = ''use-application-dns.net''"

definition FIREFOX_CANARY_LABEL :: string where
  "FIREFOX_CANARY_LABEL = ''firefox-doh-canary''"

record Stats =
  s_total :: u64
  s_blocked :: u64
  s_cache_hits :: u64
  s_upstream_errors :: u64
  s_denied :: u64
  s_udp_overload_drops :: u64
  s_tcp_rejections :: u64
  s_request_timeouts :: u64

definition Stats_default :: Stats where
  "Stats_default = \<lparr>s_total = 0, s_blocked = 0, s_cache_hits = 0, s_upstream_errors = 0, s_denied = 0,
     s_udp_overload_drops = 0, s_tcp_rejections = 0, s_request_timeouts = 0\<rparr>"

text \<open>The device store and the writer it shares with the resolver are one field.\<close>

record Resolver =
  rs_cfg :: DnsConfig
  rs_acl :: Acl
  warned_denied :: bool
  block_nxdomain :: bool
  rs_disable_firefox_doh :: bool
  rs_blocklist :: "Blocklist lock"
  rs_cache :: "Cache lock"
  rs_registry :: registry
  rs_stats :: Stats

definition resolver_acl :: "string list \<Rightarrow> Subnet option \<Rightarrow> Acl" where
  "resolver_acl entries lan =
     (let acl = (case acl_parse entries of Inr a \<Rightarrow> a | Inl _ \<Rightarrow> \<lparr>rules = []\<rparr>)
      in case lan of Some s \<Rightarrow> fst (trust_subnet acl (network s) (prefix_len s)) | None \<Rightarrow> acl)"

definition resolver_new :: "Config \<Rightarrow> Subnet option \<Rightarrow> Blocklist lock \<Rightarrow> registry \<Rightarrow> Resolver" where
  "resolver_new cfg lan blocklist registry =
     \<lparr>rs_cfg = dns cfg, rs_acl = resolver_acl (allow_from (dns cfg)) lan, warned_denied = False,
      block_nxdomain = (b_mode (blocking cfg) = ''nxdomain''),
      rs_disable_firefox_doh = disable_firefox_doh (blocking cfg),
      rs_blocklist = blocklist,
      rs_cache = Some (cache_new (cache_max_entries (dns cfg)) (cache_min_ttl (dns cfg)) (cache_max_ttl (dns cfg))),
      rs_registry = registry, rs_stats = Stats_default\<rparr>"

definition count_stat :: "((u64 \<Rightarrow> u64) \<Rightarrow> Stats \<Rightarrow> Stats) \<Rightarrow> Resolver \<Rightarrow> Resolver" where
  "count_stat upd r = r\<lparr>rs_stats := upd (\<lambda>n. n + 1) (rs_stats r)\<rparr>"

definition allows :: "IpAddr \<Rightarrow> Resolver \<Rightarrow> Resolver \<times> bool" where
  "allows client r =
     (if acl_allows (rs_acl r) client then (r, True)
      else ((count_stat s_denied_update r)\<lparr>warned_denied := True\<rparr>, False))"

definition note_udp_overload :: "Resolver \<Rightarrow> Resolver" where
  "note_udp_overload r = count_stat s_udp_overload_drops_update r"

definition note_tcp_rejection :: "Resolver \<Rightarrow> Resolver" where
  "note_tcp_rejection r = count_stat s_tcp_rejections_update r"

definition udp_payload_limit :: "Resolver \<Rightarrow> u16" where
  "udp_payload_limit r = upstream_udp_payload (rs_cfg r)"

definition resolver_cache_len :: "Resolver \<Rightarrow> nat" where
  "resolver_cache_len r = (case rs_cache r of Some c \<Rightarrow> cache_len c | None \<Rightarrow> 0)"

definition flush_cache :: "Resolver \<Rightarrow> Resolver" where
  "flush_cache r = r\<lparr>rs_cache := map_option cache_clear (rs_cache r)\<rparr>"

definition cache_sweep :: "instant \<Rightarrow> Resolver \<Rightarrow> Resolver" where
  "cache_sweep now r = r\<lparr>rs_cache := map_option (sweep now) (rs_cache r)\<rparr>"

section \<open>Messages\<close>

definition base_response :: "proto \<Rightarrow> Message \<Rightarrow> u16 \<Rightarrow> Message" where
  "base_response P request our_max_payload =
     (let resp = msg_response P (m_id (metadata request)) OP_Query;
          resp = resp\<lparr>metadata := (metadata resp)\<lparr>recursion_desired := recursion_desired (metadata request),
            recursion_available := True, checking_disabled := checking_disabled (metadata request)\<rparr>,
            queries := queries request\<rparr>
      in case response_edns P request our_max_payload of
           Some e \<Rightarrow> msg_set_edns P e resp
         | None \<Rightarrow> resp)"

definition error_response :: "proto \<Rightarrow> Message \<Rightarrow> ResponseCode \<Rightarrow> u16 \<Rightarrow> Message" where
  "error_response P request code our_max_payload =
     (let resp = base_response P request our_max_payload
      in resp\<lparr>metadata := (metadata resp)\<lparr>response_code := code\<rparr>\<rparr>)"

definition encode :: "proto \<Rightarrow> Message \<Rightarrow> u8 list option" where
  "encode P msg = to_vec P msg"

definition sinkhole :: "proto \<Rightarrow> Resolver \<Rightarrow> Message \<Rightarrow> RecordType \<Rightarrow> Message" where
  "sinkhole P r request qtype =
     (let resp = base_response P request (upstream_udp_payload (rs_cfg r)) in
      if block_nxdomain r then resp\<lparr>metadata := (metadata resp)\<lparr>response_code := NXDomain\<rparr>\<rparr>
      else case queries request of
        [] \<Rightarrow> resp
      | query # _ \<Rightarrow>
          (case qtype of
             T_A \<Rightarrow> resp\<lparr>answers := answers resp @ [from_rdata P (q_name query) BLOCK_TTL (RD_A 0)]\<rparr>
           | T_AAAA \<Rightarrow> resp\<lparr>answers := answers resp @ [from_rdata P (q_name query) BLOCK_TTL (RD_AAAA 0)]\<rparr>
           | _ \<Rightarrow> resp))"

fun summarize_rdata :: "proto \<Rightarrow> RData \<Rightarrow> string" where
  "summarize_rdata P (RD_A a) = show_ipv4 a"
| "summarize_rdata P (RD_AAAA a) = show_ipv6 a"
| "summarize_rdata P (RD_CNAME c) = c"
| "summarize_rdata P (RD_PTR p) = p"
| "summarize_rdata P (RD_MX m) = m"
| "summarize_rdata P RD_TXT = ''TXT''"
| "summarize_rdata P other = rtype_str P (rdata_type other)"

definition summarize_answers :: "proto \<Rightarrow> Message \<Rightarrow> string option" where
  "summarize_answers P msg =
     (if answers msg = [] then None
      else let parts = map (\<lambda>rec. summarize_rdata P (r_data rec)) (take 4 (answers msg));
               parts = (if 4 < length (answers msg) then parts @ [''+'' @ show_nat (length (answers msg) - 4)] else parts)
           in Some (join '', '' parts))"

definition clamp_upstream_payload :: "proto \<Rightarrow> u8 list \<Rightarrow> Message \<Rightarrow> u16 \<Rightarrow> u8 list" where
  "clamp_upstream_payload P request parsed limit =
     (case edns parsed of
        Some e \<Rightarrow>
          if limit < em_max_payload e then
            (case to_vec P (parsed\<lparr>edns := Some (edns_set_max_payload P limit e)\<rparr>) of
               Some v \<Rightarrow> v
             | None \<Rightarrow> request)
          else request
      | None \<Rightarrow> request)"

definition answers_request :: "Message \<Rightarrow> Message \<Rightarrow> bool" where
  "answers_request req resp =
     (if m_id (metadata resp) \<noteq> m_id (metadata req) then False
      else case (queries req, queries resp) of
        (q # _, a # _) \<Rightarrow> q_type q = q_type a \<and> q_class q = q_class a \<and> eq_ignore_ascii_case (q_name q) (q_name a)
      | _ \<Rightarrow> False)"

definition fit_limit :: "proto \<Rightarrow> Message \<Rightarrow> u16 \<Rightarrow> nat" where
  "fit_limit P req our_max_payload = unat (max (min (msg_max_payload P req) our_max_payload) 512)"

definition fit_udp :: "proto \<Rightarrow> u8 list \<Rightarrow> u8 list \<Rightarrow> u16 \<Rightarrow> u8 list option" where
  "fit_udp P request response our_max_payload =
     (case from_vec P request of
        None \<Rightarrow> None
      | Some req \<Rightarrow>
          let limit = fit_limit P req our_max_payload in
          if length response \<le> limit then Some response
          else (case from_vec P response of
              None \<Rightarrow> None
            | Some resp \<Rightarrow> to_vec P (msg_truncate P resp)))"

section \<open>Upstream exchanges\<close>

datatype ForwardError =
    BindFailed | ConnectFailed | SendFailed | RecvFailed
  | TcpConnectFailed | RequestTooLarge | TcpWriteFailed | TcpReadFailed | EmptyTcpResponse
  | DifferentQuestion | Undecodable | TimedOut | NoUpstreamsConfigured

text \<open>
  What the network does to the exchange with one upstream: which calls succeed, the datagrams that
  arrive (\<open>None\<close>: the receive fails) and after which nothing more comes, the bytes of the TCP stream,
  and whether the deadline passes before the exchange is over.
\<close>

record UpstreamNet =
  un_bind :: bool
  un_connect :: bool
  un_send :: bool
  un_recv :: "u8 list option list"
  tn_connect :: bool
  tn_write_len :: bool
  tn_write :: bool
  tn_stream :: "u8 list"
  un_late :: bool

text \<open>The result of an asynchronous operation that may never complete.\<close>

datatype 'a async = Ready 'a | Pending

fun udp_recv :: "u8 list \<Rightarrow> nat \<Rightarrow> u8 list option list \<Rightarrow> (ForwardError + u8 list) async" where
  "udp_recv wire cap [] = Pending"
| "udp_recv wire cap (None # _) = Ready (Inl RecvFailed)"
| "udp_recv wire cap (Some d # ds) =
     (let buf = take cap d in
      if 2 \<le> length buf \<and> take 2 buf = take 2 wire then Ready (Inr buf) else udp_recv wire cap ds)"

definition udp_exchange :: "UpstreamNet \<Rightarrow> u8 list \<Rightarrow> u16 \<Rightarrow> (ForwardError + u8 list) async" where
  "udp_exchange net wire limit =
     (if \<not> un_bind net then Ready (Inl BindFailed)
      else if \<not> un_connect net then Ready (Inl ConnectFailed)
      else if \<not> un_send net then Ready (Inl SendFailed)
      else udp_recv wire (max (unat limit) 512) (un_recv net))"

definition u16_be :: "u8 \<Rightarrow> u8 \<Rightarrow> nat" where
  "u16_be a b = unat a * 256 + unat b"

definition to_be_bytes :: "nat \<Rightarrow> u8 list" where
  "to_be_bytes n = [word_of_nat (n div 256), word_of_nat (n mod 256)]"

text \<open>\<open>read_exact\<close>: the bytes and the rest of the stream, \<open>None\<close> when it ends early.\<close>

definition read_exact :: "nat \<Rightarrow> u8 list \<Rightarrow> (u8 list \<times> u8 list) option" where
  "read_exact n s = (if n \<le> length s then Some (take n s, drop n s) else None)"

definition tcp_exchange :: "UpstreamNet \<Rightarrow> u8 list \<Rightarrow> ForwardError + u8 list" where
  "tcp_exchange net wire =
     (if \<not> tn_connect net then Inl TcpConnectFailed
      else if 65535 < length wire then Inl RequestTooLarge
      else if \<not> tn_write_len net \<or> \<not> tn_write net then Inl TcpWriteFailed
      else case tn_stream net of
        a # b # rest \<Rightarrow>
          (let expect = u16_be a b in
           if expect = 0 then Inl EmptyTcpResponse
           else case read_exact expect rest of Some (reply, _) \<Rightarrow> Inr reply | None \<Rightarrow> Inl TcpReadFailed)
      | _ \<Rightarrow> Inl TcpReadFailed)"

definition forward_attempt :: "proto \<Rightarrow> UpstreamNet \<Rightarrow> u8 list \<Rightarrow> u16 \<Rightarrow> (ForwardError + u8 list) async" where
  "forward_attempt P net wire limit =
     (case udp_exchange net wire limit of
        Pending \<Rightarrow> Pending
      | Ready (Inl e) \<Rightarrow> Ready (Inl e)
      | Ready (Inr reply) \<Rightarrow>
          if (case from_vec P reply of Some m \<Rightarrow> truncation (metadata m) | None \<Rightarrow> False)
          then Ready (tcp_exchange net wire)
          else Ready (Inr reply))"

definition with_timeout :: "UpstreamNet \<Rightarrow> (ForwardError + u8 list) async \<Rightarrow> ForwardError + u8 list" where
  "with_timeout net a = (if un_late net then Inl TimedOut else case a of Ready x \<Rightarrow> x | Pending \<Rightarrow> Inl TimedOut)"

type_synonym network = "nat \<Rightarrow> SocketAddr \<Rightarrow> u8 list \<Rightarrow> UpstreamNet"

fun forward_loop ::
    "proto \<Rightarrow> network \<Rightarrow> Message \<Rightarrow> u8 list \<Rightarrow> u16 \<Rightarrow> nat \<Rightarrow> ForwardError option \<Rightarrow> SocketAddr list \<Rightarrow> ForwardError + u8 list" where
  "forward_loop P net parsed wire limit i last_err [] =
     Inl (case last_err of Some e \<Rightarrow> e | None \<Rightarrow> NoUpstreamsConfigured)"
| "forward_loop P net parsed wire limit i last_err (upstream # ups) =
     (let n = net i upstream wire in
      case with_timeout n (forward_attempt P n wire limit) of
        Inr reply \<Rightarrow>
          (case from_vec P reply of
             Some m \<Rightarrow>
               if answers_request parsed m then Inr reply
               else forward_loop P net parsed wire limit (Suc i) (Some DifferentQuestion) ups
           | None \<Rightarrow> forward_loop P net parsed wire limit (Suc i) (Some Undecodable) ups)
      | Inl e \<Rightarrow> forward_loop P net parsed wire limit (Suc i) (Some e) ups)"

definition forward :: "proto \<Rightarrow> network \<Rightarrow> Resolver \<Rightarrow> u8 list \<Rightarrow> Message \<Rightarrow> ForwardError + u8 list" where
  "forward P net r request parsed =
     (let limit = upstream_udp_payload (rs_cfg r);
          wire = clamp_upstream_payload P request parsed limit
      in forward_loop P net parsed wire limit 0 None (upstreams (rs_cfg r)))"

section \<open>Handling a request\<close>

text \<open>What one request reads: the crate's functions, the hasher, the iteration order of the cache
  and the clocks.\<close>

record Env =
  e_proto :: proto
  e_hash :: hasher
  e_iter :: "(Key \<times> Cache.Entry) list \<Rightarrow> (Key \<times> Cache.Entry) list"
  e_get :: instant
  e_evict :: instant
  e_stamp :: instant
  e_learn :: "nat \<Rightarrow> Clock"
  e_log :: Clock
  e_ts :: int
  e_elapsed_ms :: nat

definition resolver_log ::
    "Env \<Rightarrow> string \<Rightarrow> RecordType \<Rightarrow> IpAddr \<Rightarrow> QueryStatus \<Rightarrow> nat option \<Rightarrow> string option \<Rightarrow> string option \<Rightarrow> Resolver \<Rightarrow> Resolver" where
  "resolver_log E domain qtype client status elapsed_ms answer blocklist r =
     (case touch_ip (e_log E) client (rs_registry r) of
        (st, hub) \<Rightarrow>
          r\<lparr>rs_registry := (st, hub\<lparr>h_writer := writer_send (W_Query
            \<lparr>qe_ts = e_ts E, qe_client_ip = show_ip client, qe_domain = domain, qe_qtype = rtype_str (e_proto E) qtype,
             qe_status = status, qe_elapsed_ms = elapsed_ms, qe_answer = answer, qe_blocklist = blocklist\<rparr>)
            (h_writer hub)\<rparr>)\<rparr>)"

text \<open>A request that has to go upstream, suspended there.\<close>

record Pending_Request =
  pr_msg :: Message
  pr_name :: string
  pr_qtype :: RecordType
  pr_key :: "Key option"

datatype Outcome = Answered "u8 list option" | Suspended Pending_Request

definition query_domain :: "Query \<Rightarrow> string" where
  "query_domain q = to_ascii_lowercase (trim_end_matches CHR ''.'' (q_name q))"

definition cache_lookup :: "Env \<Rightarrow> Key option \<Rightarrow> Resolver \<Rightarrow> Resolver \<times> CachedAnswer option" where
  "cache_lookup E key r =
     (case (cache_on (rs_cfg r), key, rs_cache r) of
        (True, Some k, Some c) \<Rightarrow>
          (case cache_get (e_get E) k c of (c', hit) \<Rightarrow> (r\<lparr>rs_cache := Some c'\<rparr>, hit))
      | _ \<Rightarrow> (r, None))"

definition cached_response :: "proto \<Rightarrow> Message \<Rightarrow> u16 \<Rightarrow> CachedAnswer \<Rightarrow> Message" where
  "cached_response P msg payload_limit hit =
     (let resp = base_response P msg payload_limit
      in resp\<lparr>metadata := (metadata resp)\<lparr>response_code := ca_response_code hit, authoritative := ca_authoritative hit\<rparr>,
              answers := ca_answers hit, authorities := ca_authorities hit, additionals := ca_additionals hit\<rparr>)"

text \<open>\<open>handle_inner\<close> up to the upstream exchange.\<close>

definition handle_local :: "Env \<Rightarrow> u8 list \<Rightarrow> IpAddr \<Rightarrow> Resolver \<Rightarrow> Resolver \<times> Outcome" where
  "handle_local E request client r =
     (let P = e_proto E;
          r = count_stat s_total_update r;
          payload_limit = upstream_udp_payload (rs_cfg r)
      in case from_vec P request of
        None \<Rightarrow> (r, Answered None)
      | Some msg \<Rightarrow>
          if message_type (metadata msg) \<noteq> MT_Query \<or> op_code (metadata msg) \<noteq> OP_Query
          then (r, Answered (encode P (error_response P msg Refused payload_limit)))
          else case queries msg of
            [] \<Rightarrow> (r, Answered (encode P (error_response P msg FormErr payload_limit)))
          | query # _ \<Rightarrow>
              let name = query_domain query;
                  qtype = q_type query
              in if rs_disable_firefox_doh r \<and> name = FIREFOX_CANARY
                 then
                   let resp = base_response P msg payload_limit;
                       resp = resp\<lparr>metadata := (metadata resp)\<lparr>response_code := NXDomain\<rparr>\<rparr>;
                       r = count_stat s_blocked_update r;
                       r = resolver_log E name qtype client Blocked None None (Some FIREFOX_CANARY_LABEL) r
                   in (r, Answered (encode P resp))
                 else
                   case (if name = [] then None else Option.bind (rs_blocklist r) (\<lambda>bl. lookup bl name)) of
                     Some list \<Rightarrow>
                       let r = count_stat s_blocked_update r;
                           response = sinkhole P r msg qtype;
                           r = resolver_log E name qtype client Blocked None None (Some list) r
                       in (r, Answered (encode P response))
                   | None \<Rightarrow>
                       let key = from_request msg name
                       in case cache_lookup E key r of
                            (r, Some hit) \<Rightarrow>
                              let resp = cached_response P msg payload_limit hit;
                                  r = count_stat s_cache_hits_update r;
                                  r = resolver_log E name qtype client Cached None (summarize_answers P resp) None r
                              in (r, Answered (encode P resp))
                          | (r, None) \<Rightarrow>
                              (r, Suspended \<lparr>pr_msg = msg, pr_name = name, pr_qtype = qtype, pr_key = key\<rparr>))"

fun reply_status :: "ResponseCode \<Rightarrow> QueryStatus" where
  "reply_status NoError = Forwarded"
| "reply_status NXDomain = NxDomain"
| "reply_status Refused = Refused_st"
| "reply_status _ = ServFail_st"

definition cache_store :: "Env \<Rightarrow> Key option \<Rightarrow> Message \<Rightarrow> Resolver \<Rightarrow> Resolver" where
  "cache_store E key m r =
     (case (cache_on (rs_cfg r), key, rs_cache r) of
        (True, Some k, Some c) \<Rightarrow> r\<lparr>rs_cache := Some (fst (cache_insert (e_evict E) (e_stamp E) (e_iter E) k m c))\<rparr>
      | _ \<Rightarrow> r)"

text \<open>\<open>handle_inner\<close> from the result of the upstream exchange on. The elapsed time saturates at \<open>u32::MAX\<close>.\<close>

definition handle_reply :: "Env \<Rightarrow> IpAddr \<Rightarrow> Pending_Request \<Rightarrow> ForwardError + u8 list \<Rightarrow> Resolver \<Rightarrow> Resolver \<times> u8 list option" where
  "handle_reply E client p result r =
     (let P = e_proto E in
      case result of
        Inr raw \<Rightarrow>
          let elapsed = min (e_elapsed_ms E) (2 ^ 32 - 1) in
          (case from_vec P raw of
             Some m \<Rightarrow>
               let r = cache_store E (pr_key p) m r;
                   r = r\<lparr>rs_registry := learn_from_dns (e_hash E) (e_learn E) m (rs_registry r)\<rparr>;
                   r = resolver_log E (pr_name p) (pr_qtype p) client (reply_status (response_code (metadata m)))
                         (Some elapsed) (summarize_answers P m) None r
               in (r, Some raw)
           | None \<Rightarrow>
               (resolver_log E (pr_name p) (pr_qtype p) client Forwarded (Some elapsed) None None r, Some raw))
      | Inl e \<Rightarrow>
          let r = count_stat s_upstream_errors_update r;
              r = resolver_log E (pr_name p) (pr_qtype p) client ServFail_st None None None r
          in (r, encode P (error_response P (pr_msg p) ServFail (upstream_udp_payload (rs_cfg r)))))"

text \<open>What \<open>handle\<close> answers when the request budget runs out during the upstream exchange.\<close>

definition handle_timeout :: "Env \<Rightarrow> u8 list \<Rightarrow> Resolver \<Rightarrow> Resolver \<times> u8 list option" where
  "handle_timeout E request r =
     (let P = e_proto E; r = count_stat s_request_timeouts_update r
      in (r, Option.bind (from_vec P request)
               (\<lambda>msg. encode P (error_response P msg ServFail (upstream_udp_payload (rs_cfg r))))))"

text \<open>
  A whole request with nothing else happening in between; \<open>late\<close> says that the budget runs out during
  the upstream exchange.
\<close>

definition handle :: "Env \<Rightarrow> network \<Rightarrow> bool \<Rightarrow> u8 list \<Rightarrow> SocketAddr \<Rightarrow> Resolver \<Rightarrow> Resolver \<times> u8 list option" where
  "handle E net late request client r =
     (case handle_local E request (sa_ip client) r of
        (r, Answered out) \<Rightarrow> (r, out)
      | (r, Suspended p) \<Rightarrow>
          if late then handle_timeout E request r
          else handle_reply E (sa_ip client) p (forward (e_proto E) net r request (pr_msg p)) r)"

section \<open>What a request does\<close>

lemma log_fields [simp]:
  "rs_cfg (resolver_log E d q c s e a b r) = rs_cfg r" "rs_acl (resolver_log E d q c s e a b r) = rs_acl r"
  "rs_cache (resolver_log E d q c s e a b r) = rs_cache r" "rs_stats (resolver_log E d q c s e a b r) = rs_stats r"
  "rs_blocklist (resolver_log E d q c s e a b r) = rs_blocklist r"
  by (simp_all add: resolver_log_def split: prod.splits)

lemma count_fields [simp]:
  "rs_cfg (count_stat u r) = rs_cfg r" "rs_acl (count_stat u r) = rs_acl r" "rs_cache (count_stat u r) = rs_cache r"
  "rs_blocklist (count_stat u r) = rs_blocklist r" "rs_registry (count_stat u r) = rs_registry r"
  "rs_disable_firefox_doh (count_stat u r) = rs_disable_firefox_doh r" "block_nxdomain (count_stat u r) = block_nxdomain r"
  by (simp_all add: count_stat_def)

lemma sinkhole_count [simp]: "sinkhole P (count_stat u r) msg qtype = sinkhole P r msg qtype"
  by (simp only: sinkhole_def count_fields)

lemma cache_lookup_fields [simp]:
  "rs_cfg (fst (cache_lookup E k r)) = rs_cfg r" "rs_acl (fst (cache_lookup E k r)) = rs_acl r"
  "rs_registry (fst (cache_lookup E k r)) = rs_registry r"
  by (auto simp: cache_lookup_def split: prod.splits option.splits bool.splits)

lemma cache_lookup_stats: "rs_stats (fst (cache_lookup E k r)) = rs_stats r"
  by (auto simp: cache_lookup_def split: prod.splits option.splits bool.splits)

lemma cache_store_fields [simp]:
  "rs_cfg (cache_store E k m r) = rs_cfg r" "rs_acl (cache_store E k m r) = rs_acl r"
  "rs_registry (cache_store E k m r) = rs_registry r" "rs_stats (cache_store E k m r) = rs_stats r"
  by (auto simp: cache_store_def split: prod.splits option.splits bool.splits)

lemma handle_local_fields:
  "rs_cfg (fst (handle_local E request client r)) = rs_cfg r" "rs_acl (fst (handle_local E request client r)) = rs_acl r"
proof -
  have c: "rs_cfg r' = rs_cfg r1 \<and> rs_acl r' = rs_acl r1" if "cache_lookup E k r1 = (r', hit)" for k r1 r' hit
    using cache_lookup_fields [of E k r1] that by simp
  show "rs_cfg (fst (handle_local E request client r)) = rs_cfg r" "rs_acl (fst (handle_local E request client r)) = rs_acl r"
    by (auto simp: handle_local_def Let_def dest!: c split: option.splits list.splits prod.splits)
qed

lemma handle_reply_fields:
  "rs_cfg (fst (handle_reply E client p res r)) = rs_cfg r" "rs_acl (fst (handle_reply E client p res r)) = rs_acl r"
  by (simp_all add: handle_reply_def Let_def split: sum.splits option.splits)

lemma handle_timeout_fields:
  "rs_cfg (fst (handle_timeout E request r)) = rs_cfg r" "rs_acl (fst (handle_timeout E request r)) = rs_acl r"
  by (simp_all add: handle_timeout_def Let_def)

lemmas handle_fields = handle_local_fields handle_reply_fields handle_timeout_fields

text \<open>A standard query: what passes the first checks of \<open>handle_inner\<close>.\<close>

definition standard_query :: "proto \<Rightarrow> u8 list \<Rightarrow> Message \<Rightarrow> Query \<Rightarrow> bool" where
  "standard_query P request msg q \<longleftrightarrow> from_vec P request = Some msg \<and> message_type (metadata msg) = MT_Query
     \<and> op_code (metadata msg) = OP_Query \<and> (\<exists>rest. queries msg = q # rest)"

text \<open>The list a name is blocked by.\<close>

definition blocked_by :: "Resolver \<Rightarrow> string \<Rightarrow> string option" where
  "blocked_by r name = (if name = [] then None else Option.bind (rs_blocklist r) (\<lambda>bl. lookup bl name))"

definition is_canary :: "Resolver \<Rightarrow> string \<Rightarrow> bool" where
  "is_canary r name \<longleftrightarrow> rs_disable_firefox_doh r \<and> name = FIREFOX_CANARY"

lemma local_canary:
  assumes "standard_query (e_proto E) request msg q" "is_canary r (query_domain q)"
  shows "handle_local E request client r =
    (resolver_log E (query_domain q) (q_type q) client Blocked None None (Some FIREFOX_CANARY_LABEL)
       (count_stat s_blocked_update (count_stat s_total_update r)),
     Answered (encode (e_proto E) (error_response (e_proto E) msg NXDomain (upstream_udp_payload (rs_cfg r)))))"
  using assms by (auto simp: handle_local_def standard_query_def is_canary_def Let_def error_response_def)

lemma local_blocked:
  assumes "standard_query (e_proto E) request msg q" "\<not> is_canary r (query_domain q)"
    and "blocked_by r (query_domain q) = Some list"
  shows "handle_local E request client r =
    (resolver_log E (query_domain q) (q_type q) client Blocked None None (Some list)
       (count_stat s_blocked_update (count_stat s_total_update r)),
     Answered (encode (e_proto E) (sinkhole (e_proto E) r msg (q_type q))))"
  using assms
  by (auto simp: handle_local_def standard_query_def is_canary_def blocked_by_def Let_def)

lemma local_open:
  assumes "standard_query (e_proto E) request msg q" "\<not> is_canary r (query_domain q)"
    and "blocked_by r (query_domain q) = None"
    and "cache_lookup E (from_request msg (query_domain q)) (count_stat s_total_update r) = (r', hit)"
  shows "handle_local E request client r =
    (case hit of
       None \<Rightarrow> (r', Suspended \<lparr>pr_msg = msg, pr_name = query_domain q, pr_qtype = q_type q,
                 pr_key = from_request msg (query_domain q)\<rparr>)
     | Some a \<Rightarrow>
         let resp = cached_response (e_proto E) msg (upstream_udp_payload (rs_cfg r)) a
         in (resolver_log E (query_domain q) (q_type q) client Cached None (summarize_answers (e_proto E) resp) None
               (count_stat s_cache_hits_update r'), Answered (encode (e_proto E) resp)))"
  using assms
  by (auto simp: handle_local_def standard_query_def is_canary_def blocked_by_def Let_def split: option.splits if_splits)

lemma local_nonstandard:
  assumes "from_vec (e_proto E) request = Some msg" "\<nexists>q. standard_query (e_proto E) request msg q"
  shows "\<exists>code. handle_local E request client r = (count_stat s_total_update r,
     Answered (encode (e_proto E) (error_response (e_proto E) msg code (upstream_udp_payload (rs_cfg r)))))"
  using assms by (auto simp: handle_local_def standard_query_def Let_def split: list.splits)

text \<open>
  C7. A blocked name is answered locally: whatever the network would say, whatever the cache holds
  and whether or not the request budget runs out, a standard query for a name the blocklist covers is
  answered with the sinkhole response, the cache is untouched, and the query is counted as blocked and
  logged with the list that blocks it. The exception is Mozilla's canary name, which, when the setting
  asks for it, is answered NXDOMAIN and logged under its own label.
\<close>

theorem blocked_answered_locally:
  assumes "standard_query (e_proto E) request msg q"
    and "is_canary r (query_domain q) \<or> blocked_by r (query_domain q) = Some list"
  shows "handle E net late request client r =
    (resolver_log E (query_domain q) (q_type q) (sa_ip client) Blocked None None
       (Some (if is_canary r (query_domain q) then FIREFOX_CANARY_LABEL else list))
       (count_stat s_blocked_update (count_stat s_total_update r)),
     encode (e_proto E)
       (if is_canary r (query_domain q)
        then error_response (e_proto E) msg NXDomain (upstream_udp_payload (rs_cfg r))
        else sinkhole (e_proto E) r msg (q_type q))) \<and>
    rs_cache (fst (handle E net late request client r)) = rs_cache r"
  using assms local_canary [OF assms(1)] local_blocked [OF assms(1)]
  by (cases "is_canary r (query_domain q)") (simp_all add: handle_def)


text \<open>A codec for two messages, a query and its answer, with the crate's documented setters.\<close>

definition demo_meta :: "u16 \<Rightarrow> MessageType \<Rightarrow> Metadata" where
  "demo_meta i t = \<lparr>m_id = i, message_type = t, op_code = OP_Query, authoritative = False, truncation = False,
     recursion_desired = True, recursion_available = True, checking_disabled = False, response_code = NoError\<rparr>"

definition demo_question :: Query where
  "demo_question = \<lparr>q_name = ''Ads.example.com.'', q_type = T_A, q_class = 1\<rparr>"

definition demo_request :: Message where
  "demo_request = \<lparr>metadata = demo_meta 5 MT_Query, queries = [demo_question], answers = [], authorities = [],
     additionals = [], edns = None\<rparr>"

definition demo_answer :: Message where
  "demo_answer = \<lparr>metadata = demo_meta 5 MT_Response, queries = [demo_question],
     answers = [\<lparr>r_name = ''Ads.example.com.'', r_ttl = 300, r_data = RD_A 1\<rparr>], authorities = [],
     additionals = [], edns = None\<rparr>"

definition demo_proto :: proto where
  "demo_proto = \<lparr>from_vec = (\<lambda>b. if b = [0, 5, 1] then Some demo_request else if b = [0, 5, 2] then Some demo_answer else None),
     to_vec = (\<lambda>m. Some [0, ucast (m_id (metadata m))]),
     msg_response = (\<lambda>i op. \<lparr>metadata = demo_meta i MT_Response, queries = [], answers = [], authorities = [],
       additionals = [], edns = None\<rparr>),
     msg_set_edns = (\<lambda>e m. m\<lparr>edns := Some e\<rparr>), msg_max_payload = (\<lambda>_. 512),
     msg_truncate = (\<lambda>m. m\<lparr>answers := []\<rparr>),
     edns_new = \<lparr>em_max_payload = 1232, em_version = 0, em_dnssec_ok = False\<rparr>,
     edns_set_max_payload = (\<lambda>n e. e\<lparr>em_max_payload := n\<rparr>), edns_set_version = (\<lambda>n e. e\<lparr>em_version := n\<rparr>),
     edns_set_dnssec_ok = (\<lambda>b e. e\<lparr>em_dnssec_ok := b\<rparr>),
     from_rdata = (\<lambda>n t d. \<lparr>r_name = n, r_ttl = t, r_data = d\<rparr>), rtype_str = (\<lambda>_. ''A'')\<rparr>"

lemma demo_proto_ok: "proto_ok demo_proto"
  by (simp add: proto_ok_def demo_proto_def demo_meta_def)

definition demo_env :: Env where
  "demo_env = \<lparr>e_proto = demo_proto, e_hash = demo_hash, e_iter = id, e_get = 10, e_evict = 10, e_stamp = 10,
     e_learn = (\<lambda>_. demo_ck 10), e_log = demo_ck 10, e_ts = 7, e_elapsed_ms = 3\<rparr>"

definition demo_net :: network where
  "demo_net i a wire = \<lparr>un_bind = True, un_connect = True, un_send = True, un_recv = [Some [9, 9, 9], Some [0, 5, 2]],
     tn_connect = False, tn_write_len = True, tn_write = True, tn_stream = [], un_late = False\<rparr>"

definition demo_resolver :: "Blocklist \<Rightarrow> Resolver" where
  "demo_resolver bl = resolver_new Config_default None (Some bl) (devices_new demo_oui, hub_new)"

lemma demo_query_domain: "query_domain demo_question = ''ads.example.com''"
  by (simp add: query_domain_def demo_question_def trim_end_matches_def str_eval)

lemma demo_standard: "standard_query (e_proto demo_env) [0, 5, 1] demo_request demo_question"
  by (simp add: standard_query_def demo_env_def demo_proto_def demo_request_def demo_meta_def)

definition demo_list :: Blocklist where
  "demo_list = Blocklist_default\<lparr>sources := [\<lparr>ss_name = ''my list'', ss_entries = 1\<rparr>], exact := [(''ads.example.com'', 0)]\<rparr>"

lemma demo_blocked: "blocked_by (demo_resolver demo_list) ''ads.example.com'' = Some ''my list''"
  by (simp add: blocked_by_def demo_resolver_def resolver_new_def demo_list_def Blocklist_default_def lookup_def
      is_allowed_def allowed_above_iff hm_get_def source_name_def)


theorem blocked_answered_locally_witness:
  "standard_query (e_proto demo_env) [0, 5, 1] demo_request demo_question \<and>
   blocked_by (demo_resolver demo_list) (query_domain demo_question) = Some ''my list'' \<and>
   rs_cache (fst (handle demo_env demo_net True [0, 5, 1] \<lparr>sa_ip = IpV4 5, sa_port = 9\<rparr> (demo_resolver demo_list))) =
     Some (cache_new 20000 30 86400)"
  using demo_standard demo_blocked
    blocked_answered_locally [OF demo_standard, of "demo_resolver demo_list" "''my list''"]
  by (simp add: demo_query_domain)
     (simp add: demo_resolver_def resolver_new_def Config_default_def DnsConfig_default_def)

section \<open>Forwarding\<close>

text \<open>What the upstream at position \<open>i\<close> contributes: an acceptable reply, or nothing.\<close>

definition usable_reply :: "proto \<Rightarrow> network \<Rightarrow> Message \<Rightarrow> u8 list \<Rightarrow> u16 \<Rightarrow> nat \<Rightarrow> SocketAddr \<Rightarrow> u8 list option" where
  "usable_reply P net parsed wire limit i upstream =
     (let n = net i upstream wire in
      case with_timeout n (forward_attempt P n wire limit) of
        Inl _ \<Rightarrow> None
      | Inr reply \<Rightarrow>
          (case from_vec P reply of Some m \<Rightarrow> if answers_request parsed m then Some reply else None | None \<Rightarrow> None))"

text \<open>The specification of \<open>forward\<close>: the replies in the order of the upstreams, the first of which is taken.\<close>

definition usable_replies :: "proto \<Rightarrow> network \<Rightarrow> Message \<Rightarrow> u8 list \<Rightarrow> u16 \<Rightarrow> nat \<Rightarrow> SocketAddr list \<Rightarrow> u8 list list" where
  "usable_replies P net parsed wire limit i ups =
     concat (map (\<lambda>(j, u). case usable_reply P net parsed wire limit j u of Some b \<Rightarrow> [b] | None \<Rightarrow> []) (enumerate i ups))"

lemma forward_loop_replies:
  "(case forward_loop P net parsed wire limit i err ups of Inr b \<Rightarrow> Some b | Inl _ \<Rightarrow> None) =
   (case usable_replies P net parsed wire limit i ups of [] \<Rightarrow> None | b # _ \<Rightarrow> Some b)"
proof (induction ups arbitrary: i err)
  case (Cons u ups)
  show ?case
    by (cases "with_timeout (net i u wire) (forward_attempt P (net i u wire) wire limit)")
      (auto simp: Let_def Cons.IH usable_replies_def usable_reply_def split: option.splits)
qed (simp add: usable_replies_def)

text \<open>
  C9. Forwarding is equivalent to its specification: collect, in the configured order, the replies of
  the upstreams that answer in time, decode and answer the very question that was asked (a truncated
  UDP reply being replaced by that upstream's TCP reply), and take the first; it fails exactly when
  there is none.
\<close>

theorem forward_first_usable:
  "(case forward P net r request parsed of Inr b \<Rightarrow> Some b | Inl _ \<Rightarrow> None) =
   (case usable_replies P net parsed (clamp_upstream_payload P request parsed (upstream_udp_payload (rs_cfg r)))
       (upstream_udp_payload (rs_cfg r)) 0 (upstreams (rs_cfg r)) of
      [] \<Rightarrow> None | b # _ \<Rightarrow> Some b)"
  by (simp add: forward_def Let_def forward_loop_replies)

lemma usable_reply_answers:
  "usable_reply P net parsed wire limit i u = Some b \<Longrightarrow> \<exists>m. from_vec P b = Some m \<and> answers_request parsed m"
  by (auto simp: usable_reply_def Let_def split: option.splits sum.splits if_splits)

lemma forward_answers:
  assumes "forward P net r request parsed = Inr b"
  shows "\<exists>m. from_vec P b = Some m \<and> answers_request parsed m"
proof -
  have "b \<in> set (usable_replies P net parsed wire limit i ups) \<Longrightarrow>
      \<exists>m. from_vec P b = Some m \<and> answers_request parsed m" for wire limit i ups
    by (auto simp: usable_replies_def usable_reply_answers split: option.splits)
  then show ?thesis
    using forward_loop_replies [of P net parsed
        "clamp_upstream_payload P request parsed (upstream_udp_payload (rs_cfg r))" "upstream_udp_payload (rs_cfg r)" 0
        None "upstreams (rs_cfg r)"] assms
    by (auto simp: forward_def Let_def split: list.splits) (metis list.set_intros(1))
qed

section \<open>Answers match their question\<close>

text \<open>A response netwatch makes itself: the envelope of the request.\<close>

definition echoes :: "Message \<Rightarrow> Message \<Rightarrow> bool" where
  "echoes msg resp \<longleftrightarrow>
     m_id (metadata resp) = m_id (metadata msg) \<and> message_type (metadata resp) = MT_Response
     \<and> queries resp = queries msg
     \<and> recursion_desired (metadata resp) = recursion_desired (metadata msg)
     \<and> checking_disabled (metadata resp) = checking_disabled (metadata msg)
     \<and> map_option em_dnssec_ok (edns resp) = map_option em_dnssec_ok (edns msg)"

lemma base_response_facts:
  assumes "proto_ok P"
  shows "echoes msg (base_response P msg limit)" "answers (base_response P msg limit) = []"
  using assms
  by (auto simp: base_response_def Let_def proto_ok_def response_edns_def echoes_def split: option.splits)

lemma echoes_update:
  assumes "echoes msg resp"
  shows "echoes msg (resp\<lparr>answers := a\<rparr>)" "echoes msg (resp\<lparr>authorities := a\<rparr>)" "echoes msg (resp\<lparr>additionals := a\<rparr>)"
    and "echoes msg (resp\<lparr>metadata := (metadata resp)\<lparr>response_code := c\<rparr>\<rparr>)"
    and "echoes msg (resp\<lparr>metadata := (metadata resp)\<lparr>response_code := c, authoritative := b\<rparr>\<rparr>)"
  using assms by (simp_all add: echoes_def)

lemma error_echoes: "proto_ok P \<Longrightarrow> echoes msg (error_response P msg code limit)"
  by (simp add: error_response_def Let_def echoes_update base_response_facts)

lemma sinkhole_echoes: "proto_ok P \<Longrightarrow> echoes msg (sinkhole P r msg qtype)"
  by (simp add: sinkhole_def Let_def echoes_update base_response_facts split: list.splits RecordType.splits)

lemma cached_echoes: "proto_ok P \<Longrightarrow> echoes msg (cached_response P msg limit hit)"
proof -
  assume "proto_ok P"
  note e = echoes_update(5) [OF base_response_facts(1) [OF \<open>proto_ok P\<close>]]
  show ?thesis
    using echoes_update(3) [OF echoes_update(2) [OF echoes_update(1) [OF e]]]
    by (simp add: cached_response_def Let_def)
qed

definition local_answer :: "proto \<Rightarrow> Message \<Rightarrow> u8 list option \<Rightarrow> bool" where
  "local_answer P msg out \<longleftrightarrow> (\<exists>resp. out = to_vec P resp \<and> echoes msg resp)"

lemma handle_local_answer:
  assumes "proto_ok (e_proto E)" "from_vec (e_proto E) request = Some msg"
  shows "case handle_local E request client r of
      (r', Answered out) \<Rightarrow> local_answer (e_proto E) msg out
    | (r', Suspended p) \<Rightarrow> pr_msg p = msg"
proof (cases "\<exists>q. standard_query (e_proto E) request msg q")
  case False
  then obtain code where "handle_local E request client r = (count_stat s_total_update r,
      Answered (encode (e_proto E) (error_response (e_proto E) msg code (upstream_udp_payload (rs_cfg r)))))"
    using local_nonstandard [OF assms(2)] by blast
  then show ?thesis using error_echoes [OF assms(1)] by (auto simp: local_answer_def encode_def)
next
  case True
  then obtain q where q: "standard_query (e_proto E) request msg q" by blast
  obtain r' hit where hit: "cache_lookup E (from_request msg (query_domain q)) (count_stat s_total_update r) = (r', hit)"
    by fastforce
  consider "is_canary r (query_domain q)"
    | list where "\<not> is_canary r (query_domain q)" "blocked_by r (query_domain q) = Some list"
    | "\<not> is_canary r (query_domain q)" "blocked_by r (query_domain q) = None"
    by fastforce
  then show ?thesis
  proof cases
    case 1
    then show ?thesis
      using local_canary [OF q] error_echoes [OF assms(1)] by (auto simp: local_answer_def encode_def)
  next
    case 2
    then show ?thesis
      using local_blocked [OF q] sinkhole_echoes [OF assms(1)] by (auto simp: local_answer_def encode_def)
  next
    case 3
    then show ?thesis
      using local_open [OF q 3 hit] cached_echoes [OF assms(1)]
      by (cases hit) (auto simp: local_answer_def encode_def Let_def)
  qed
qed

lemma answers_request_same:
  assumes "answers_request req resp"
  obtains q qs a as where "m_id (metadata resp) = m_id (metadata req)" "queries req = q # qs" "queries resp = a # as"
    "q_type a = q_type q" "q_class a = q_class q" "to_ascii_lowercase (q_name a) = to_ascii_lowercase (q_name q)"
proof (cases "queries req"; cases "queries resp")
  fix q qs a as
  assume "queries req = q # qs" "queries resp = a # as"
  then show thesis using that assms by (simp add: answers_request_def eq_ignore_ascii_case_def split: if_splits)
qed (use assms in \<open>simp_all add: answers_request_def split: if_splits\<close>)

lemma handle_answers:
  assumes "proto_ok (e_proto E)" "from_vec (e_proto E) request = Some msg"
    and "snd (handle E net late request client r) = Some out"
  shows "(\<exists>resp. to_vec (e_proto E) resp = Some out \<and> echoes msg resp) \<or>
    (\<exists>m. from_vec (e_proto E) out = Some m \<and> answers_request msg m)"
proof -
  obtain r' oc where l: "handle_local E request (sa_ip client) r = (r', oc)" by fastforce
  note la = handle_local_answer [OF assms(1,2), of "sa_ip client" r]
  show ?thesis
  proof (cases oc)
    case (Answered o1)
    then show ?thesis using la assms(3) l by (auto simp: handle_def local_answer_def)
  next
    case (Suspended p)
    then have p: "pr_msg p = msg" using la l by simp
    show ?thesis
    proof (cases "forward (e_proto E) net r' request msg")
      case (Inr b)
      then show ?thesis
        using forward_answers [OF Inr] assms(3) l Suspended p error_echoes [OF assms(1)] assms(2)
        by (cases late) (auto simp: handle_def handle_timeout_def handle_reply_def encode_def Let_def split: option.splits)
    next
      case (Inl e)
      then show ?thesis
        using assms(3) l Suspended p error_echoes [OF assms(1)] assms(2)
        by (cases late) (auto simp: handle_def handle_timeout_def handle_reply_def encode_def Let_def)
    qed
  qed
qed

text \<open>
  C8. Every answer answers its question. Whatever bytes arrive from upstream and whether or not the
  request budget runs out, the answer to a decodable request either is the encoding of a response
  with the request's transaction id, question, RD and CD bits, DNSSEC flag and an OPT record exactly
  when the request had one, or is an upstream reply with the same id and question. No client is ever
  handed another client's envelope. The same question is the same type, class and name, up to the case
  of its letters.
\<close>

theorem answer_matches_question:
  assumes "proto_ok (e_proto E)" "from_vec (e_proto E) request = Some msg"
    and "snd (handle E net late request client r) = Some out"
  shows "(\<exists>resp. to_vec (e_proto E) resp = Some out \<and> echoes msg resp) \<or>
    (\<exists>m q qs a as. from_vec (e_proto E) out = Some m \<and> m_id (metadata m) = m_id (metadata msg) \<and>
       queries msg = q # qs \<and> queries m = a # as \<and> q_type a = q_type q \<and> q_class a = q_class q \<and>
       to_ascii_lowercase (q_name a) = to_ascii_lowercase (q_name q))"
  using handle_answers [OF assms] by (blast elim: answers_request_same)

lemma demo_unblocked:
  "blocked_by (demo_resolver Blocklist_default) ''ads.example.com'' = None"
  "\<not> is_canary (demo_resolver bl) ''ads.example.com''"
  by (simp_all add: blocked_by_def demo_resolver_def resolver_new_def Blocklist_default_def lookup_def is_canary_def
      is_allowed_def allowed_above_iff wildcard_above.simps hm_get_def FIREFOX_CANARY_def)

lemma demo_local:
  "handle_local demo_env [0, 5, 1] c (demo_resolver Blocklist_default) =
     (count_stat s_total_update (demo_resolver Blocklist_default),
      Suspended \<lparr>pr_msg = demo_request, pr_name = ''ads.example.com'', pr_qtype = T_A,
        pr_key = from_request demo_request ''ads.example.com''\<rparr>)"
proof -
  have "cache_lookup demo_env k (count_stat s_total_update (demo_resolver Blocklist_default)) =
      (count_stat s_total_update (demo_resolver Blocklist_default), None)" for k
    by (cases k) (auto simp: cache_lookup_def count_stat_def demo_resolver_def resolver_new_def cache_get_def cache_new_def hm_get_def
        split: bool.splits)
  from local_open [OF demo_standard _ _ this, unfolded demo_query_domain, OF demo_unblocked(2,1)]
  show ?thesis by (simp add: demo_question_def)
qed

lemma demo_forward:
  assumes "rs_cfg r = dns Config_default"
  shows "forward demo_proto demo_net r [0, 5, 1] demo_request = Inr [0, 5, 2]"
proof -
  have "udp_recv [0, 5, 1] n [Some [9, 9, 9], Some [0, 5, 2]] = Ready (Inr [0, 5, 2])" if "512 \<le> n" for n
    using that by (simp add: Let_def)
  then have "udp_exchange (demo_net i u [0, 5, 1]) [0, 5, 1] limit = Ready (Inr [0, 5, 2])" for i u limit
    by (simp add: udp_exchange_def demo_net_def del: udp_recv.simps)
  then have "with_timeout (demo_net i u [0, 5, 1]) (forward_attempt demo_proto (demo_net i u [0, 5, 1]) [0, 5, 1] limit) =
      Inr [0, 5, 2]" for i u limit
    by (simp add: forward_attempt_def with_timeout_def) (simp add: demo_proto_def demo_answer_def demo_meta_def demo_net_def)
  moreover have "from_vec demo_proto [0, 5, 2] = Some demo_answer" "answers_request demo_request demo_answer"
    by (simp_all add: demo_proto_def demo_answer_def answers_request_def demo_request_def demo_meta_def eq_ignore_ascii_case_def)
  ultimately show ?thesis
    by (simp add: forward_def assms clamp_upstream_payload_def demo_request_def Config_default_def DnsConfig_default_def)
qed

lemma handle_reply_raw: "snd (handle_reply E c p (Inr raw) r) = Some raw"
  by (simp add: handle_reply_def Let_def split: option.splits)

lemma demo_forwarded:
  "snd (handle demo_env demo_net False [0, 5, 1] \<lparr>sa_ip = IpV4 5, sa_port = 9\<rparr> (demo_resolver Blocklist_default)) = Some [0, 5, 2]"
proof -
  have "rs_cfg (count_stat u (demo_resolver Blocklist_default)) = dns Config_default" for u
    by (simp add: demo_resolver_def resolver_new_def)
  note demo_forward [OF this]
  then show ?thesis
    by (simp add: handle_def demo_local) (simp add: demo_env_def handle_reply_raw)
qed

theorem answer_matches_question_witness:
  "proto_ok (e_proto demo_env) \<and> from_vec (e_proto demo_env) [0, 5, 1] = Some demo_request \<and>
   ((\<exists>resp. to_vec (e_proto demo_env) resp = Some [0, 5, 2] \<and> echoes demo_request resp) \<or>
    (\<exists>m q qs a as. from_vec (e_proto demo_env) [0, 5, 2] = Some m \<and> m_id (metadata m) = m_id (metadata demo_request) \<and>
       queries demo_request = q # qs \<and> queries m = a # as \<and> q_type a = q_type q \<and> q_class a = q_class q \<and>
       to_ascii_lowercase (q_name a) = to_ascii_lowercase (q_name q)))"
proof -
  have "proto_ok (e_proto demo_env)" using demo_proto_ok by (simp add: demo_env_def)
  moreover have "from_vec (e_proto demo_env) [0, 5, 1] = Some demo_request" by (simp add: demo_env_def demo_proto_def)
  ultimately show ?thesis using answer_matches_question [OF _ _ demo_forwarded] by blast
qed

section \<open>The query log\<close>

text \<open>The query events waiting in the writer's queue and the number of those that were dropped.\<close>

definition query_log :: "Hub \<Rightarrow> QueryEvent list \<times> u64" where
  "query_log h = ([e. W_Query e \<leftarrow> w_queue (h_writer h)], dc_queries (w_dropped (h_writer h)))"

definition logs_one :: "QueryEvent \<Rightarrow> QueryEvent list \<times> u64 \<Rightarrow> QueryEvent list \<times> u64 \<Rightarrow> bool" where
  "logs_one ev before after \<longleftrightarrow> after = (fst before @ [ev], snd before) \<or> after = (fst before, snd before + 1)"

lemma persist_query_log [simp]: "query_log (persist ts d h) = query_log h"
  by (simp add: query_log_def persist_def writer_send_def)

lemma observe_name_query_log: "query_log (snd (observe_name_for_ip fp ck ip host r)) = query_log (snd r)"
  by (cases r) (auto simp: observe_name_for_ip_def Let_def split: option.splits prod.splits)

lemma learn_query_log: "query_log (snd (learn_from_dns fp ck msg r)) = query_log (snd r)"
proof -
  have step: "query_log (snd (learn_record fp c rec r)) = query_log (snd r)" for c rec r
    by (auto simp: learn_record_def observe_name_query_log split: RData.splits option.splits)
  have "query_log (snd (fold (\<lambda>(i, rec). learn_record fp (ck i) rec) xs r)) = query_log (snd r)" for xs r
    by (induction xs arbitrary: r) (auto simp: step)
  then show ?thesis by (simp add: learn_from_dns_def)
qed

lemma touch_query_log: "query_log (snd (touch_ip ck ip r)) = query_log (snd r)"
  by (cases ip; cases r) (auto simp: touch_write_def split: option.splits prod.splits)

lemma send_query_log: "logs_one ev (query_log h) (query_log (h\<lparr>h_writer := writer_send (W_Query ev) (h_writer h)\<rparr>))"
  by (simp add: query_log_def logs_one_def writer_send_def)

definition hub_of :: "Resolver \<Rightarrow> Hub" where
  "hub_of r = snd (rs_registry r)"

lemma resolver_log_one:
  "\<exists>ev. logs_one ev (query_log (hub_of r)) (query_log (hub_of (resolver_log E d t c s e a b r))) \<and>
     qe_domain ev = d \<and> qe_client_ip ev = show_ip c \<and> qe_status ev = s \<and> qe_blocklist ev = b"
proof -
  obtain st h where t: "touch_ip (e_log E) c (rs_registry r) = (st, h)" by fastforce
  then have "query_log h = query_log (hub_of r)" using touch_query_log [of "e_log E" c "rs_registry r"] by (simp add: hub_of_def)
  then show ?thesis
    using send_query_log [of _ h] by (simp add: resolver_log_def t hub_of_def) (metis QueryEvent.select_convs)
qed

text \<open>What a request gives the writer: at most one device row, then its own line.\<close>

definition writer_of :: "Resolver \<Rightarrow> Writer" where
  "writer_of r = h_writer (hub_of r)"

definition device_rows_only :: "WriteOp list \<Rightarrow> bool" where
  "device_rows_only ops \<longleftrightarrow> ops = [] \<or> (\<exists>d. ops = [W_Device d])"

lemma touch_writer:
  "\<exists>ops. device_rows_only ops \<and> h_writer (snd (touch_ip ck ip reg)) = fold writer_send ops (h_writer (snd reg))"
proof (cases ip)
  case (IpV4 v4)
  have none: "\<exists>ops. device_rows_only ops \<and> w = fold writer_send ops w" for w
    by (intro exI [of _ "[]"]) (simp add: device_rows_only_def)
  have one: "\<exists>ops. device_rows_only ops \<and> writer_send (W_Device d) w = fold writer_send ops w" for d w
    by (intro exI [of _ "[W_Device d]"]) (simp add: device_rows_only_def)
  show ?thesis
    by (cases reg) (auto simp: IpV4 touch_write_def persist_def none one split: option.splits prod.splits)
next
  case (IpV6 v6)
  then show ?thesis by (intro exI [of _ "[]"]) (simp add: device_rows_only_def)
qed

lemma resolver_log_writes:
  "\<exists>ops. device_rows_only ops \<and> writer_of (resolver_log E d t c s e a b r) = fold writer_send (ops @ [W_Query
     \<lparr>qe_ts = e_ts E, qe_client_ip = show_ip c, qe_domain = d, qe_qtype = rtype_str (e_proto E) t,
      qe_status = s, qe_elapsed_ms = e, qe_answer = a, qe_blocklist = b\<rparr>]) (writer_of r)"
proof -
  obtain st h where t: "touch_ip (e_log E) c (rs_registry r) = (st, h)" by fastforce
  then obtain ops where "device_rows_only ops" "h_writer h = fold writer_send ops (writer_of r)"
    using touch_writer [of "e_log E" c "rs_registry r"] by (auto simp: writer_of_def hub_of_def)
  then show ?thesis by (intro exI [of _ ops]) (simp add: resolver_log_def t writer_of_def hub_of_def)
qed

lemma hub_of_simps [simp]:
  "hub_of (count_stat u r) = hub_of r" "hub_of (fst (cache_lookup E k r)) = hub_of r"
  "hub_of (cache_store E k m r) = hub_of r"
  by (simp_all add: hub_of_def)

lemma hub_of_learn [simp]: "query_log (hub_of (r1\<lparr>rs_registry := learn_from_dns fp ck m (rs_registry r)\<rparr>)) = query_log (hub_of r)"
  by (simp add: hub_of_def learn_query_log)

text \<open>A standard query that is answered within its budget leaves exactly one line in the query log.\<close>

lemma query_logged:
  assumes "standard_query (e_proto E) request msg q"
  shows "\<exists>ev. logs_one ev (query_log (hub_of r)) (query_log (hub_of (fst (handle E net False request client r)))) \<and>
    qe_domain ev = query_domain q \<and> qe_client_ip ev = show_ip (sa_ip client) \<and>
    (qe_status ev = Blocked) = (is_canary r (query_domain q) \<or> blocked_by r (query_domain q) \<noteq> None) \<and>
    qe_blocklist ev = (if is_canary r (query_domain q) then Some FIREFOX_CANARY_LABEL else blocked_by r (query_domain q))"
proof -
  let ?c = "sa_ip client"
  obtain r' hit where hit: "cache_lookup E (from_request msg (query_domain q)) (count_stat s_total_update r) = (r', hit)"
    by fastforce
  have hub: "hub_of r' = hub_of r" using hub_of_simps(2) [of E _ "count_stat s_total_update r"] by (metis hit fst_conv hub_of_simps(1))
  consider "is_canary r (query_domain q)"
    | list where "\<not> is_canary r (query_domain q)" "blocked_by r (query_domain q) = Some list"
    | "\<not> is_canary r (query_domain q)" "blocked_by r (query_domain q) = None"
    by fastforce
  then show ?thesis
  proof cases
    case 1
    then show ?thesis
      using local_canary [OF assms] resolver_log_one [of "count_stat s_blocked_update (count_stat s_total_update r)" E
        "query_domain q" "q_type q" ?c Blocked None None "Some FIREFOX_CANARY_LABEL"]
      by (simp add: handle_def)
  next
    case 2
    then show ?thesis
      using local_blocked [OF assms] resolver_log_one [of "count_stat s_blocked_update (count_stat s_total_update r)" E
        "query_domain q" "q_type q" ?c Blocked None None "Some list"]
      by (simp add: handle_def)
  next
    case 3
    note lo = local_open [OF assms 3 hit, of ?c]
    have not_blocked: "reply_status code \<noteq> Blocked" for code by (cases code) simp_all
    have log: "\<exists>ev. logs_one ev (query_log (hub_of r)) (query_log (hub_of (resolver_log E (query_domain q) (q_type q) ?c s e a None r1))) \<and>
        qe_domain ev = query_domain q \<and> qe_client_ip ev = show_ip ?c \<and> (qe_status ev = Blocked) = False \<and> qe_blocklist ev = None"
      if "query_log (hub_of r1) = query_log (hub_of r)" "s \<noteq> Blocked" for r1 s e a
      using resolver_log_one [of r1 E "query_domain q" "q_type q" ?c s e a None] that by metis
    show ?thesis
    proof (cases hit)
      case (Some a)
      then show ?thesis using lo log 3 hub by (simp add: handle_def Let_def)
    next
      case None
      then show ?thesis
        using lo log 3 hub not_blocked
        by (simp add: handle_def handle_reply_def Let_def split: sum.splits option.splits)
    qed
  qed
qed

text \<open>
  A query that runs out of its budget is the exception: the client is told SERVFAIL, one more timeout is
  counted (\<open>request_counts\<close> below), and the query log neither records the query nor counts it as dropped.
\<close>

lemma timed_out_query_not_logged:
  assumes "standard_query (e_proto E) request msg q" "\<not> is_canary r (query_domain q)"
    and "blocked_by r (query_domain q) = None"
    and "snd (cache_lookup E (from_request msg (query_domain q)) (count_stat s_total_update r)) = None"
  shows "query_log (hub_of (fst (handle E net True request client r))) = query_log (hub_of r)"
    "snd (handle E net True request client r) =
       encode (e_proto E) (error_response (e_proto E) msg ServFail (upstream_udp_payload (rs_cfg r)))"
proof -
  obtain r' where hit: "cache_lookup E (from_request msg (query_domain q)) (count_stat s_total_update r) = (r', None)"
    using assms(4) by (metis prod.collapse)
  have r': "hub_of r' = hub_of r" "rs_cfg r' = rs_cfg r"
    using hub_of_simps(2) [of E "from_request msg (query_domain q)" "count_stat s_total_update r"]
      cache_lookup_fields(1) [of E "from_request msg (query_domain q)" "count_stat s_total_update r"] by (simp_all add: hit)
  note local_open [OF assms(1-3) hit, of "sa_ip client"]
  then show "query_log (hub_of (fst (handle E net True request client r))) = query_log (hub_of r)"
    "snd (handle E net True request client r) =
       encode (e_proto E) (error_response (e_proto E) msg ServFail (upstream_udp_payload (rs_cfg r)))"
    using assms(1) r' by (simp_all add: handle_def handle_timeout_def Let_def standard_query_def)
qed

lemma request_counts:
  assumes "standard_query (e_proto E) request msg q"
  shows "s_total (rs_stats (fst (handle E net late request client r))) = s_total (rs_stats r) + 1"
    "s_request_timeouts (rs_stats (fst (handle E net late request client r))) =
       s_request_timeouts (rs_stats r) +
       (if late \<and> \<not> is_canary r (query_domain q) \<and> blocked_by r (query_domain q) = None \<and>
          snd (cache_lookup E (from_request msg (query_domain q)) (count_stat s_total_update r)) = None then 1 else 0)"
proof -
  let ?k = "from_request msg (query_domain q)"
  obtain r1 hit where hit: "cache_lookup E ?k (count_stat s_total_update r) = (r1, hit)" by fastforce
  have r1: "rs_stats r1 = rs_stats (count_stat s_total_update r)"
    using cache_lookup_stats [of E ?k "count_stat s_total_update r"] by (simp add: hit)
  have reply: "rs_stats (fst (handle_reply E c p res r1)) = rs_stats r1 \<or>
      rs_stats (fst (handle_reply E c p res r1)) = rs_stats (count_stat s_upstream_errors_update r1)" for c p res
    by (simp add: handle_reply_def Let_def split: sum.splits option.splits)
  consider "is_canary r (query_domain q)"
    | list where "\<not> is_canary r (query_domain q)" "blocked_by r (query_domain q) = Some list"
    | "\<not> is_canary r (query_domain q)" "blocked_by r (query_domain q) = None"
    by fastforce
  then have "s_total (rs_stats (fst (handle E net late request client r))) = s_total (rs_stats r) + 1 \<and>
    s_request_timeouts (rs_stats (fst (handle E net late request client r))) = s_request_timeouts (rs_stats r) +
       (if late \<and> \<not> is_canary r (query_domain q) \<and> blocked_by r (query_domain q) = None \<and> hit = None then 1 else 0)"
  proof cases
    case 1
    then show ?thesis using local_canary [OF assms] by (simp add: handle_def count_stat_def)
  next
    case 2
    then show ?thesis using local_blocked [OF assms] by (simp add: handle_def count_stat_def)
  next
    case 3
    note lo = local_open [OF assms 3 hit, of "sa_ip client"]
    show ?thesis
    proof (cases hit)
      case (Some a)
      then show ?thesis using lo 3 r1 by (simp add: handle_def Let_def count_stat_def)
    next
      case None
      obtain p where p: "handle_local E request (sa_ip client) r = (r1, Suspended p)"
        using lo None by simp
      show ?thesis
        using 3 r1 None reply [of "sa_ip client" p "forward (e_proto E) net r1 request (pr_msg p)"]
        by (cases late) (auto simp: handle_def p handle_timeout_def Let_def count_stat_def)
    qed
  qed
  then show "s_total (rs_stats (fst (handle E net late request client r))) = s_total (rs_stats r) + 1"
    "s_request_timeouts (rs_stats (fst (handle E net late request client r))) =
       s_request_timeouts (rs_stats r) +
       (if late \<and> \<not> is_canary r (query_domain q) \<and> blocked_by r (query_domain q) = None \<and>
          snd (cache_lookup E (from_request msg (query_domain q)) (count_stat s_total_update r)) = None then 1 else 0)"
    by (simp_all add: hit)
qed

text \<open>A query that does not have to go upstream is answered before the budget matters.\<close>

lemma answered_here_not_late:
  assumes "standard_query (e_proto E) request msg q"
    and "is_canary r (query_domain q) \<or> blocked_by r (query_domain q) \<noteq> None \<or>
      snd (cache_lookup E (from_request msg (query_domain q)) (count_stat s_total_update r)) \<noteq> None"
  shows "handle E net late request client r = handle E net False request client r"
proof -
  obtain r1 hit where hit: "cache_lookup E (from_request msg (query_domain q)) (count_stat s_total_update r) = (r1, hit)"
    by fastforce
  consider "is_canary r (query_domain q)"
    | list where "\<not> is_canary r (query_domain q)" "blocked_by r (query_domain q) = Some list"
    | a where "\<not> is_canary r (query_domain q)" "blocked_by r (query_domain q) = None" "hit = Some a"
    using assms(2) hit by fastforce
  then show ?thesis
  proof cases
    case 1
    then show ?thesis using local_canary [OF assms(1)] by (simp add: handle_def)
  next
    case 2
    then show ?thesis using local_blocked [OF assms(1)] by (simp add: handle_def)
  next
    case 3
    then show ?thesis using local_open [OF assms(1) 3(1,2) hit] by (simp add: handle_def Let_def)
  qed
qed

text \<open>
  C17. Every standard query is accounted for exactly once, whatever the network does and whether or not
  the request budget runs out: it counts as one request, and either it leaves exactly one line in the query
  log (one event with the client's address and the name it asked for is queued for the database, with
  status \<open>blocked\<close> exactly when the name was blocked, and then with the list; or, when the queue is full, one
  more dropped query is counted), or the budget ran out while it waited for an upstream, and then one
  more timeout is counted, the client is told SERVFAIL and the log does not have it.
\<close>

theorem every_query_accounted_once:
  fixes r :: Resolver and late :: bool and net :: network and request :: "u8 list" and client :: SocketAddr
    and E :: Env and q :: Query and msg :: Message
  assumes "standard_query (e_proto E) request msg q"
  defines "r' \<equiv> fst (handle E net late request client r)"
    and "answered_here \<equiv> is_canary r (query_domain q) \<or> blocked_by r (query_domain q) \<noteq> None \<or>
      snd (cache_lookup E (from_request msg (query_domain q)) (count_stat s_total_update r)) \<noteq> None"
  shows "s_total (rs_stats r') = s_total (rs_stats r) + 1 \<and>
    (if late \<and> \<not> answered_here
     then query_log (hub_of r') = query_log (hub_of r) \<and>
       s_request_timeouts (rs_stats r') = s_request_timeouts (rs_stats r) + 1 \<and>
       snd (handle E net late request client r) =
         encode (e_proto E) (error_response (e_proto E) msg ServFail (upstream_udp_payload (rs_cfg r)))
     else s_request_timeouts (rs_stats r') = s_request_timeouts (rs_stats r) \<and>
       (\<exists>ev. logs_one ev (query_log (hub_of r)) (query_log (hub_of r')) \<and>
        qe_domain ev = query_domain q \<and> qe_client_ip ev = show_ip (sa_ip client) \<and>
        (qe_status ev = Blocked) = (is_canary r (query_domain q) \<or> blocked_by r (query_domain q) \<noteq> None) \<and>
        qe_blocklist ev = (if is_canary r (query_domain q) then Some FIREFOX_CANARY_LABEL else blocked_by r (query_domain q))))"
proof (cases "late \<and> \<not> answered_here")
  case True
  then have here: "\<not> is_canary r (query_domain q)" "blocked_by r (query_domain q) = None"
    "snd (cache_lookup E (from_request msg (query_domain q)) (count_stat s_total_update r)) = None"
    and late: "late = True"
    by (simp_all add: answered_here_def)
  have "s_total (rs_stats r') = s_total (rs_stats r) + 1"
    "s_request_timeouts (rs_stats r') = s_request_timeouts (rs_stats r) + 1"
    unfolding r'_def using here late by (simp_all add: request_counts [OF assms(1)])
  then show ?thesis
    unfolding if_P [OF True] unfolding r'_def late
    by (intro conjI timed_out_query_not_logged [OF assms(1) here])
next
  case False
  have "handle E net late request client r = handle E net False request client r"
  proof (cases late)
    case True
    with False have answered_here by simp
    then show ?thesis unfolding answered_here_def by (rule answered_here_not_late [OF assms(1)])
  qed simp
  then have "r' = fst (handle E net False request client r)" by (simp only: r'_def)
  then have "s_total (rs_stats r') = s_total (rs_stats r) + 1" "s_request_timeouts (rs_stats r') = s_request_timeouts (rs_stats r)"
    and log: "r' = fst (handle E net False request client r)"
    using request_counts [OF assms(1), of net False client r] by simp_all
  then show ?thesis
    unfolding if_not_P [OF False] using query_logged [OF assms(1), of r net client, folded log] by blast
qed

theorem every_query_accounted_once_witness:
  "standard_query (e_proto demo_env) [0, 5, 1] demo_request demo_question \<and>
   (\<exists>ev. logs_one ev ([], 0)
      (query_log (hub_of (fst (handle demo_env demo_net False [0, 5, 1] \<lparr>sa_ip = IpV4 5, sa_port = 9\<rparr> (demo_resolver demo_list))))) \<and>
    qe_domain ev = ''ads.example.com'' \<and> qe_status ev = Blocked \<and> qe_blocklist ev = Some ''my list'')"
proof -
  have "query_log (hub_of (demo_resolver demo_list)) = ([], 0)"
    by (simp add: query_log_def hub_of_def demo_resolver_def resolver_new_def hub_new_def writer_new_def)
  then show ?thesis
    using demo_standard every_query_accounted_once [OF demo_standard, of demo_net False "\<lparr>sa_ip = IpV4 5, sa_port = 9\<rparr>" "demo_resolver demo_list"]
    by (auto simp: demo_query_domain demo_blocked demo_unblocked(2))
qed

section \<open>The cache in use\<close>

lemma reply_cache:
  "from_vec (e_proto E) raw = Some m \<Longrightarrow>
     rs_cache (fst (handle_reply E c p (Inr raw) r)) = rs_cache (cache_store E (pr_key p) m r)"
  by (simp add: handle_reply_def Let_def)

lemma log_policy [simp]:
  "rs_disable_firefox_doh (resolver_log E d q c s e a b r) = rs_disable_firefox_doh r"
  by (simp add: resolver_log_def split: prod.splits)

lemma reply_policy:
  "from_vec (e_proto E) raw = Some m \<Longrightarrow> rs_blocklist (fst (handle_reply E c p (Inr raw) r)) = rs_blocklist r \<and>
     rs_disable_firefox_doh (fst (handle_reply E c p (Inr raw) r)) = rs_disable_firefox_doh r"
  by (auto simp: handle_reply_def Let_def cache_store_def split: prod.splits option.splits bool.splits)

definition aged_answer :: "instant \<Rightarrow> instant \<Rightarrow> Message \<Rightarrow> CachedAnswer" where
  "aged_answer stamp now m =
     (let s = word_of_nat (as_secs (now - stamp))
      in \<lparr>ca_answers = age s (answers m), ca_authorities = age s (authorities m),
          ca_additionals = age s (filter (\<lambda>rec. record_type rec \<noteq> T_OPT) (additionals m)),
          ca_response_code = response_code (metadata m), ca_authoritative = authoritative (metadata m)\<rparr>)"

lemma inserted_get:
  assumes "cache_insert now1 stamp iter k m c = (c', True)" "shortest_ttl m = Some ttl"
    and "stamp \<le> now" "now < stamp + from_secs (unat (min ttl (c_max_ttl c)))"
  shows "snd (cache_get now k c') = Some (aged_answer stamp now m)"
proof -
  obtain t where t: "shortest_ttl m = Some t"
    "c' = (make_room now1 iter c)\<lparr>c_map := hm_insert k (entry_of stamp (min t (c_max_ttl c)) m) (c_map (make_room now1 iter c))\<rparr>"
    using assms(1) by (auto elim: insert_accepted)
  show ?thesis
    using t(1) assms(2-4) unfolding t(2)
    by (simp add: get_in_wf hm_simps entry_of_def aged_answer_def Let_def not_le)
qed

text \<open>A request that missed the cache at \<open>c\<close> and was answered upstream with \<open>m\<close>, which was stored.\<close>

definition stored_answer :: "Env \<Rightarrow> network \<Rightarrow> u8 list \<Rightarrow> Message \<Rightarrow> Query \<Rightarrow> Resolver \<Rightarrow> Key \<Rightarrow> Message \<Rightarrow> u32 \<Rightarrow> bool" where
  "stored_answer E net request msg q r k m ttl \<longleftrightarrow>
     standard_query (e_proto E) request msg q \<and> \<not> is_canary r (query_domain q) \<and> blocked_by r (query_domain q) = None
     \<and> cache_on (rs_cfg r) \<and> from_request msg (query_domain q) = Some k
     \<and> (\<exists>c raw. rs_cache r = Some c \<and> snd (cache_get (e_get E) k c) = None
          \<and> forward (e_proto E) net r request msg = Inr raw \<and> from_vec (e_proto E) raw = Some m
          \<and> snd (cache_insert (e_evict E) (e_stamp E) (e_iter E) k m (fst (cache_get (e_get E) k c)))
          \<and> shortest_ttl m = Some ttl)"

lemma cache_get_limits: "c_max_ttl (fst (cache_get now k c)) = c_max_ttl c"
  by (simp add: cache_get_def Let_def split: option.splits)

lemma stored_cache:
  assumes "stored_answer E net request msg q r k m ttl" and r'_def: "r' = fst (handle E net False request client r)"
  obtains c c' where "rs_cache r = Some c" "rs_cache r' = Some c'" "rs_cfg r' = rs_cfg r"
    "rs_blocklist r' = rs_blocklist r" "rs_disable_firefox_doh r' = rs_disable_firefox_doh r"
    "cache_insert (e_evict E) (e_stamp E) (e_iter E) k m (fst (cache_get (e_get E) k c)) = (c', True)"
proof -
  obtain c raw where s: "standard_query (e_proto E) request msg q" "\<not> is_canary r (query_domain q)"
    "blocked_by r (query_domain q) = None" "cache_on (rs_cfg r)" "from_request msg (query_domain q) = Some k"
    "rs_cache r = Some c" "snd (cache_get (e_get E) k c) = None" "forward (e_proto E) net r request msg = Inr raw"
    "from_vec (e_proto E) raw = Some m"
    "snd (cache_insert (e_evict E) (e_stamp E) (e_iter E) k m (fst (cache_get (e_get E) k c)))"
    using assms(1) by (auto simp: stored_answer_def)
  obtain c' where c': "cache_insert (e_evict E) (e_stamp E) (e_iter E) k m (fst (cache_get (e_get E) k c)) = (c', True)"
    using s(10) by (metis prod.collapse)
  define r1 where "r1 = (count_stat s_total_update r)\<lparr>rs_cache := Some (fst (cache_get (e_get E) k c))\<rparr>"
  define p where "p = \<lparr>pr_msg = msg, pr_name = query_domain q, pr_qtype = q_type q, pr_key = from_request msg (query_domain q)\<rparr>"
  have "cache_lookup E (from_request msg (query_domain q)) (count_stat s_total_update r) = (r1, None)"
    using s(4,5,6,7) by (auto simp: cache_lookup_def r1_def split: prod.splits)
  then have "handle_local E request (sa_ip client) r = (r1, Suspended p)"
    using local_open [OF s(1-3)] by (simp add: p_def)
  moreover have "forward (e_proto E) net r1 request msg = Inr raw" using s(8) by (simp add: forward_def r1_def)
  ultimately have r': "r' = fst (handle_reply E (sa_ip client) p (Inr raw) r1)" by (simp add: r'_def handle_def p_def)
  have "rs_cache r' = Some c'"
    unfolding r' reply_cache [OF s(9)] using s(4,5) c' by (simp add: cache_store_def p_def r1_def)
  moreover have "rs_cfg r' = rs_cfg r" "rs_blocklist r' = rs_blocklist r" "rs_disable_firefox_doh r' = rs_disable_firefox_doh r"
    using reply_policy [OF s(9), of "sa_ip client" p r1] by (simp_all add: r' handle_reply_fields r1_def)
  ultimately show ?thesis using that s(6) c' by blast
qed

text \<open>
  C16. Asking again is answered from memory: after an answer was fetched upstream and stored, every
  request with the same cache key (name, type, class, DO and CD bits) until the shortest TTL or the
  configured maximum has passed is answered from the cache, without any upstream, with a fresh
  envelope for the new request and the stored records aged by the time since.
\<close>

theorem repeat_answered_from_cache:
  assumes "stored_answer E net request msg q r k m ttl"
    and "standard_query (e_proto E2) request2 msg2 q2" "from_request msg2 (query_domain q2) = Some k"
    and "e_stamp E \<le> e_get E2" "\<forall>c. rs_cache r = Some c \<longrightarrow> e_get E2 < e_stamp E + from_secs (unat (min ttl (c_max_ttl c)))"
  shows "snd (handle E2 net2 late2 request2 client2 (fst (handle E net False request client r))) =
    encode (e_proto E2) (cached_response (e_proto E2) msg2 (upstream_udp_payload (rs_cfg r))
      (aged_answer (e_stamp E) (e_get E2) m))"
proof -
  let ?r = "fst (handle E net False request client r)"
  obtain c c' where c: "rs_cache r = Some c" "rs_cache ?r = Some c'" "rs_cfg ?r = rs_cfg r"
    "rs_blocklist ?r = rs_blocklist r" "rs_disable_firefox_doh ?r = rs_disable_firefox_doh r"
    "cache_insert (e_evict E) (e_stamp E) (e_iter E) k m (fst (cache_get (e_get E) k c)) = (c', True)"
    using stored_cache [OF assms(1) refl] by metis
  have s: "\<not> is_canary r (query_domain q)" "blocked_by r (query_domain q) = None" "cache_on (rs_cfg r)"
    "from_request msg (query_domain q) = Some k" "shortest_ttl m = Some ttl"
    using assms(1) by (auto simp: stored_answer_def)
  have "query_domain q2 = query_domain q" using s(4) assms(3) by (auto simp: from_request_def split: list.splits)
  then have open2: "\<not> is_canary ?r (query_domain q2)" "blocked_by ?r (query_domain q2) = None"
    using s(1,2) c(4,5) by (simp_all add: is_canary_def blocked_by_def split: if_splits)
  have "snd (cache_get (e_get E2) k c') = Some (aged_answer (e_stamp E) (e_get E2) m)"
    using inserted_get [OF c(6) s(5) assms(4)] assms(5) c(1) by (simp add: cache_get_limits)
  then obtain c2 where "cache_get (e_get E2) k c' = (c2, Some (aged_answer (e_stamp E) (e_get E2) m))"
    by (metis prod.collapse)
  then obtain r2 where hit: "cache_lookup E2 (from_request msg2 (query_domain q2)) (count_stat s_total_update ?r) =
      (r2, Some (aged_answer (e_stamp E) (e_get E2) m))"
    using s(3) c(2,3) assms(3) by (simp add: cache_lookup_def)
  show ?thesis
    using local_open [OF assms(2) open2 hit] c(3) by (simp add: handle_def [of E2 net2 late2 request2] Let_def)
qed


definition demo_env2 :: Env where
  "demo_env2 = demo_env\<lparr>e_get := from_secs 100\<rparr>"

definition demo_key2 :: Key where
  "demo_key2 = \<lparr>key_name = ''ads.example.com'', key_qtype = T_A, key_qclass = 1, key_dnssec_ok = False,
     key_checking_disabled = False\<rparr>"

lemma demo_stored: "stored_answer demo_env demo_net [0, 5, 1] demo_request demo_question (demo_resolver Blocklist_default) demo_key2 demo_answer 300"
proof -
  have "rs_cache (demo_resolver Blocklist_default) = Some (cache_new 20000 30 86400)"
    "rs_cfg (demo_resolver Blocklist_default) = dns Config_default" "cache_on (dns Config_default)"
    by (simp_all add: demo_resolver_def resolver_new_def Config_default_def DnsConfig_default_def)
  moreover have get: "cache_get t k (cache_new n lo hi) = (cache_new n lo hi, None)" for t k n lo hi
    by (simp add: cache_get_def cache_new_def hm_get_def)
  moreover have "snd (cache_insert t1 t2 id k demo_answer (cache_new 20000 30 86400))" for t1 t2 k
    by (simp add: cache_insert_def demo_answer_def demo_meta_def shortest_ttl_def cache_new_def Let_def)
  moreover have "from_request demo_request ''ads.example.com'' = Some demo_key2"
    by (simp add: from_request_def demo_request_def demo_question_def demo_meta_def demo_key2_def)
  moreover have "shortest_ttl demo_answer = Some 300" by (simp add: shortest_ttl_def demo_answer_def)
  moreover have "e_iter demo_env = id" "e_proto demo_env = demo_proto" "from_vec demo_proto [0, 5, 2] = Some demo_answer"
    by (simp_all add: demo_env_def demo_proto_def)
  ultimately show ?thesis
    unfolding stored_answer_def
    using demo_standard demo_unblocked demo_forward [of "demo_resolver Blocklist_default"] by (auto simp: demo_query_domain get)
qed

theorem repeat_answered_from_cache_witness:
  "snd (handle demo_env2 demo_net True [0, 5, 1] \<lparr>sa_ip = IpV4 6, sa_port = 9\<rparr>
     (fst (handle demo_env demo_net False [0, 5, 1] \<lparr>sa_ip = IpV4 5, sa_port = 9\<rparr> (demo_resolver Blocklist_default)))) =
   encode demo_proto (cached_response demo_proto demo_request 1232 (aged_answer 10 (from_secs 100) demo_answer))"
proof -
  have e: "e_proto demo_env2 = demo_proto" "e_proto demo_env = demo_proto" "e_stamp demo_env = 10" "e_get demo_env2 = from_secs 100"
    by (simp_all add: demo_env2_def demo_env_def)
  have "standard_query (e_proto demo_env2) [0, 5, 1] demo_request demo_question" using demo_standard by (simp add: e)
  moreover have "from_request demo_request (query_domain demo_question) = Some demo_key2"
    using demo_stored by (simp add: stored_answer_def)
  moreover have "\<forall>c. rs_cache (demo_resolver Blocklist_default) = Some c \<longrightarrow>
      e_get demo_env2 < e_stamp demo_env + from_secs (unat (min 300 (c_max_ttl c)))"
    by (simp add: demo_resolver_def resolver_new_def Config_default_def DnsConfig_default_def cache_new_def e from_secs_def)
  moreover have "upstream_udp_payload (rs_cfg (demo_resolver Blocklist_default)) = 1232"
    by (simp add: demo_resolver_def resolver_new_def Config_default_def DnsConfig_default_def)
  ultimately show ?thesis
    using repeat_answered_from_cache [OF demo_stored, of demo_env2 "[0, 5, 1]" demo_request demo_question demo_net True
        "\<lparr>sa_ip = IpV4 6, sa_port = 9\<rparr>"]
    by (simp add: e from_secs_def)
qed

end
