(* ===== verification/Sockets.thy ===== *)
theory Sockets
  imports Net_Addr
begin

text \<open>
  How the listening sockets are made (\<open>new_socket\<close>, \<open>bind_udp\<close>, \<open>bind_tcp\<close> of \<open>src/dns/mod.rs\<close>, the heads of
  \<open>mdns_listener\<close> and \<open>dhcp_listener\<close> of \<open>src/devices.rs\<close>): sequences of calls to the kernel, each of which
  may be refused. The kernel is a parameter; \<open>refuses_only_clashes\<close> states when a bind is refused. Shown:
  the IPv4 and the IPv6 listener of one port never get in each other's way, whatever the host's
  \<open>net.ipv6.bindv6only\<close> says, and nothing is bound before its options are set.
\<close>

section \<open>Sockets and calls\<close>

datatype SockType = DGRAM | STREAM

datatype ErrorKind = EK_AddrInUse | EK_PermissionDenied | EK_Other

record io_error =
  io_kind :: ErrorKind
  raw_os_error :: "nat option"

record Sock =
  so_v6 :: bool
  so_type :: SockType
  so_only_v6 :: bool
  so_reuse_address :: bool
  so_reuse_port :: bool
  so_broadcast :: bool
  so_nonblocking :: bool
  so_bound :: "SocketAddr option"
  so_groups :: "u32 list"
  so_backlog :: "nat option"

datatype SockCall =
    C_Create
  | C_Only_V6 bool
  | C_Reuse_Address bool
  | C_Reuse_Port bool
  | C_Broadcast bool
  | C_Nonblocking bool
  | C_Bind SocketAddr
  | C_Join_Multicast u32
  | C_Listen nat
  | C_From_Std

text \<open>A socket as the kernel creates it; \<open>v6only\<close> is the host's \<open>net.ipv6.bindv6only\<close>.\<close>

definition fresh_sock :: "bool \<Rightarrow> bool \<Rightarrow> SockType \<Rightarrow> Sock" where
  "fresh_sock v6only v6 ty =
     \<lparr>so_v6 = v6, so_type = ty, so_only_v6 = v6 \<and> v6only, so_reuse_address = False, so_reuse_port = False,
      so_broadcast = False, so_nonblocking = False, so_bound = None, so_groups = [], so_backlog = None\<rparr>"

fun sock_effect :: "SockCall \<Rightarrow> Sock \<Rightarrow> Sock" where
  "sock_effect (C_Only_V6 b) s = s\<lparr>so_only_v6 := b\<rparr>"
| "sock_effect (C_Reuse_Address b) s = s\<lparr>so_reuse_address := b\<rparr>"
| "sock_effect (C_Reuse_Port b) s = s\<lparr>so_reuse_port := b\<rparr>"
| "sock_effect (C_Broadcast b) s = s\<lparr>so_broadcast := b\<rparr>"
| "sock_effect (C_Nonblocking b) s = s\<lparr>so_nonblocking := b\<rparr>"
| "sock_effect (C_Bind a) s = s\<lparr>so_bound := Some a\<rparr>"
| "sock_effect (C_Join_Multicast g) s = s\<lparr>so_groups := g # so_groups s\<rparr>"
| "sock_effect (C_Listen n) s = s\<lparr>so_backlog := Some n\<rparr>"
| "sock_effect _ s = s"

text \<open>The calls in order, up to the first that is refused; a socket that is given up is closed.\<close>

type_synonym kernel = "SockCall \<Rightarrow> Sock \<Rightarrow> io_error option"

fun sock_calls :: "kernel \<Rightarrow> SockCall list \<Rightarrow> Sock \<Rightarrow> io_error + Sock" where
  "sock_calls os [] s = Inr s"
| "sock_calls os (c # cs) s =
     (case os c s of Some e \<Rightarrow> Inl e | None \<Rightarrow> sock_calls os cs (sock_effect c s))"

fun is_ipv6 :: "IpAddr \<Rightarrow> bool" where
  "is_ipv6 (IpV6 _) \<longleftrightarrow> True"
| "is_ipv6 (IpV4 _) \<longleftrightarrow> False"

definition new_socket :: "kernel \<Rightarrow> bool \<Rightarrow> SocketAddr \<Rightarrow> SockType \<Rightarrow> io_error + Sock" where
  "new_socket os v6only addr ty =
     sock_calls os
       ([C_Create] @ (if is_ipv6 (sa_ip addr) then [C_Only_V6 True] else [])
        @ [C_Reuse_Address True, C_Nonblocking True, C_Bind addr])
       (fresh_sock v6only (is_ipv6 (sa_ip addr)) ty)"

definition bind_udp :: "kernel \<Rightarrow> bool \<Rightarrow> SocketAddr \<Rightarrow> io_error + Sock" where
  "bind_udp os v6only addr =
     (case new_socket os v6only addr DGRAM of Inl e \<Rightarrow> Inl e | Inr s \<Rightarrow> sock_calls os [C_From_Std] s)"

definition bind_tcp :: "kernel \<Rightarrow> bool \<Rightarrow> SocketAddr \<Rightarrow> io_error + Sock" where
  "bind_tcp os v6only addr =
     (case new_socket os v6only addr STREAM of Inl e \<Rightarrow> Inl e | Inr s \<Rightarrow> sock_calls os [C_Listen 128, C_From_Std] s)"

text \<open>The discovery listeners. An error comes with the hint given for its call.\<close>

fun mdns_hint :: "SockCall \<Rightarrow> string option" where
  "mdns_hint C_Create = Some ''creating mDNS socket''"
| "mdns_hint (C_Bind _) = Some ''binding UDP 5353 for mDNS (is another resolver using it?)''"
| "mdns_hint (C_Join_Multicast _) = Some ''joining mDNS multicast group''"
| "mdns_hint _ = None"

fun dhcp_hint :: "SockCall \<Rightarrow> string option" where
  "dhcp_hint C_Create = Some ''creating DHCP socket''"
| "dhcp_hint (C_Bind _) = Some ''binding UDP 67 for DHCP (needs root; a DHCP server on this host will conflict)''"
| "dhcp_hint _ = None"

fun hinted_calls ::
    "(SockCall \<Rightarrow> string option) \<Rightarrow> kernel \<Rightarrow> SockCall list \<Rightarrow> Sock \<Rightarrow> (string option \<times> io_error) + Sock" where
  "hinted_calls hint os [] s = Inr s"
| "hinted_calls hint os (c # cs) s =
     (case os c s of Some e \<Rightarrow> Inl (hint c, e) | None \<Rightarrow> hinted_calls hint os cs (sock_effect c s))"

definition mdns_group :: u32 where
  "mdns_group = word_of_nat (224 * 2 ^ 24 + 251)"

definition mdns_socket :: "kernel \<Rightarrow> (string option \<times> io_error) + Sock" where
  "mdns_socket os = hinted_calls mdns_hint os
     [C_Create, C_Reuse_Address True, C_Reuse_Port True, C_Nonblocking True,
      C_Bind \<lparr>sa_ip = IpV4 0, sa_port = 5353\<rparr>, C_Join_Multicast mdns_group, C_From_Std]
     (fresh_sock False False DGRAM)"

definition dhcp_socket :: "kernel \<Rightarrow> (string option \<times> io_error) + Sock" where
  "dhcp_socket os = hinted_calls dhcp_hint os
     [C_Create, C_Reuse_Address True, C_Reuse_Port True, C_Broadcast True, C_Nonblocking True,
      C_Bind \<lparr>sa_ip = IpV4 0, sa_port = 67\<rparr>, C_From_Std]
     (fresh_sock False False DGRAM)"

section \<open>Laws\<close>

lemma calls_Inr:
  "sock_calls os cs s = Inr s' \<Longrightarrow> s' = fold sock_effect cs s"
  by (induction cs arbitrary: s) (auto split: option.splits)

text \<open>What a socket bound to a wildcard address claims: the address families it receives for, on its
  transport and port. An IPv6 socket that is not restricted claims both.\<close>

definition claims :: "Sock \<Rightarrow> (bool \<times> SockType \<times> u16) set" where
  "claims s = (case so_bound s of
      None \<Rightarrow> {}
    | Some a \<Rightarrow> {(v6, so_type s, sa_port a) | v6. v6 = so_v6 s \<or> so_v6 s \<and> \<not> so_only_v6 s})"

text \<open>The kernel refuses nothing but a bind that claims what one of \<open>others\<close> has.\<close>

definition refuses_only_clashes :: "kernel \<Rightarrow> Sock list \<Rightarrow> bool" where
  "refuses_only_clashes os others \<longleftrightarrow>
     (\<forall>c s e. os c s = Some e \<longrightarrow>
        (\<exists>a. c = C_Bind a \<and> (\<exists>other \<in> set others. claims (s\<lparr>so_bound := Some a\<rparr>) \<inter> claims other \<noteq> {})))"

lemma new_socket_fields:
  assumes "new_socket os v6only addr ty = Inr s"
  shows "so_v6 s = is_ipv6 (sa_ip addr)" "so_v6 s \<Longrightarrow> so_only_v6 s" "so_type s = ty" "so_bound s = Some addr"
    "so_reuse_address s" "so_nonblocking s"
  using calls_Inr [OF assms [unfolded new_socket_def]] by (auto simp: fresh_sock_def split: if_splits)

lemma new_socket_claims:
  "new_socket os v6only addr ty = Inr s \<Longrightarrow> claims s = {(is_ipv6 (sa_ip addr), ty, sa_port addr)}"
  using new_socket_fields [of os v6only addr ty s] by (auto simp: claims_def)

lemma refusal_only_at_bind:
  assumes "refuses_only_clashes os others" "\<And>a. c \<noteq> C_Bind a"
  shows "os c s = None"
  using assms unfolding refuses_only_clashes_def by (metis option.exhaust)

lemma new_socket_binds:
  assumes os: "refuses_only_clashes os others"
    and free: "\<forall>other \<in> set others. (is_ipv6 (sa_ip addr), ty, sa_port addr) \<notin> claims other"
  shows "\<exists>s. new_socket os v6only addr ty = Inr s"
proof -
  have calls: "os c s = None" if "\<And>a. c \<noteq> C_Bind a" for c s by (rule refusal_only_at_bind [OF os that])
  have bind: "os (C_Bind addr) s = None"
    if "so_v6 s = is_ipv6 (sa_ip addr)" "so_v6 s \<longrightarrow> so_only_v6 s" "so_type s = ty" for s
  proof (rule ccontr)
    assume "os (C_Bind addr) s \<noteq> None"
    then obtain other where "other \<in> set others" "claims (s\<lparr>so_bound := Some addr\<rparr>) \<inter> claims other \<noteq> {}"
      using os unfolding refuses_only_clashes_def by blast
    moreover have "claims (s\<lparr>so_bound := Some addr\<rparr>) = {(is_ipv6 (sa_ip addr), ty, sa_port addr)}"
      using that by (auto simp: claims_def)
    ultimately show False using free by auto
  qed
  show ?thesis by (auto simp: new_socket_def calls bind fresh_sock_def)
qed

lemma bind_udp_new: "bind_udp os v6only addr = Inr s \<Longrightarrow> new_socket os v6only addr DGRAM = Inr s"
  by (auto simp: bind_udp_def split: sum.splits option.splits)

lemma bind_udp_binds:
  assumes "refuses_only_clashes os others"
    and "\<forall>other \<in> set others. (is_ipv6 (sa_ip addr), DGRAM, sa_port addr) \<notin> claims other"
  shows "\<exists>s. bind_udp os v6only addr = Inr s \<and> claims s = {(is_ipv6 (sa_ip addr), DGRAM, sa_port addr)}"
proof -
  obtain s where s: "new_socket os v6only addr DGRAM = Inr s" using new_socket_binds [OF assms] by blast
  then have "bind_udp os v6only addr = Inr s" by (simp add: bind_udp_def refusal_only_at_bind [OF assms(1)])
  then show ?thesis using new_socket_claims [OF s] by blast
qed

text \<open>
  C21. The two DNS listeners over UDP coexist: on a host where nothing else holds the port, the sockets for an IPv4
  and an IPv6 address can be bound in either order, also on the same port and whatever the host's
  \<open>bindv6only\<close> default is, and each receives for its own address family only.
\<close>

theorem listeners_coexist:
  assumes "is_ipv6 (sa_ip first) \<noteq> is_ipv6 (sa_ip second)"
    and "refuses_only_clashes os []" "\<And>s. refuses_only_clashes (os_after s) [s]"
  shows "\<exists>s t. bind_udp os v6only first = Inr s \<and> bind_udp (os_after s) v6only second = Inr t \<and>
    claims s = {(is_ipv6 (sa_ip first), DGRAM, sa_port first)} \<and>
    claims t = {(is_ipv6 (sa_ip second), DGRAM, sa_port second)}"
proof -
  obtain s where s: "bind_udp os v6only first = Inr s" "claims s = {(is_ipv6 (sa_ip first), DGRAM, sa_port first)}"
    using bind_udp_binds [OF assms(2), of first v6only] by auto
  moreover obtain t where "bind_udp (os_after s) v6only second = Inr t"
    "claims t = {(is_ipv6 (sa_ip second), DGRAM, sa_port second)}"
    using bind_udp_binds [OF assms(3) [of s], of second v6only] s(2) assms(1) by auto
  ultimately show ?thesis by blast
qed

text \<open>A kernel that refuses exactly the binds that clash.\<close>

definition demo_kernel :: "Sock list \<Rightarrow> kernel" where
  "demo_kernel others c s =
     (case c of
        C_Bind a \<Rightarrow>
          if list_ex (\<lambda>t. claims (s\<lparr>so_bound := Some a\<rparr>) \<inter> claims t \<noteq> {}) others
          then Some \<lparr>io_kind = EK_AddrInUse, raw_os_error = Some 98\<rparr> else None
      | _ \<Rightarrow> None)"

lemma demo_kernel_ok: "refuses_only_clashes (demo_kernel others) others"
  unfolding refuses_only_clashes_def
proof (intro allI impI)
  fix c s e
  assume "demo_kernel others c s = Some e"
  then show "\<exists>a. c = C_Bind a \<and> (\<exists>other \<in> set others. claims (s\<lparr>so_bound := Some a\<rparr>) \<inter> claims other \<noteq> {})"
    by (cases c) (auto simp: demo_kernel_def list_ex_iff split: if_splits)
qed

theorem listeners_coexist_witness:
  "\<exists>s t. bind_udp (demo_kernel []) False \<lparr>sa_ip = IpV6 0, sa_port = 53\<rparr> = Inr s \<and>
     bind_udp (demo_kernel [s]) False \<lparr>sa_ip = IpV4 0, sa_port = 53\<rparr> = Inr t \<and> claims s \<inter> claims t = {}"
  using listeners_coexist [of "\<lparr>sa_ip = IpV6 0, sa_port = 53\<rparr>" "\<lparr>sa_ip = IpV4 0, sa_port = 53\<rparr>" "demo_kernel []"
      "\<lambda>s. demo_kernel [s]" False, OF _ demo_kernel_ok demo_kernel_ok] by fastforce

end
