(* ===== verification/Dns_Server.thy ===== *)
theory Dns_Server
  imports Resolver Sockets
begin

text \<open>
  The listeners (\<open>src/dns/mod.rs\<close>): binding with retries, the UDP server as a step relation over the
  requests in flight, and the framing of a TCP connection (the TCP server as a whole is in \<open>Tcp_Server\<close>, the
  construction of the sockets in \<open>Sockets\<close>).
\<close>

section \<open>Servers\<close>

definition BIND_RETRY_WINDOW :: duration where
  "BIND_RETRY_WINDOW = from_secs 30"

datatype 'a bind_outcome = Bound 'a | AddrInUse | BindError nat

datatype bind_error = NoIpv6Support | OtherBindError

definition bind_hint :: "'a bind_outcome \<Rightarrow> bind_error" where
  "bind_hint out = (case out of BindError code \<Rightarrow> if code = 97 then NoIpv6Support else OtherBindError | _ \<Rightarrow> OtherBindError)"

text \<open>
  The retry loop: \<open>outcome i\<close> is what attempt \<open>i\<close> gives, \<open>clock i\<close> the time read after it. It ends
  only because the clock advances while it sleeps, so it is a partial function.
\<close>

definition next_delay :: "duration \<Rightarrow> duration" where
  "next_delay delay = min (delay * 2) (from_secs 5)"

partial_function (option) bind_loop ::
    "(nat \<Rightarrow> 'a bind_outcome) \<Rightarrow> (nat \<Rightarrow> instant) \<Rightarrow> instant \<Rightarrow> nat \<Rightarrow> duration \<Rightarrow> (bind_error + 'a) option" where
  "bind_loop outcome clock deadline i delay =
     (case outcome i of
        Bound v \<Rightarrow> Some (Inr v)
      | AddrInUse \<Rightarrow>
          if clock i < deadline then bind_loop outcome clock deadline (Suc i) (next_delay delay)
          else Some (Inl (bind_hint (outcome i)))
      | BindError _ \<Rightarrow> Some (Inl (bind_hint (outcome i))))"

definition bind_with_retry ::
    "(nat \<Rightarrow> 'a bind_outcome) \<Rightarrow> (nat \<Rightarrow> instant) \<Rightarrow> instant \<Rightarrow> duration \<Rightarrow> (bind_error + 'a) option" where
  "bind_with_retry outcome clock now max_wait = bind_loop outcome clock (now + max_wait) 0 (from_millis 250)"

text \<open>How the servers come by their sockets: attempt \<open>i\<close> meets the kernel in the state \<open>os i\<close>.\<close>

definition attempt_result :: "io_error + 'a \<Rightarrow> 'a bind_outcome" where
  "attempt_result r =
     (case r of
        Inr v \<Rightarrow> Bound v
      | Inl e \<Rightarrow>
          if io_kind e = EK_AddrInUse then AddrInUse
          else BindError (case raw_os_error e of Some n \<Rightarrow> n | None \<Rightarrow> 0))"

definition listen_udp ::
    "(nat \<Rightarrow> kernel) \<Rightarrow> bool \<Rightarrow> (nat \<Rightarrow> instant) \<Rightarrow> instant \<Rightarrow> SocketAddr \<Rightarrow> (bind_error + Sock) option" where
  "listen_udp os v6only clock now addr =
     bind_with_retry (\<lambda>i. attempt_result (bind_udp (os i) v6only addr)) clock now BIND_RETRY_WINDOW"

definition listen_tcp ::
    "(nat \<Rightarrow> kernel) \<Rightarrow> bool \<Rightarrow> (nat \<Rightarrow> instant) \<Rightarrow> instant \<Rightarrow> SocketAddr \<Rightarrow> (bind_error + Sock) option" where
  "listen_tcp os v6only clock now addr =
     bind_with_retry (\<lambda>i. attempt_result (bind_tcp (os i) v6only addr)) clock now BIND_RETRY_WINDOW"

text \<open>The UDP server: the requests it has spawned a task for, and the datagrams it has sent.\<close>

record UdpTask =
  ut_request :: "u8 list"
  ut_peer :: SocketAddr
  ut_pending :: "Pending_Request option"

record UdpServer =
  us_resolver :: Resolver
  us_tasks :: "UdpTask list"
  us_sent :: "(SocketAddr \<times> u8 list) list"

text \<open>One datagram received. The receive buffer holds 4096 bytes.\<close>

definition udp_receive :: "u8 list \<Rightarrow> SocketAddr \<Rightarrow> UdpServer \<Rightarrow> UdpServer" where
  "udp_receive datagram peer s =
     (case allows (sa_ip peer) (us_resolver s) of
        (r, ok) \<Rightarrow>
          if \<not> ok then s\<lparr>us_resolver := r\<rparr>
          else if max_udp_in_flight (rs_cfg r) \<le> length (us_tasks s) then s\<lparr>us_resolver := note_udp_overload r\<rparr>
          else s\<lparr>us_resolver := r,
                 us_tasks := us_tasks s @ [\<lparr>ut_request = take 4096 datagram, ut_peer = peer, ut_pending = None\<rparr>]\<rparr>)"

definition drop_nth :: "nat \<Rightarrow> 'a list \<Rightarrow> 'a list" where
  "drop_nth i xs = take i xs @ drop (Suc i) xs"

text \<open>The end of task \<open>i\<close>: its permit is released, and the response sent if it has one and it fits.\<close>

definition udp_finish :: "proto \<Rightarrow> nat \<Rightarrow> UdpTask \<Rightarrow> Resolver \<times> u8 list option \<Rightarrow> UdpServer \<Rightarrow> UdpServer" where
  "udp_finish P i t res s =
     (case res of (r, response) \<Rightarrow>
        let out = Option.bind response (\<lambda>b. fit_udp P (ut_request t) b (udp_payload_limit r))
        in s\<lparr>us_resolver := r, us_tasks := drop_nth i (us_tasks s),
             us_sent := us_sent s @ (case out of Some b \<Rightarrow> [(ut_peer t, b)] | None \<Rightarrow> [])\<rparr>)"

definition udp_start :: "Env \<Rightarrow> nat \<Rightarrow> UdpServer \<Rightarrow> UdpServer" where
  "udp_start E i s =
     (let t = us_tasks s ! i in
      case handle_local E (ut_request t) (sa_ip (ut_peer t)) (us_resolver s) of
        (r, Answered out) \<Rightarrow> udp_finish (e_proto E) i t (r, out) s
      | (r, Suspended p) \<Rightarrow> s\<lparr>us_resolver := r, us_tasks := (us_tasks s)[i := t\<lparr>ut_pending := Some p\<rparr>]\<rparr>)"

text \<open>
  The server's steps. A task starts once, and a suspended one ends with the result of its upstream
  exchange or at the request budget. \<open>step_shared\<close> is everything else that works on the shared
  resolver (the TCP server, the sweeper, the API, the workers); none of it changes the configuration
  or the ACL.
\<close>

inductive udp_step :: "UdpServer \<Rightarrow> UdpServer \<Rightarrow> bool" where
  step_receive: "udp_step s (udp_receive datagram peer s)"
| step_start: "i < length (us_tasks s) \<Longrightarrow> ut_pending (us_tasks s ! i) = None \<Longrightarrow> udp_step s (udp_start E i s)"
| step_reply: "i < length (us_tasks s) \<Longrightarrow> us_tasks s ! i = t \<Longrightarrow> ut_pending t = Some p \<Longrightarrow>
    udp_step s (udp_finish (e_proto E) i t
      (handle_reply E (sa_ip (ut_peer t)) p (forward (e_proto E) net (us_resolver s) (ut_request t) (pr_msg p)) (us_resolver s)) s)"
| step_timeout: "i < length (us_tasks s) \<Longrightarrow> us_tasks s ! i = t \<Longrightarrow> ut_pending t = Some p \<Longrightarrow>
    udp_step s (udp_finish (e_proto E) i t (handle_timeout E (ut_request t) (us_resolver s)) s)"
| step_shared: "rs_cfg r = rs_cfg (us_resolver s) \<Longrightarrow> rs_acl r = rs_acl (us_resolver s) \<Longrightarrow>
    udp_step s (s\<lparr>us_resolver := r\<rparr>)"

definition udp_server_new :: "Resolver \<Rightarrow> UdpServer" where
  "udp_server_new r = \<lparr>us_resolver = r, us_tasks = [], us_sent = []\<rparr>"

inductive udp_run :: "Resolver \<Rightarrow> UdpServer \<Rightarrow> bool" for r0 where
  run_init: "udp_run r0 (udp_server_new r0)"
| run_step: "udp_run r0 s \<Longrightarrow> udp_step s s' \<Longrightarrow> udp_run r0 s'"

text \<open>
  One TCP connection, as far as \<open>n\<close> requests before the session's time limit: \<open>h i\<close> handles the
  \<open>i\<close>-th request, \<open>broken i\<close> is \<open>None\<close> when its answer (length, then message) is written, and \<open>Some k\<close> when the
  connection fails or the time limit passes after \<open>k\<close> bytes of it. The result is the resolver and the bytes
  written.
\<close>

fun tcp_session ::
    "nat \<Rightarrow> (nat \<Rightarrow> u8 list \<Rightarrow> Resolver \<Rightarrow> Resolver \<times> u8 list option) \<Rightarrow> (nat \<Rightarrow> nat option) \<Rightarrow> nat \<Rightarrow> u8 list \<Rightarrow> Resolver
       \<Rightarrow> Resolver \<times> u8 list" where
  "tcp_session 0 h broken i stream r = (r, [])"
| "tcp_session (Suc n) h broken i stream r =
     (case stream of
        a # b # rest \<Rightarrow>
          (let len = u16_be a b in
           if len = 0 \<or> 65535 < len then (r, [])
           else case read_exact len rest of
             None \<Rightarrow> (r, [])
           | Some (request, rest) \<Rightarrow>
               (case h i request r of
                  (r, None) \<Rightarrow> (r, [])
                | (r, Some response) \<Rightarrow>
                    if 65535 < length response then (r, [])
                    else case broken i of
                      Some k \<Rightarrow> (r, take k (to_be_bytes (length response) @ response))
                    | None \<Rightarrow> (case tcp_session n h broken (Suc i) rest r of
                        (r, out) \<Rightarrow> (r, to_be_bytes (length response) @ response @ out))))
      | _ \<Rightarrow> (r, []))"

text \<open>A connection accepted: whether a task is spawned for it, with \<open>opn\<close> connections in progress.\<close>

definition tcp_accept :: "SocketAddr \<Rightarrow> nat \<Rightarrow> Resolver \<Rightarrow> Resolver \<times> bool" where
  "tcp_accept peer opn r =
     (case allows (sa_ip peer) r of
        (r, ok) \<Rightarrow>
          if \<not> ok then (r, False)
          else if max_tcp_connections (rs_cfg r) \<le> opn then (note_tcp_rejection r, False)
          else (r, True))"

section \<open>The UDP server\<close>

definition udp_inv :: "Resolver \<Rightarrow> UdpServer \<Rightarrow> bool" where
  "udp_inv r0 s \<longleftrightarrow> rs_cfg (us_resolver s) = rs_cfg r0 \<and> rs_acl (us_resolver s) = rs_acl r0
     \<and> length (us_tasks s) \<le> max_udp_in_flight (rs_cfg r0)
     \<and> (\<forall>t \<in> set (us_tasks s). acl_allows (rs_acl r0) (sa_ip (ut_peer t)))
     \<and> (\<forall>(peer, _) \<in> set (us_sent s). acl_allows (rs_acl r0) (sa_ip peer))"

lemma set_drop_nth: "set (drop_nth i xs) \<subseteq> set xs"
  by (auto simp: drop_nth_def dest: in_set_takeD in_set_dropD)

lemma length_drop_nth: "i < length xs \<Longrightarrow> length (drop_nth i xs) = length xs - 1"
  by (simp add: drop_nth_def)

lemma udp_receive_inv: "udp_inv r0 s \<Longrightarrow> udp_inv r0 (udp_receive datagram peer s)"
  by (auto simp: udp_inv_def udp_receive_def allows_def note_udp_overload_def count_stat_def)

lemma udp_finish_inv:
  assumes "udp_inv r0 s" "i < length (us_tasks s)" "t = us_tasks s ! i"
    and "rs_cfg (fst res) = rs_cfg r0" "rs_acl (fst res) = rs_acl r0"
  shows "udp_inv r0 (udp_finish P i t res s)"
proof -
  have "t \<in> set (us_tasks s)" using assms(2,3) by simp
  then show ?thesis
    using assms set_drop_nth [of i "us_tasks s"]
    by (auto simp: udp_inv_def udp_finish_def length_drop_nth split: prod.splits option.splits)
qed

lemma udp_start_inv:
  assumes "udp_inv r0 s" "i < length (us_tasks s)"
  shows "udp_inv r0 (udp_start E i s)"
proof -
  let ?t = "us_tasks s ! i"
  obtain r oc where l: "handle_local E (ut_request ?t) (sa_ip (ut_peer ?t)) (us_resolver s) = (r, oc)" by fastforce
  have r: "rs_cfg r = rs_cfg r0" "rs_acl r = rs_acl r0"
    using handle_local_fields [of E "ut_request ?t" "sa_ip (ut_peer ?t)" "us_resolver s"] assms(1) by (auto simp: l udp_inv_def)
  show ?thesis
  proof (cases oc)
    case (Answered out)
    then show ?thesis using udp_finish_inv [OF assms refl, of "(r, out)"] r by (simp add: udp_start_def l)
  next
    case (Suspended p)
    then show ?thesis
      using assms r by (auto simp: udp_start_def l udp_inv_def dest!: set_update_subset_insert [THEN subsetD])
  qed
qed

lemma udp_step_inv: "udp_step s s' \<Longrightarrow> udp_inv r0 s \<Longrightarrow> udp_inv r0 s'"
proof (induction rule: udp_step.induct)
  case (step_reply i s t p E net)
  then have "rs_cfg (us_resolver s) = rs_cfg r0" "rs_acl (us_resolver s) = rs_acl r0" by (simp_all add: udp_inv_def)
  then show ?case
    using step_reply(2) by (intro udp_finish_inv [OF step_reply(4,1)]) (simp_all add: handle_fields)
next
  case (step_timeout i s t p E)
  then have "rs_cfg (us_resolver s) = rs_cfg r0" "rs_acl (us_resolver s) = rs_acl r0" by (simp_all add: udp_inv_def)
  then show ?case
    using step_timeout(2) by (intro udp_finish_inv [OF step_timeout(4,1)]) (simp_all add: handle_fields)
next
  case (step_shared r s)
  then show ?case by (simp add: udp_inv_def)
qed (simp_all add: udp_receive_inv udp_start_inv)

interpretation udp_reach: reachable_invariant "udp_server_new r0" udp_step "udp_inv r0" for r0
  by unfold_locales (simp add: udp_inv_def udp_server_new_def, rule udp_step_inv)

lemma udp_run_steps: "udp_run r0 s \<Longrightarrow> udp_step\<^sup>*\<^sup>* (udp_server_new r0) s"
  by (induction rule: udp_run.induct) (auto intro: rtranclp.rtrancl_into_rtrancl)

lemma udp_run_from: "udp_step\<^sup>*\<^sup>* s s' \<Longrightarrow> udp_run r0 s \<Longrightarrow> udp_run r0 s'"
  by (induction rule: rtranclp_induct) (auto intro: run_step)

text \<open>
  The UDP server in every reachable state, under any interleaving of arrivals, answers, upstream
  replies, timeouts and the other users of the resolver: at most \<open>dns.max_udp_in_flight\<close> requests are
  in flight, and no request from an address outside the ACL is ever worked on or answered, so a
  spoofed source never receives a packet.
\<close>

lemma udp_server_safe:
  assumes "udp_run r0 s"
  shows "length (us_tasks s) \<le> max_udp_in_flight (rs_cfg r0) \<and>
    list_all (\<lambda>t. acl_allows (rs_acl r0) (sa_ip (ut_peer t))) (us_tasks s) \<and>
    list_all (\<lambda>(peer, _). acl_allows (rs_acl r0) (sa_ip peer)) (us_sent s)"
  using udp_reach.reachable [OF udp_run_steps [OF assms]] by (auto simp: udp_inv_def list_all_iff)

lemma udp_server_safe_witness:
  "udp_run (demo_resolver demo_list) (udp_receive [0, 5, 1] \<lparr>sa_ip = IpV4 5, sa_port = 9\<rparr> (udp_server_new (demo_resolver demo_list))) \<and>
   length (us_tasks (udp_receive [0, 5, 1] \<lparr>sa_ip = IpV4 5, sa_port = 9\<rparr> (udp_server_new (demo_resolver demo_list)))) \<le> 128"
proof -
  have run: "udp_run (demo_resolver demo_list) (udp_receive [0, 5, 1] \<lparr>sa_ip = IpV4 5, sa_port = 9\<rparr> (udp_server_new (demo_resolver demo_list)))"
    by (rule run_step [OF run_init step_receive])
  moreover have "max_udp_in_flight (rs_cfg (demo_resolver demo_list)) = 128"
    by (simp add: demo_resolver_def resolver_new_def Config_default_def DnsConfig_default_def)
  ultimately show ?thesis using udp_server_safe [OF run] by simp
qed

text \<open>The steps that end or suspend a request; the measure counts what is left to do.\<close>

definition udp_work :: "UdpServer \<Rightarrow> nat" where
  "udp_work s = sum_list (map (\<lambda>t. if ut_pending t = None then 2 else 1) (us_tasks s))"

lemma work_drop_nth:
  "i < length xs \<Longrightarrow> sum_list (map f xs) = f (xs ! i) + sum_list (map f (drop_nth i xs))" for f :: "'a \<Rightarrow> nat"
  by (induction xs arbitrary: i) (auto simp: drop_nth_def nth_Cons split: nat.splits)

lemma work_finish:
  "i < length (us_tasks s) \<Longrightarrow> t = us_tasks s ! i \<Longrightarrow> udp_work (udp_finish P i t res s) < udp_work s"
  using work_drop_nth [of i "us_tasks s" "\<lambda>t. if ut_pending t = None then 2 else 1"]
  by (simp add: udp_work_def udp_finish_def split: prod.splits)

lemma work_update:
  "i < length xs \<Longrightarrow> f y < f (xs ! i) \<Longrightarrow> sum_list (map f (xs[i := y])) < sum_list (map f xs)" for f :: "'a \<Rightarrow> nat"
  by (induction xs arbitrary: i) (auto simp: nth_Cons split: nat.splits)

lemma udp_progress:
  assumes "us_tasks s \<noteq> []"
  shows "\<exists>s'. udp_step s s' \<and> udp_work s' < udp_work s"
proof -
  let ?t = "us_tasks s ! 0"
  have i: "0 < length (us_tasks s)" using assms by simp
  show ?thesis
  proof (cases "ut_pending ?t")
    case (Some p)
    then show ?thesis using step_timeout [OF i refl Some] work_finish [OF i refl] by blast
  next
    case None
    obtain r oc where l: "handle_local demo_env (ut_request ?t) (sa_ip (ut_peer ?t)) (us_resolver s) = (r, oc)" by fastforce
    have "udp_work (udp_start demo_env 0 s) < udp_work s"
    proof (cases oc)
      case (Answered out)
      then show ?thesis using work_finish [OF i refl] l by (simp add: udp_start_def)
    next
      case (Suspended p)
      then show ?thesis
        using work_update [OF i, of "\<lambda>t. if ut_pending t = None then 2 else 1" "?t\<lparr>ut_pending := Some p\<rparr>"] None l
        by (simp add: udp_start_def udp_work_def)
    qed
    then show ?thesis using step_start [OF i None] by blast
  qed
qed

interpretation udp_drain: draining udp_step udp_work
  by unfold_locales (rule udp_progress, auto simp: udp_work_def)

text \<open>
  No request holds its permit for ever: whatever is in flight, the server can always reach a state
  with no request in flight, without any upstream answering, so that capacity is always regained.
\<close>

lemma udp_server_drains:
  assumes "udp_run r0 s"
  shows "\<exists>s'. udp_step\<^sup>*\<^sup>* s s' \<and> udp_run r0 s' \<and> us_tasks s' = []"
proof -
  obtain s' where "udp_step\<^sup>*\<^sup>* s s'" "udp_work s' = 0" using udp_drain.drains by blast
  moreover have "us_tasks s' = []" if "udp_work s' = 0" for s' using that by (cases "us_tasks s'") (auto simp: udp_work_def split: if_splits)
  ultimately show ?thesis using udp_run_from assms by blast
qed

lemma udp_server_drains_witness:
  "\<exists>s'. udp_step\<^sup>*\<^sup>* (udp_server_new (demo_resolver demo_list)) s' \<and> us_tasks s' = []"
  using udp_server_drains [OF run_init] by blast

inductive_cases udp_stepE: "udp_step s s'"

text \<open>Every datagram sent answers one request in flight and ends it, so there is no amplification.\<close>

definition answers_task :: "nat \<Rightarrow> UdpServer \<Rightarrow> UdpServer \<Rightarrow> bool" where
  "answers_task i s s' \<longleftrightarrow> i < length (us_tasks s) \<and> us_tasks s' = drop_nth i (us_tasks s) \<and>
     (\<exists>b. us_sent s' = us_sent s @ [(ut_peer (us_tasks s ! i), b)])"

lemma finish_sends:
  "i < length (us_tasks s) \<Longrightarrow>
     us_sent (udp_finish P i (us_tasks s ! i) res s) = us_sent s \<or> answers_task i s (udp_finish P i (us_tasks s ! i) res s)"
  by (auto simp: answers_task_def udp_finish_def split: prod.splits option.splits)

lemma udp_one_answer_per_request:
  assumes "udp_step s s'"
  shows "us_sent s' = us_sent s \<or> (\<exists>i. answers_task i s s')"
  using assms
proof (elim udp_stepE)
  fix datagram peer
  assume "s' = udp_receive datagram peer s"
  then show ?thesis by (simp add: udp_receive_def split: prod.splits)
next
  fix i E
  assume i: "s' = udp_start E i s" "i < length (us_tasks s)"
  show ?thesis
    using finish_sends [OF i(2), of "e_proto E"] i(1) by (auto simp: udp_start_def Let_def split: prod.splits Outcome.splits)
qed (use finish_sends in blast, use finish_sends in blast, simp)

section \<open>Binding\<close>

definition delay_at :: "nat \<Rightarrow> duration" where
  "delay_at i = (next_delay ^^ i) (from_millis 250)"

fun bind_result :: "'a bind_outcome \<Rightarrow> bind_error + 'a" where
  "bind_result (Bound v) = Inr v"
| "bind_result out = Inl (bind_hint out)"

lemma bind_loop_from:
  assumes "deadline \<le> clock k"
  shows "i \<le> k \<Longrightarrow> \<exists>n. i \<le> n \<and> n \<le> k \<and> bind_loop out clock deadline i d = Some (bind_result (out n)) \<and>
    (\<forall>j. i \<le> j \<and> j < n \<longrightarrow> out j = AddrInUse) \<and> (out n = AddrInUse \<longrightarrow> deadline \<le> clock n)"
proof (induction "k - i" arbitrary: i d)
  case 0
  then have "\<not> clock i < deadline" using assms by simp
  then have "bind_loop out clock deadline i d = Some (bind_result (out i))"
    by (subst bind_loop.simps) (auto split: bind_outcome.splits)
  then show ?case using 0 assms by (intro exI [of _ i]) auto
next
  case (Suc x)
  show ?case
  proof (cases "out i = AddrInUse \<and> clock i < deadline")
    case True
    have "\<exists>n. Suc i \<le> n \<and> n \<le> k \<and> bind_loop out clock deadline (Suc i) (next_delay d) = Some (bind_result (out n)) \<and>
        (\<forall>j. Suc i \<le> j \<and> j < n \<longrightarrow> out j = AddrInUse) \<and> (out n = AddrInUse \<longrightarrow> deadline \<le> clock n)"
      using Suc by (intro Suc.hyps(1)) auto
    then obtain n where n: "Suc i \<le> n" "n \<le> k" "bind_loop out clock deadline (Suc i) (next_delay d) = Some (bind_result (out n))"
      "\<forall>j. Suc i \<le> j \<and> j < n \<longrightarrow> out j = AddrInUse" "out n = AddrInUse \<longrightarrow> deadline \<le> clock n"
      by blast
    have "bind_loop out clock deadline i d = Some (bind_result (out n))"
      using True n(3) by (subst bind_loop.simps) simp
    moreover have "\<forall>j. i \<le> j \<and> j < n \<longrightarrow> out j = AddrInUse" using n(4) True by (metis Suc_leI le_neq_implies_less)
    ultimately show ?thesis using n Suc_leD by blast
  next
    case False
    then have "bind_loop out clock deadline i d = Some (bind_result (out i))"
      by (subst bind_loop.simps) (auto split: bind_outcome.splits)
    then show ?thesis using False Suc.prems by (intro exI [of _ i]) auto
  qed
qed

lemma delay_at_simps [simp]:
  "delay_at 0 = 250000000" "delay_at (Suc i) = min (delay_at i * 2) 5000000000"
  "delay_at (numeral k) = min (delay_at (pred_numeral k) * 2) 5000000000"
  by (simp_all only: delay_at_def funpow.simps comp_def next_delay_def numeral_eq_Suc [of k])
     (simp_all add: from_millis_def from_secs_def)

lemma delay_sum: "sum_list (map delay_at [0..<10]) = 32750000000"
  by (simp add: upt_rec)

lemma ten_retries:
  assumes "\<forall>i. clock i + delay_at i \<le> clock (Suc i)" "now \<le> clock 0"
  shows "now + BIND_RETRY_WINDOW \<le> clock 10"
proof -
  have "clock 0 + sum_list (map delay_at [0..<n]) \<le> clock n" for n
    by (induction n) (use assms(1) in \<open>auto simp: add.assoc [symmetric] intro: order_trans [OF add_right_mono]\<close>)
  from this [of 10] show ?thesis using assms(2) by (simp only: delay_sum) (simp add: BIND_RETRY_WINDOW_def from_secs_def)
qed

text \<open>
  C34. Binding a listener always comes to an end: if the clock advances by at least each pause, there
  are at most eleven attempts. The result is that of the first attempt that is not refused with
  \<open>AddrInUse\<close> inside the thirty-second window; every other error is reported at once.
\<close>

theorem bind_with_retry_terminates:
  assumes "\<forall>i. clock i + delay_at i \<le> clock (Suc i)" "now \<le> clock 0"
  shows "\<exists>n. n \<le> 10 \<and> bind_with_retry out clock now BIND_RETRY_WINDOW = Some (bind_result (out n)) \<and>
    (\<forall>j<n. out j = AddrInUse) \<and> (out n = AddrInUse \<longrightarrow> now + BIND_RETRY_WINDOW \<le> clock n)"
proof -
  from bind_loop_from [where deadline = "now + BIND_RETRY_WINDOW" and clock = clock and k = 10 and i = 0 and out = out and d = "from_millis 250"]
    ten_retries [OF assms]
  show ?thesis by (auto simp: bind_with_retry_def)
qed

theorem bind_with_retry_terminates_witness:
  "\<exists>n::nat. n \<le> 10 \<and> bind_with_retry (\<lambda>i. if i < 3 then AddrInUse else Bound True) (\<lambda>i. i * 5000000000) 0 BIND_RETRY_WINDOW =
     Some (bind_result (if n < 3 then AddrInUse else Bound True))"
proof -
  have "delay_at i \<le> 5000000000" for i
    by (cases i) simp_all
  then have "\<forall>i. i * 5000000000 + delay_at i \<le> Suc i * 5000000000" by (simp add: add.commute)
  from bind_with_retry_terminates [OF this, where now = 0 and out = "\<lambda>i. if i < 3 then AddrInUse else Bound True"]
  show ?thesis by auto
qed

section \<open>TCP framing\<close>

definition frame :: "u8 list \<Rightarrow> u8 list" where
  "frame b = to_be_bytes (length b) @ b"

lemma frame_length: "n \<le> 65535 \<Longrightarrow> u16_be (word_of_nat (n div 256)) (word_of_nat (n mod 256)) = n"
  by (simp add: u16_be_def unat_of_nat)

lemma frame_Cons: "concat (map frame (q # qs)) =
    word_of_nat (length q div 256) # word_of_nat (length q mod 256) # q @ concat (map frame qs)"
  by (simp add: frame_def to_be_bytes_def)

text \<open>The answers to a sequence of requests, each handled after the other; \<open>None\<close> when one of them has
  no answer that a frame can carry.\<close>

fun tcp_answers ::
    "(nat \<Rightarrow> u8 list \<Rightarrow> Resolver \<Rightarrow> Resolver \<times> u8 list option) \<Rightarrow> nat \<Rightarrow> u8 list list \<Rightarrow> Resolver
       \<Rightarrow> (Resolver \<times> u8 list list) option" where
  "tcp_answers h i [] r = Some (r, [])"
| "tcp_answers h i (q # qs) r =
     (case h i q r of
        (r, Some a) \<Rightarrow>
          if length a \<le> 65535 then map_option (\<lambda>(r, as). (r, a # as)) (tcp_answers h (Suc i) qs r) else None
      | (r, None) \<Rightarrow> None)"

text \<open>
  C35. DNS over TCP is framed correctly in both directions: a stream that is the concatenation of
  length-prefixed requests is cut into exactly those requests, they are handled in order, and what is
  written back, when the connection stays up and within its time, is the concatenation of the
  length-prefixed answers, one per request.
\<close>

theorem tcp_session_frames:
  assumes "\<forall>q \<in> set reqs. 0 < length q \<and> length q \<le> 65535" "length reqs \<le> n"
    and "tcp_answers h i reqs r = Some (r', outs)"
  shows "tcp_session n h (\<lambda>_. None) i (concat (map frame reqs)) r = (r', concat (map frame outs))"
  using assms
proof (induction reqs arbitrary: n i r r' outs)
  case Nil
  then show ?case by (cases n) simp_all
next
  case (Cons q reqs)
  then obtain m where n: "n = Suc m" by (cases n) auto
  obtain r1 a as where a: "h i q r = (r1, Some a)" "length a \<le> 65535" "tcp_answers h (Suc i) reqs r1 = Some (r', as)"
    "outs = a # as"
    using Cons.prems(3) by (auto split: prod.splits option.splits if_splits)
  have q: "q \<noteq> []" "length q \<le> 65535" using Cons.prems(1) by auto
  have "tcp_session m h (\<lambda>_. None) (Suc i) (concat (map frame reqs)) r1 = (r', concat (map frame as))"
    using Cons.prems(1,2) n a(3) by (intro Cons.IH) auto
  then show ?case
    using q a(1,2) unfolding a(4) frame_Cons by (simp add: n to_be_bytes_def frame_length read_exact_def)
qed

theorem tcp_session_frames_witness:
  "tcp_session 2 (\<lambda>_ q r. (r, Some (q @ [9]))) (\<lambda>_. None) 0 [0, 1, 7, 0, 2, 8, 8] (demo_resolver demo_list) =
     (demo_resolver demo_list, [0, 2, 7, 9, 0, 3, 8, 8, 9])"
  using tcp_session_frames [of "[[7], [8, 8]]" 2 "\<lambda>_ q r. (r, Some (q @ [9]))" 0 "demo_resolver demo_list"
      "demo_resolver demo_list" "[[7, 9], [8, 8, 9]]"]
  by (simp add: frame_def to_be_bytes_def)

end
