(* ===== verification/Manual_Lists.thy ===== *)
theory Manual_Lists
  imports Blocklist
begin

text \<open>
  The two lists the operator edits over HTTP (\<open>append_manual\<close>, \<open>remove_manual\<close> of \<open>src/blocklist.rs\<close>).
  Shown: what the code does to the lines of the file, that a valid domain survives the way through the
  file and the parser, and how a file without a final line feed swallows an entry.
\<close>

section \<open>Editing\<close>

definition is_valid_domain :: "string \<Rightarrow> bool" where
  "is_valid_domain domain \<longleftrightarrow> normalize domain \<noteq> None"

text \<open>The two manual operations: the result says whether they reported success. \<open>wr\<close> says whether
  the operating system lets the file be opened for writing; a write to an open file succeeds.\<close>

definition append_manual :: "bool \<Rightarrow> path \<Rightarrow> string \<Rightarrow> fs \<Rightarrow> fs \<times> bool" where
  "append_manual wr p domain files =
     (let domain = to_ascii_lowercase (trim domain) in
      if normalize domain = None then (files, False)
      else if (case read_file files p of
                 Some existing \<Rightarrow> list_ex (\<lambda>l. trim l = domain) (lines existing)
               | None \<Rightarrow> False)
      then (files, True)
      else if \<not> wr then (files, False)
      else (hm_insert p ((case hm_get files p of Some existing \<Rightarrow> existing | None \<Rightarrow> []) @ domain @ [CHR 0x0A])
              files, True))"

definition remove_manual :: "bool \<Rightarrow> path \<Rightarrow> string \<Rightarrow> fs \<Rightarrow> fs \<times> bool" where
  "remove_manual wr p domain files =
     (let domain = to_ascii_lowercase (trim domain) in
      case read_file files p of
        None \<Rightarrow> (files, True)
      | Some existing \<Rightarrow>
          if \<not> wr then (files, False)
          else let kept = filter (\<lambda>l. trim l \<noteq> domain) (lines existing)
               in (hm_insert p (join [CHR 0x0A] kept @ [CHR 0x0A]) files, True))"

section \<open>Lines of the file\<close>

lemma utf8_append: "utf8_valid a \<Longrightarrow> utf8_valid b \<Longrightarrow> utf8_valid (a @ b)"
proof (induction a rule: utf8_valid.induct)
  case (2 a s)
  note head = utf8_valid.simps(2) [of a]
  show ?case
    using 2 by (cases s; cases "tl s"; cases "tl (tl s)")
      (auto simp: head simp del: utf8_valid.simps split: if_splits)
qed simp

lemma utf8_ascii: "list_all (\<lambda>c. c < 128) a \<Longrightarrow> utf8_valid a"
  by (induction a) auto

lemma trim_end_matches_rest: "\<exists>n. s = trim_end_matches c s @ replicate n c"
proof -
  have "s = rev (dropWhile (\<lambda>x. x = c) (rev s)) @ rev (takeWhile (\<lambda>x. x = c) (rev s))"
    by (simp flip: rev_append)
  moreover have "takeWhile (\<lambda>x. x = c) (rev s) = replicate (length (takeWhile (\<lambda>x. x = c) (rev s))) c"
    by (metis (mono_tags) replicate_eqI set_takeWhileD)
  ultimately show ?thesis unfolding trim_end_matches_def by (metis rev_replicate)
qed

lemma split_on_app: "split_on c (a @ c # b) = split_on c a @ split_on c b"
  by (induction a) (auto split: list.splits)

lemma lines_terminated: "lines (a @ [CHR 0x0A]) = map strip_cr (split_on CHR 0x0A a)"
  by (simp add: lines_def split_on_snoc)

lemma lines_append:
  assumes "old = [] \<or> last old = CHR 0x0A" "CHR 0x0A \<notin> set d"
  shows "lines (old @ d @ [CHR 0x0A]) = lines old @ [strip_cr d]"
proof (cases "old = []")
  case True
  with assms(2) lines_terminated [of d] show ?thesis by (simp add: split_on_single) (simp add: lines_def)
next
  case False
  with assms(1) obtain o1 where o: "old = o1 @ [CHR 0x0A]" by (metis append_butlast_last_id)
  then have "lines (old @ d @ [CHR 0x0A]) = lines ((o1 @ CHR 0x0A # d) @ [CHR 0x0A])" by simp
  also have "\<dots> = lines old @ [strip_cr d]"
    unfolding o lines_terminated using assms(2) by (simp add: split_on_app split_on_single)
  finally show ?thesis .
qed

lemma lower_ws:
  "ws1 (ch (ascii_lower a)) = ws1 (ch a)" "ws2 (ch (ascii_lower a)) (ch (ascii_lower b)) = ws2 (ch a) (ch b)"
  "ws3 (ch (ascii_lower a)) (ch (ascii_lower b)) (ch (ascii_lower c)) = ws3 (ch a) (ch b) (ch c)"
  by (auto simp: ws1_def ws2_def ws3_def ascii_lower_def is_ascii_upper_def)

lemma ws_front_lower: "ws_front (map ascii_lower s) = ws_front s"
  by (cases s; cases "tl s"; cases "tl (tl s)") (auto simp: lower_ws)

lemma ws_back_lower: "ws_back (map ascii_lower s) = ws_back s"
  by (cases s; cases "tl s"; cases "tl (tl s)") (auto simp: lower_ws)

lemma strip_ws_done: "strip_ws w s = [] \<or> w (strip_ws w s) = 0"
  by (induction w s rule: strip_ws.induct) auto

lemma strip_ws_noop: "s = [] \<or> w s = 0 \<Longrightarrow> strip_ws w s = s"
  by (cases s) auto

lemma strip_ws_suffix: "\<exists>p. s = p @ strip_ws w s"
proof (induction w s rule: strip_ws.induct)
  case (2 w a s)
  show ?case
  proof (cases "w (a # s) = 0")
    case False
    then obtain p where "drop (w (a # s) - 1) s = p @ strip_ws w (drop (w (a # s) - 1) s)" using 2 by auto
    then have "s = (take (w (a # s) - 1) s @ p) @ strip_ws w (drop (w (a # s) - 1) s)"
      by (metis append.assoc append_take_drop_id)
    with False show ?thesis by (intro exI [of _ "a # take (w (a # s) - 1) s @ p"]) simp
  qed simp
qed simp

lemma ws_front_prefix: "ws_front (p @ q) = 0 \<Longrightarrow> ws_front p = 0"
  by (cases p; cases "tl p"; cases "tl (tl p)") (auto split: if_splits)

lemma trim_ends: "trim s = [] \<or> ws_front (trim s) = 0 \<and> ws_back (rev (trim s)) = 0"
proof -
  let ?f = "strip_ws ws_front s"
  obtain p where "rev ?f = p @ strip_ws ws_back (rev ?f)" using strip_ws_suffix by blast
  then have "?f = trim s @ rev p" by (metis rev_append rev_rev_ident trim_def)
  moreover have "?f = [] \<or> ws_front ?f = 0" by (rule strip_ws_done)
  ultimately have "trim s = [] \<or> ws_front (trim s) = 0" by (metis append_is_Nil_conv ws_front_prefix)
  moreover have "trim s = [] \<or> ws_back (rev (trim s)) = 0"
    using strip_ws_done [of ws_back "rev ?f"] by (simp add: trim_def)
  ultimately show ?thesis by blast
qed

lemma trim_lower_trim: "trim (to_ascii_lowercase (trim s)) = to_ascii_lowercase (trim s)"
proof -
  have "to_ascii_lowercase (trim s) = [] \<or> ws_front (to_ascii_lowercase (trim s)) = 0 \<and>
      ws_back (rev (to_ascii_lowercase (trim s))) = 0"
    using trim_ends [of s] by (auto simp: to_ascii_lowercase_def ws_front_lower rev_map ws_back_lower)
  then show ?thesis by (auto simp: trim_def [of "to_ascii_lowercase (trim s)"] strip_ws_noop)
qed

lemma graphic_lower: "graphic (ascii_lower c) \<longleftrightarrow> graphic c"
  by (auto simp: graphic_def ascii_lower_def is_ascii_upper_def)

lemma normalize_graphic:
  assumes "normalize e \<noteq> None"
  shows "list_all graphic (trim e)" "trim e \<noteq> []"
proof -
  let ?t = "trim_end_matches CHR ''.'' (trim e)" and ?e = "to_ascii_lowercase (trim_end_matches CHR ''.'' (trim e))"
  obtain r where r: "normalize e = Some r" using assms by auto
  then obtain d where d: "valid_domain d" "r = Exact d \<or> r = Wildcard d" using normalize_valid by blast
  then have "?e = d \<or> ?e = ''*.'' @ d"
    using r by (auto simp: normalize_def Let_def strip_prefix_def split: option.splits if_splits)
      (metis append_take_drop_id append_Cons append_Nil)
  then have "list_all graphic ?e" "?e \<noteq> []"
    using valid_domain_graphic [OF d(1)] d(1) by (auto simp: graphic_def valid_domain_def)
  then have g: "list_all graphic ?t" "?t \<noteq> []" by (auto simp: to_ascii_lowercase_def list_all_iff graphic_lower)
  obtain n where n: "trim e = ?t @ replicate n CHR ''.''"
    using trim_end_matches_rest [of "trim e" "CHR ''.''"] by auto
  show "list_all graphic (trim e)" by (subst n) (use g(1) in \<open>auto simp: list_all_iff graphic_def\<close>)
  show "trim e \<noteq> []" using n g(2) by (metis append_is_Nil_conv)
qed

text \<open>The line a domain becomes in a manual list.\<close>

definition manual_line :: "string \<Rightarrow> string" where
  "manual_line domain = to_ascii_lowercase (trim domain)"

lemma manual_line_ok:
  assumes "normalize (manual_line domain) \<noteq> None"
  shows "trim (manual_line domain) = manual_line domain" "strip_cr (manual_line domain) = manual_line domain"
    "CHR 0x0A \<notin> set (manual_line domain)" "list_all (\<lambda>c. c < 128) (map ch (manual_line domain))"
proof -
  show tr: "trim (manual_line domain) = manual_line domain" by (simp add: manual_line_def trim_lower_trim)
  then have g: "list_all graphic (manual_line domain)" "manual_line domain \<noteq> []"
    using normalize_graphic [OF assms] by simp_all
  then have "graphic (last (manual_line domain))" by (simp add: list_all_iff)
  then show "strip_cr (manual_line domain) = manual_line domain" by (auto simp: strip_cr_def graphic_def)
  show "CHR 0x0A \<notin> set (manual_line domain)" using g(1) by (auto simp: list_all_iff graphic_def)
  show "list_all (\<lambda>c. c < 128) (map ch (manual_line domain))" using g(1) by (auto simp: list_all_iff graphic_def)
qed

definition file_text :: "fs \<Rightarrow> path \<Rightarrow> string" where
  "file_text files p = (case hm_get files p of Some s \<Rightarrow> s | None \<Rightarrow> [])"

lemma file_text_insert [simp]: "file_text (hm_insert p s files) p = s"
  by (simp add: file_text_def hm_simps)

text \<open>
  Adding a domain to a manual list whose text is complete lines: the operation succeeds exactly
  for a valid domain, appends one line with the domain in lower case unless a line already names it
  (so adding twice changes nothing), keeps every other line and every other file, and the file stays
  readable.
\<close>

lemma append_manual_adds_line:
  assumes "utf8_valid (map ch (file_text files p))"
    "file_text files p = [] \<or> last (file_text files p) = CHR 0x0A"
    "append_manual True p domain files = (files', ok)"
  shows "(ok \<longleftrightarrow> is_valid_domain (manual_line domain)) \<and> (\<not> ok \<longrightarrow> files' = files) \<and>
    (ok \<longrightarrow> lines (file_text files' p) =
       (if list_ex (\<lambda>l. trim l = manual_line domain) (lines (file_text files p)) then lines (file_text files p)
        else lines (file_text files p) @ [manual_line domain]) \<and>
      list_ex (\<lambda>l. trim l = manual_line domain) (lines (file_text files' p)) \<and>
      utf8_valid (map ch (file_text files' p)) \<and>
      (\<forall>q. q \<noteq> p \<longrightarrow> hm_get files' q = hm_get files q))"
proof (cases "normalize (manual_line domain) = None")
  case True
  then show ?thesis using assms(3) by (auto simp: append_manual_def Let_def manual_line_def is_valid_domain_def)
next
  case False
  note ml = manual_line_ok [OF False]
  let ?dup = "list_ex (\<lambda>l. trim l = manual_line domain) (lines (file_text files p))"
  have dup: "(case read_file files p of Some e \<Rightarrow> list_ex (\<lambda>l. trim l = manual_line domain) (lines e) | None \<Rightarrow> False) = ?dup"
    using assms(1) by (auto simp: read_file_def file_text_def lines_def split: option.splits)
  show ?thesis
  proof (cases ?dup)
    case True
    then show ?thesis
      using False assms dup by (auto simp: append_manual_def Let_def is_valid_domain_def simp flip: manual_line_def)
  next
    case nodup: False
    then have f: "files' = hm_insert p (file_text files p @ manual_line domain @ [CHR 0x0A]) files" "ok"
      using False assms(3) dup by (auto simp: append_manual_def Let_def file_text_def simp flip: manual_line_def)
    have "utf8_valid (map ch (manual_line domain @ [CHR 0x0A]))"
      using ml(4) by (intro utf8_ascii) (simp add: list_all_iff)
    then have "utf8_valid (map ch (file_text files' p))"
      using assms(1) utf8_append by (simp add: f)
    then show ?thesis
      using False nodup f lines_append [OF assms(2) ml(3)] ml(1,2)
      by (simp add: is_valid_domain_def hm_simps)
  qed
qed

lemma demo_manual_line: "manual_line '' Tracker.Example'' = ''tracker.example''"
  by (simp add: manual_line_def trim_def ws1_def ws2_def ws3_def str_eval)

lemma demo_normalize: "normalize ''tracker.example'' = Some (Exact ''tracker.example'')"
  using normalize_exact_valid [OF demo_domain] .

lemma demo_append:
  "append_manual True ''deny.list'' '' Tracker.Example'' [] =
     ([(''deny.list'', ''tracker.example\<newline>'')], True)"
  by (simp add: append_manual_def demo_manual_line [unfolded manual_line_def] demo_normalize read_file_def
      hm_defs)

lemma append_manual_adds_line_witness:
  "lines (file_text (fst (append_manual True ''deny.list'' '' Tracker.Example'' [])) ''deny.list'') =
     [''tracker.example'']"
  using append_manual_adds_line [OF _ _ demo_append]
  by (simp add: demo_append file_text_def hm_defs demo_manual_line) (simp add: lines_def)

lemma lines_no_cr:
  assumes "CHR 0x0D \<notin> set s"
  shows "lines s = butlast (split_on CHR 0x0A s) @
    (if last (split_on CHR 0x0A s) = [] then [] else [last (split_on CHR 0x0A s)])"
proof -
  have "strip_cr l = l" if "l \<in> set (split_on CHR 0x0A s)" for l
    using split_on_subset [OF that] assms by (auto simp: strip_cr_def dest: last_in_set)
  then have "map strip_cr (butlast (split_on CHR 0x0A s)) = butlast (split_on CHR 0x0A s)"
    by (intro map_idI) (auto dest: in_set_butlastD)
  then show ?thesis by (simp add: lines_def)
qed

lemma lines_subset: "CHR 0x0D \<notin> set s \<Longrightarrow> l \<in> set (lines s) \<Longrightarrow> l \<in> set (split_on CHR 0x0A s)"
  by (auto simp: lines_no_cr split: if_splits dest: in_set_butlastD intro: last_in_set)

text \<open>
  Removing a domain from a manual list (without carriage returns) removes exactly the lines that
  name it: every other non-empty line is kept, in order, and no line names the domain afterwards.
\<close>

lemma remove_manual_removes_line:
  assumes "read_file files p = Some old" "CHR 0x0D \<notin> set old"
    "remove_manual True p domain files = (files', ok)"
  shows "ok \<and>
    filter (\<lambda>l. l \<noteq> []) (lines (file_text files' p)) =
      filter (\<lambda>l. trim l \<noteq> manual_line domain \<and> l \<noteq> []) (lines old) \<and>
    (\<forall>q. q \<noteq> p \<longrightarrow> hm_get files' q = hm_get files q)"
proof -
  define kept where "kept = filter (\<lambda>l. trim l \<noteq> manual_line domain) (lines old)"
  have f: "files' = hm_insert p (join [CHR 0x0A] kept @ [CHR 0x0A]) files" "ok"
    using assms by (auto simp: remove_manual_def Let_def kept_def manual_line_def)
  have nonl: "CHR 0x0A \<notin> set l" "strip_cr l = l" if "l \<in> set kept" for l
  proof -
    have l: "l \<in> set (split_on CHR 0x0A old)" using that lines_subset [OF assms(2)] by (auto simp: kept_def)
    then show "CHR 0x0A \<notin> set l" by (rule split_on_no_sep)
    show "strip_cr l = l" using split_on_subset [OF l] assms(2) by (auto simp: strip_cr_def dest: last_in_set)
  qed
  have "lines (join [CHR 0x0A] kept @ [CHR 0x0A]) = (if kept = [] then [[]] else kept)"
  proof (cases "kept = []")
    case False
    then have "split_on CHR 0x0A (join [CHR 0x0A] kept) = kept" using nonl(1) by (intro split_on_join) (auto simp: list_all_iff)
    then show ?thesis using False nonl(2) by (simp add: lines_terminated map_idI)
  qed (simp add: lines_def strip_cr_def)
  then have "filter (\<lambda>l. l \<noteq> []) (lines (file_text files' p)) = filter (\<lambda>l. l \<noteq> []) kept"
    by (simp add: f)
  then show ?thesis using f by (simp add: kept_def hm_simps)
qed

lemma demo_remove:
  "read_file [(''deny.list'', ''a.b\<newline>tracker.example\<newline>'')] ''deny.list'' = Some ''a.b\<newline>tracker.example\<newline>''"
  "CHR 0x0D \<notin> set ''a.b\<newline>tracker.example\<newline>''"
  by (simp_all add: read_file_def hm_defs)

lemma remove_manual_removes_line_witness:
  "filter (\<lambda>l. l \<noteq> []) (lines (file_text
      (fst (remove_manual True ''deny.list'' '' Tracker.Example'' [(''deny.list'', ''a.b\<newline>tracker.example\<newline>'')]))
      ''deny.list'')) = [''a.b'']"
  using remove_manual_removes_line [OF demo_remove, of "'' Tracker.Example''"]
  by (cases "remove_manual True ''deny.list'' '' Tracker.Example'' [(''deny.list'', ''a.b\<newline>tracker.example\<newline>'')]")
     (simp add: demo_manual_line lines_def strip_cr_def trim_graphic graphic_def)

text \<open>
  A manual list whose last line was edited by hand and lacks its line feed: adding a domain
  reports success but glues it to that line, so neither the old entry nor the new one is on the list
  any more.
\<close>

lemma append_manual_glues_lines:
  "append_manual True ''deny.list'' ''tracker.example'' [(''deny.list'', ''old.example'')] =
     ([(''deny.list'', ''old.exampletracker.example\<newline>'')], True) \<and>
   lines ''old.exampletracker.example\<newline>'' = [''old.exampletracker.example'']"
proof -
  have "to_ascii_lowercase (trim ''tracker.example'') = ''tracker.example''"
    by (simp add: trim_graphic graphic_def str_eval)
  then show ?thesis
    by (simp add: append_manual_def demo_normalize read_file_def hm_defs lines_def strip_cr_def
        trim_graphic graphic_def)
qed

end
