(* ===== verification/Blocklist_Spec.thy ===== *)
theory Blocklist_Spec
  imports Blocklist
begin

text \<open>
  What the matcher of \<open>Blocklist\<close> is for, said without its data structures: a policy is a set of rules, a
  line of a list stands for a set of rules, the lists together for the union, and a name is denied when
  some rule denies it and none allows it. The matcher built from the files refines this: it accumulates
  the rules line by line in hash maps, and answers as the set does. So neither the order of the lists nor
  of their lines matters, nor repetitions, nor which list a rule came from.
\<close>

section \<open>The specification\<close>

datatype ListRule = Deny_Name string | Deny_Zone string | Allow_Name string | Allow_Zone string

definition denied :: "ListRule set \<Rightarrow> string \<Rightarrow> bool" where
  "denied R d \<longleftrightarrow>
     Allow_Name d \<notin> R \<and> \<not> (\<exists>r. covers r d \<and> Allow_Zone r \<in> R) \<and>
     (Deny_Name d \<in> R \<or> (\<exists>r. covers r d \<and> Deny_Zone r \<in> R))"

definition entry_rules :: "bool \<Rightarrow> string \<Rightarrow> ListRule set" where
  "entry_rules is_allow e =
     (case normalize e of
        None \<Rightarrow> {}
      | Some (Exact d) \<Rightarrow> {if is_allow then Allow_Name d else Deny_Name d}
      | Some (Wildcard d) \<Rightarrow> {if is_allow then Allow_Zone d else Deny_Zone d})"

text \<open>The three kinds of line: element of the Adblock syntax, hosts line, a bare name.\<close>

definition line_rules :: "bool \<Rightarrow> string \<Rightarrow> ListRule set" where
  "line_rules is_allow raw =
     (let line = strip_comment raw in
      if line = [] then {}
      else case parse_adblock line of
        Some (Block d) \<Rightarrow> entry_rules is_allow (''*.'' @ d)
      | Some (Exception d) \<Rightarrow> entry_rules True (''*.'' @ d)
      | None \<Rightarrow>
          let words = split_whitespace line in
          if words = [] then {}
          else if is_hosts_addr (hd words) then \<Union> (entry_rules is_allow ` {d \<in> set (tl words). \<not> is_local_name d})
          else if tl words = [] then entry_rules is_allow (hd words)
          else {})"

definition text_rules :: "bool \<Rightarrow> string \<Rightarrow> ListRule set" where
  "text_rules is_allow contents = \<Union> (line_rules is_allow ` set (lines contents))"

definition file_rules :: "fs \<Rightarrow> bool \<Rightarrow> path \<Rightarrow> ListRule set" where
  "file_rules files is_allow p = (case read_file files p of None \<Rightarrow> {} | Some contents \<Rightarrow> text_rules is_allow contents)"

definition listed_rules :: "Config \<Rightarrow> fs \<Rightarrow> ListRule set" where
  "listed_rules cfg files =
     (if b_enabled (blocking cfg)
      then \<Union> (file_rules files False ` (cached_list_path cfg ` set (b_sources (blocking cfg)) \<union>
             set (b_files (blocking cfg)) \<union> {manual_deny_path cfg}))
        \<union> file_rules files True (manual_allow_path cfg)
      else {})"

section \<open>The matcher as a set of rules\<close>

definition rules_of :: "Blocklist \<Rightarrow> ListRule set" where
  "rules_of bl =
     {Deny_Name d | d. hm_get (exact bl) d \<noteq> None} \<union> {Deny_Zone d | d. hm_get (wildcards bl) d \<noteq> None} \<union>
     Allow_Name ` set (allow bl) \<union> Allow_Zone ` set (allow_wildcards bl)"

lemma lookup_denied: "lookup bl d \<noteq> None \<longleftrightarrow> denied (rules_of bl) d"
  unfolding blocked_iff by (auto simp: denied_def rules_of_def is_allowed_iff)

lemma normalize_empty: "normalize [] = None"
  by (simp add: normalize_def trim_def trim_end_matches_def strip_prefix_def to_ascii_lowercase_def)

lemma add_block_rules: "rules_of (add_block e s bl) = rules_of bl \<union> entry_rules False e"
  by (auto simp: add_block_def rules_of_def entry_rules_def hm_simps split: option.splits Entry.splits if_splits)

lemma add_allow_rules: "rules_of (add_allow e bl) = rules_of bl \<union> entry_rules True e"
  by (auto simp: add_allow_def rules_of_def entry_rules_def split: option.splits Entry.splits)

lemma add_entry_rules: "rules_of (add_entry al s e bl) = rules_of bl \<union> entry_rules al e"
  by (simp add: add_entry_def add_block_rules add_allow_rules)

lemma hosts_line_rules:
  "rules_of (fold (\<lambda>d bl. if is_local_name d then bl else add_entry al s d bl) names bl) =
     rules_of bl \<union> \<Union> (entry_rules al ` {d \<in> set names. \<not> is_local_name d})"
  by (induction names arbitrary: bl) (auto simp: add_entry_rules)

lemma entry_rules_empty: "entry_rules al [] = {}"
  by (simp add: entry_rules_def normalize_empty)

lemma ingest_line_rules: "rules_of (ingest_line al s raw bl) = rules_of bl \<union> line_rules al raw"
  by (cases "split_whitespace (strip_comment raw)"; cases al)
    (auto simp: ingest_line_def line_rules_def Let_def add_block_rules add_allow_rules add_entry_rules
        entry_rules_empty hosts_line_rules split: option.splits AdblockRule.splits)

text \<open>Reading a list is a run of the matcher that the specification sees as collecting rules.\<close>

interpretation list_lines: simulation "ingest_line al s" "\<lambda>_. True" "\<lambda>_. True"
    "\<lambda>raw R. R \<union> line_rules al raw" rules_of for al s
  by unfold_locales (simp_all add: ingest_line_rules)

lemma fold_union: "fold (\<lambda>x R. R \<union> f x) xs R = R \<union> \<Union> (f ` set xs)"
  by (induction xs arbitrary: R) auto

lemma rules_of_sources [simp]: "rules_of (bl\<lparr>sources := x\<rparr>) = rules_of bl"
  by (simp add: rules_of_def)

lemma intern_rules: "rules_of (fst (intern name bl)) = rules_of bl"
  by (simp add: intern_def Let_def split: option.splits)

lemma ingest_rules: "rules_of (fst (ingest contents name al bl)) = rules_of bl \<union> text_rules al contents"
proof -
  obtain bl1 i where b: "(if al then (bl, 0) else intern name bl) = (bl1, i)" by fastforce
  then have "rules_of bl1 = rules_of bl" using intern_rules [of name bl] by (auto split: if_splits)
  moreover have "rules_of (fold (ingest_line al i) (lines contents) bl1) = rules_of bl1 \<union> text_rules al contents"
    using list_lines.run_refines [where es = "lines contents" and s = bl1] by (simp add: fold_union text_rules_def list_all_iff)
  ultimately show ?thesis by (simp add: ingest_def b Let_def) (cases al; simp)
qed

lemma ingest_file_rules: "rules_of (fst (ingest_file files p al bl)) = rules_of bl \<union> file_rules files al p"
  by (simp add: ingest_file_def file_rules_def ingest_rules case_prod_beta Let_def split: option.splits)

lemma build_source_rules:
  "rules_of (build_source cfg files url bl) = rules_of bl \<union> file_rules files False (cached_list_path cfg url)"
  by (simp add: build_source_def file_rules_def ingest_rules split: option.splits)

interpretation list_sources: simulation "build_source cfg files" "\<lambda>_. True" "\<lambda>_. True"
    "\<lambda>url R. R \<union> file_rules files False (cached_list_path cfg url)" rules_of for cfg files
  by unfold_locales (simp_all add: build_source_rules)

interpretation list_files: simulation "\<lambda>file bl. fst (ingest_file files file False bl)" "\<lambda>_. True" "\<lambda>_. True"
    "\<lambda>file R. R \<union> file_rules files False file" rules_of for files
  by unfold_locales (simp_all add: ingest_file_rules)

lemma build_rules: "rules_of (build cfg files) = listed_rules cfg files"
proof -
  have "rules_of Blocklist_default = {}" by (simp add: rules_of_def Blocklist_default_def hm_simps)
  moreover have "list_all (\<lambda>_. True) xs" for xs :: "string list" by (simp add: list_all_iff)
  ultimately show ?thesis
    by (auto simp: build_def listed_rules_def Let_def ingest_file_rules list_sources.run_refines list_files.run_refines fold_union)
qed

section \<open>Properties\<close>


text \<open>So the lists may be configured in any order, and more than once.\<close>

lemma list_order_irrelevant:
  assumes "set us = set (b_sources (blocking cfg))" "set fs = set (b_files (blocking cfg))"
  shows "lookup (build (cfg\<lparr>blocking := (blocking cfg)\<lparr>b_sources := us, b_files := fs\<rparr>\<rparr>) files) d \<noteq> None \<longleftrightarrow>
    lookup (build cfg files) d \<noteq> None"
proof -
  let ?c = "cfg\<lparr>blocking := (blocking cfg)\<lparr>b_sources := us, b_files := fs\<rparr>\<rparr>"
  have "cached_list_path ?c = cached_list_path cfg" "manual_deny_path ?c = manual_deny_path cfg"
    "manual_allow_path ?c = manual_allow_path cfg"
    by (simp_all add: fun_eq_iff cached_list_path_def manual_deny_path_def manual_allow_path_def)
  then have "listed_rules ?c files = listed_rules cfg files" using assms by (simp add: listed_rules_def)
  then show ?thesis by (simp add: lookup_denied build_rules del: not_None_eq)
qed

end
