(* ===== verification/Api.thy ===== *)
theory Api
  imports Dns_Server Manual_Lists Blocklist_Spec
begin

text \<open>
  The HTTP interface of the dashboard (\<open>src/api.rs\<close>): the route table, the admin check, the deadline
  and header layers, every read handler with its defaults and clamps, and the handlers that change the
  lists, the matcher and the cache. A handler runs as one step from the moment its request is routed; where
  it waits, the deadline may drop it, so a handler is given the number of the wait it is dropped at, if
  any. Arguments: the clocks, the files and the kernel's tables, what SQLite leaves open, the answers of
  the HTTP framework to requests no handler accepts, and the texts only shown to a person. Serialisation
  to JSON is not modelled: a body is the value given to it.
\<close>

unbundle bit_operations_syntax

section \<open>State, requests and responses\<close>

text \<open>\<open>ap_refreshing\<close> says that another task holds the refresh lock, \<open>ap_files\<close> is the state directory.
  The blocklist lock and the drop counters are those of the resolver and its writer.\<close>

record AppState =
  ap_db :: "Database lock"
  ap_cfg :: Config
  ap_resolver :: Resolver
  ap_started :: instant
  ap_discovery :: "DiscoveryStatus lock"
  ap_health :: HealthMap
  ap_refreshing :: bool
  ap_files :: fs

record ApiError =
  ae_status :: nat
  ae_public :: "string option"
  ae_internal :: "string option"

definition conflict :: "string \<Rightarrow> ApiError" where
  "conflict msg = \<lparr>ae_status = 409, ae_public = Some msg, ae_internal = None\<rparr>"

definition bad_gateway :: "string \<Rightarrow> ApiError" where
  "bad_gateway msg = \<lparr>ae_status = 502, ae_public = Some msg, ae_internal = None\<rparr>"

definition unauthorized :: ApiError where
  "unauthorized = \<lparr>ae_status = 401, ae_public = Some ''a valid admin token is required'', ae_internal = None\<rparr>"

definition bad_request :: "string \<Rightarrow> ApiError" where
  "bad_request msg = \<lparr>ae_status = 400, ae_public = Some msg, ae_internal = None\<rparr>"

definition internal_error :: "string \<Rightarrow> ApiError" where
  "internal_error e = \<lparr>ae_status = 500, ae_public = None, ae_internal = Some e\<rparr>"

record QueryParams =
  qp_limit :: "nat option"
  qp_offset :: "nat option"
  qp_search :: "string option"
  qp_client :: "string option"
  qp_status :: "string option"

record RangeParams =
  rp_hours :: "int option"
  rp_limit :: "nat option"
  rp_minutes :: "int option"

record IfaceStatus =
  is_iface :: string
  is_rx_bytes :: nat
  is_tx_bytes :: nat
  is_rx_packets :: nat
  is_tx_packets :: nat
  is_rx_errors :: nat
  is_tx_errors :: nat
  is_rx_dropped :: nat
  is_tx_dropped :: nat

record LatencyStatus =
  ls_target :: string
  ls_ms :: duration
  ls_ts :: int

record 'f Status =
  st_version :: string
  st_uptime_secs :: nat
  st_dns_listen :: string
  st_upstreams :: "string list"
  st_blocking_enabled :: bool
  st_blocking_mode :: string
  st_blocked_domains :: nat
  st_blocklist_sources :: "SourceStat list"
  st_blocklist_health :: "SourceHealth list"
  st_cache_entries :: nat
  st_queries_total :: u64
  st_queries_blocked :: u64
  st_cache_hits :: u64
  st_upstream_errors :: u64
  st_queries_denied :: u64
  st_udp_overload_drops :: u64
  st_tcp_rejections :: u64
  st_request_timeouts :: u64
  st_dropped_query_events :: u64
  st_dropped_device_events :: u64
  st_dropped_monitoring_events :: u64
  st_max_udp_in_flight :: nat
  st_max_tcp_connections :: nat
  st_allow_from :: "string list"
  st_storage :: StorageSizes
  st_discovery :: DiscoveryStatus
  st_system :: "'f SystemInfo"
  st_gateway :: "string option"
  st_lan_subnet :: "string option"
  st_interfaces :: "IfaceStatus list"
  st_latency :: "LatencyStatus list"

datatype Method = GET | HEAD | POST | DELETE | Other_Method

text \<open>A request as the framework's extractors give it: the \<open>Authorization\<close> header where it is text, the
  query string as parameters, the body as a domain; \<open>None\<close> is a rejection for the last three.\<close>

record HttpRequest =
  rq_method :: Method
  rq_path :: string
  rq_authorization :: "string option"
  rq_query :: "QueryParams option"
  rq_range :: "RangeParams option"
  rq_domain :: "string option"

datatype 'f Body =
    B_Page
  | B_Icon
  | B_Error string
  | B_Summary Summary
  | B_Queries "((nat \<times> QueryEvent) \<times> DeviceRec option) list"
  | B_Counted "Counted list"
  | B_Series "Bucket list"
  | B_Devices "DeviceRow list"
  | B_Bypass "BypassSuspect list"
  | B_Alerts "(nat \<times> AlertOp) list"
  | B_Interfaces "IfaceSample list"
  | B_Status "'f Status"
  | B_Ok
  | B_Rebuilt nat
  | B_Reloaded nat RefreshOutcome
  | B_Framework string

record 'f Response =
  re_status :: nat
  re_headers :: "(string, string) hmap"
  re_body :: "'f Body"

text \<open>What a handler comes to: a result, a rejection by an extractor, or nothing because the deadline
  dropped it.\<close>

datatype 'f Reply = Done "ApiError + 'f Body" | Rejected | Dropped

text \<open>The world a request meets. \<open>ev_cut = Some n\<close> means that the deadline passes during the wait number
  \<open>n\<close> of the handler, counted from 0; the waits of one download count as one. \<open>deadline_cut\<close> below gives it
  from how long the waits take.\<close>

record 'f ApiEnv =
  ev_cut :: "nat option"
  ev_sql :: bool
  ev_now :: int
  ev_order :: "string list \<Rightarrow> string list"
  ev_visit_devices :: "DeviceRec list \<Rightarrow> DeviceRec list"
  ev_visit_samples :: "IfaceSample list \<Rightarrow> IfaceSample list"
  ev_like :: "string \<Rightarrow> string \<Rightarrow> bool"
  ev_pick_query :: "QueryEvent list \<Rightarrow> QueryEvent"
  ev_pick_client :: "((nat \<times> QueryEvent) \<times> DeviceRec option) list \<Rightarrow> DeviceRec option"
  ev_pick_latency :: "LatencySample list \<Rightarrow> LatencySample"
  ev_size_of :: "string \<Rightarrow> u64 option"
  ev_pragma :: "string \<Rightarrow> int option"
  ev_routes :: "string option"
  ev_routes2 :: "string option"
  ev_counters :: "string option"
  ev_system :: system_files
  ev_f64 :: "'f f64_ops"
  ev_instant :: instant
  ev_version :: string
  ev_write :: bool
  ev_build :: bool
  ev_refresh :: refresh_env
  ev_debug :: "string \<Rightarrow> string"
  ev_fallback :: "HttpRequest \<Rightarrow> 'f Response"
  ev_reject :: "HttpRequest \<Rightarrow> 'f Response"

definition into_response :: "ApiError \<Rightarrow> 'f Response" where
  "into_response e =
     (let body = (case ae_public e of Some m \<Rightarrow> m | None \<Rightarrow> ''internal error'')
      in \<lparr>re_status = ae_status e, re_headers = [], re_body = B_Error body\<rparr>)"

definition with_db :: "'f ApiEnv \<Rightarrow> AppState \<Rightarrow> (Database \<Rightarrow> 'a) \<Rightarrow> ApiError + 'a" where
  "with_db E st f =
     (case ap_db st of
        None \<Rightarrow> Inl (internal_error ''database mutex poisoned'')
      | Some db \<Rightarrow> if ev_sql E then Inr (f db) else Inl (internal_error ''database error''))"

text \<open>A handler that waits once, for the database.\<close>

definition db_handler :: "'f ApiEnv \<Rightarrow> AppState \<Rightarrow> (Database \<Rightarrow> 'f Body) \<Rightarrow> 'f Reply" where
  "db_handler E st f = (if ev_cut E = Some 0 then Dropped else Done (with_db E st f))"

definition BYPASS_QUERY_THRESHOLD :: nat where
  "BYPASS_QUERY_THRESHOLD = 5"

section \<open>Read handlers\<close>

definition or_default :: "'a \<Rightarrow> 'a option \<Rightarrow> 'a" where
  "or_default d x = (case x of Some v \<Rightarrow> v | None \<Rightarrow> d)"

definition clamp :: "'a :: linorder \<Rightarrow> 'a \<Rightarrow> 'a \<Rightarrow> 'a" where
  "clamp lo hi x = (if x < lo then lo else if hi < x then hi else x)"

definition unless_blank :: "string option \<Rightarrow> string option" where
  "unless_blank s = Option.bind s (\<lambda>s. if trim s = [] then None else Some s)"

definition query_filter :: "QueryParams \<Rightarrow> QueryFilter" where
  "query_filter p =
     \<lparr>f_limit = clamp 1 1000 (or_default 100 (qp_limit p)), f_offset = or_default 0 (qp_offset p),
      f_search = unless_blank (qp_search p), f_client = unless_blank (qp_client p),
      f_status = unless_blank (qp_status p)\<rparr>"

definition api_summary :: "'f ApiEnv \<Rightarrow> AppState \<Rightarrow> 'f Reply" where
  "api_summary E st = db_handler E st (\<lambda>db. B_Summary (summary (ev_now E) db))"

definition api_queries :: "'f ApiEnv \<Rightarrow> QueryParams \<Rightarrow> AppState \<Rightarrow> 'f Reply" where
  "api_queries E p st = db_handler E st (\<lambda>db. B_Queries (recent_queries (ev_like E) db (query_filter p)))"

definition api_top_domains :: "'f ApiEnv \<Rightarrow> RangeParams \<Rightarrow> AppState \<Rightarrow> 'f Reply" where
  "api_top_domains E p st =
     (let h = or_default 24 (rp_hours p); l = or_default 15 (rp_limit p)
      in db_handler E st (\<lambda>db. B_Counted (top_domains (ev_order E) (ev_pick_query E) (ev_now E) h l False db)))"

definition api_top_blocked :: "'f ApiEnv \<Rightarrow> RangeParams \<Rightarrow> AppState \<Rightarrow> 'f Reply" where
  "api_top_blocked E p st =
     (let h = or_default 24 (rp_hours p); l = or_default 15 (rp_limit p)
      in db_handler E st (\<lambda>db. B_Counted (top_domains (ev_order E) (ev_pick_query E) (ev_now E) h l True db)))"

definition api_top_clients :: "'f ApiEnv \<Rightarrow> RangeParams \<Rightarrow> AppState \<Rightarrow> 'f Reply" where
  "api_top_clients E p st =
     (let h = or_default 24 (rp_hours p); l = or_default 15 (rp_limit p)
      in db_handler E st (\<lambda>db. B_Counted (top_clients (ev_order E) (ev_pick_client E) (ev_now E) h l db)))"

definition api_alerts :: "'f ApiEnv \<Rightarrow> RangeParams \<Rightarrow> AppState \<Rightarrow> 'f Reply" where
  "api_alerts E p st =
     (let limit = clamp 1 500 (or_default 50 (rp_limit p))
      in db_handler E st (\<lambda>db. B_Alerts (recent_alerts limit db)))"

definition api_bypass_suspects :: "'f ApiEnv \<Rightarrow> RangeParams \<Rightarrow> AppState \<Rightarrow> 'f Reply" where
  "api_bypass_suspects E p st =
     (let hours = nat (clamp 1 (24 * 30) (or_default 24 (rp_hours p)));
          limit = clamp 1 200 (or_default 20 (rp_limit p))
      in db_handler E st (\<lambda>db. B_Bypass (bypass_suspects (ev_visit_devices E) (ev_now E) hours BYPASS_QUERY_THRESHOLD limit db)))"

definition api_query_types :: "'f ApiEnv \<Rightarrow> RangeParams \<Rightarrow> AppState \<Rightarrow> 'f Reply" where
  "api_query_types E p st =
     (let h = or_default 24 (rp_hours p)
      in db_handler E st (\<lambda>db. B_Counted (query_types (ev_order E) (ev_now E) h db)))"

definition api_timeseries :: "'f ApiEnv \<Rightarrow> RangeParams \<Rightarrow> AppState \<Rightarrow> 'f Reply" where
  "api_timeseries E p st =
     (let hours = clamp 1 (24 * 30) (or_default 24 (rp_hours p));
          bucket = max ((hours * 3600) div 120) 60
      in db_handler E st (\<lambda>db. B_Series (timeseries (ev_now E) hours bucket db)))"

definition api_devices :: "'f ApiEnv \<Rightarrow> AppState \<Rightarrow> 'f Reply" where
  "api_devices E st = db_handler E st (\<lambda>db. B_Devices (device_rows (ev_visit_devices E) (ev_now E) db))"

definition api_interfaces :: "'f ApiEnv \<Rightarrow> RangeParams \<Rightarrow> AppState \<Rightarrow> 'f Reply" where
  "api_interfaces E p st =
     (let minutes = clamp 1 1440 (or_default 30 (rp_minutes p))
      in db_handler E st (\<lambda>db. B_Interfaces (iface_series (ev_visit_samples E) (ev_now E) minutes db)))"

fun show_socket :: "SocketAddr \<Rightarrow> string" where
  "show_socket a =
     (case sa_ip a of
        IpV4 _ \<Rightarrow> show_ip (sa_ip a) @ '':'' @ show_nat (unat (sa_port a))
      | IpV6 _ \<Rightarrow> ''['' @ show_ip (sa_ip a) @ '']:'' @ show_nat (unat (sa_port a)))"

definition iface_status :: "IfaceCounters \<Rightarrow> IfaceStatus" where
  "iface_status c =
     \<lparr>is_iface = ic_iface c, is_rx_bytes = rx_bytes c, is_tx_bytes = tx_bytes c,
      is_rx_packets = rx_packets c, is_tx_packets = tx_packets c, is_rx_errors = rx_errors c,
      is_tx_errors = tx_errors c, is_rx_dropped = rx_dropped c, is_tx_dropped = tx_dropped c\<rparr>"

text \<open>\<open>status\<close> waits twice, for the latency rows and for the storage sizes.\<close>

definition api_status :: "'f ApiEnv \<Rightarrow> AppState \<Rightarrow> 'f Reply" where
  "api_status E st =
     (if ev_cut E = Some 0 then Dropped
      else case with_db E st (latest_latency (ev_order E) (ev_pick_latency E)) of
        Inl e \<Rightarrow> Done (Inl e)
      | Inr latency \<Rightarrow>
          if ev_cut E = Some 1 then Dropped
          else case with_db E st (\<lambda>_. storage_sizes (ev_size_of E) (ev_pragma E) (database (storage (ap_cfg st)))) of
            Inl e \<Rightarrow> Done (Inl e)
          | Inr sizes \<Rightarrow>
              let cfg = ap_cfg st;
                  r = ap_resolver st;
                  stats = rs_stats r;
                  drops = w_dropped (h_writer (snd (rs_registry r)));
                  route = default_route (ev_routes E);
                  lan = Option.bind route (\<lambda>r. lan_subnet (ev_routes2 E) (dr_iface r));
                  (blocked_domains, srcs) =
                    (case rs_blocklist r of Some bl \<Rightarrow> (bl_len bl, sources bl) | None \<Rightarrow> (0, []));
                  interfaces = map iface_status (or_default [] (iface_counters (ev_counters E)))
              in Done (Inr (B_Status
                   \<lparr>st_version = ev_version E,
                    st_uptime_secs = as_secs (duration_since (ev_instant E) (ap_started st)),
                    st_dns_listen = show_socket (dns_listen (dns cfg)),
                    st_upstreams = map show_socket (upstreams (dns cfg)),
                    st_blocking_enabled = b_enabled (blocking cfg),
                    st_blocking_mode = b_mode (blocking cfg),
                    st_blocked_domains = blocked_domains,
                    st_blocklist_sources = srcs,
                    st_blocklist_health = or_default [] (ap_health st),
                    st_cache_entries = resolver_cache_len r,
                    st_queries_total = s_total stats,
                    st_queries_blocked = s_blocked stats,
                    st_cache_hits = s_cache_hits stats,
                    st_upstream_errors = s_upstream_errors stats,
                    st_queries_denied = s_denied stats,
                    st_udp_overload_drops = s_udp_overload_drops stats,
                    st_tcp_rejections = s_tcp_rejections stats,
                    st_request_timeouts = s_request_timeouts stats,
                    st_dropped_query_events = dc_queries drops,
                    st_dropped_device_events = dc_devices drops,
                    st_dropped_monitoring_events = dc_monitoring drops,
                    st_max_udp_in_flight = max_udp_in_flight (dns cfg),
                    st_max_tcp_connections = max_tcp_connections (dns cfg),
                    st_allow_from = allow_from (dns cfg),
                    st_storage = sizes,
                    st_discovery = or_default \<lparr>ls_dhcp = LS_Disabled, ls_mdns = LS_Disabled\<rparr> (ap_discovery st),
                    st_system = system_info (ev_f64 E) (ev_system E),
                    st_gateway = map_option (\<lambda>r. show_ipv4 (dr_gateway r) @ '' via '' @ dr_iface r) route,
                    st_lan_subnet = map_option show_subnet lan,
                    st_interfaces = interfaces,
                    st_latency = map (\<lambda>l. \<lparr>ls_target = la_target l, ls_ms = la_ms l, ls_ts = la_ts l\<rparr>) latency\<rparr>)))"

section \<open>Changing handlers\<close>

text \<open>The matcher is built on the blocking pool; \<open>ev_build\<close> says that the task was joined.\<close>

definition rebuild :: "'f ApiEnv \<Rightarrow> AppState \<Rightarrow> AppState \<times> (ApiError + nat)" where
  "rebuild E st =
     (if \<not> ev_build E then (st, Inl (internal_error ''rebuild task failed''))
      else
        let fresh = build (ap_cfg st) (ap_files st);
            len = bl_len fresh;
            r = ap_resolver st;
            r = (case rs_blocklist r of Some _ \<Rightarrow> r\<lparr>rs_blocklist := Some fresh\<rparr> | None \<Rightarrow> r);
            r = flush_cache r
        in (st\<lparr>ap_resolver := r\<rparr>, Inr len))"

text \<open>The four list handlers differ in the file and in what is done to it. They wait for the body and for
  the matcher.\<close>

definition edit_list ::
    "'f ApiEnv \<Rightarrow> (bool \<Rightarrow> path \<Rightarrow> string \<Rightarrow> fs \<Rightarrow> fs \<times> bool) \<Rightarrow> (Config \<Rightarrow> path) \<Rightarrow> string option \<Rightarrow> AppState \<Rightarrow> AppState \<times> 'f Reply" where
  "edit_list E change list_path body st =
     (if ev_cut E = Some 0 then (st, Dropped)
      else case body of
        None \<Rightarrow> (st, Rejected)
      | Some domain \<Rightarrow>
          if \<not> is_valid_domain domain
          then (st, Done (Inl (bad_request (ev_debug E domain @ '' is not a valid domain''))))
          else
            let (files, ok) = change (ev_write E) (list_path (ap_cfg st)) domain (ap_files st);
                st = st\<lparr>ap_files := files\<rparr>
            in if \<not> ok then (st, Done (Inl (internal_error ''list file'')))
               else if ev_cut E = Some 1 then (st, Dropped)
               else case rebuild E st of
                 (st, Inl e) \<Rightarrow> (st, Done (Inl e))
               | (st, Inr n) \<Rightarrow> (st, Done (Inr (B_Rebuilt n))))"

definition add_deny :: "'f ApiEnv \<Rightarrow> string option \<Rightarrow> AppState \<Rightarrow> AppState \<times> 'f Reply" where
  "add_deny E body st = edit_list E append_manual manual_deny_path body st"

definition remove_deny :: "'f ApiEnv \<Rightarrow> string option \<Rightarrow> AppState \<Rightarrow> AppState \<times> 'f Reply" where
  "remove_deny E body st = edit_list E remove_manual manual_deny_path body st"

definition api_add_allow :: "'f ApiEnv \<Rightarrow> string option \<Rightarrow> AppState \<Rightarrow> AppState \<times> 'f Reply" where
  "api_add_allow E body st = edit_list E append_manual manual_allow_path body st"

definition remove_allow :: "'f ApiEnv \<Rightarrow> string option \<Rightarrow> AppState \<Rightarrow> AppState \<times> 'f Reply" where
  "remove_allow E body st = edit_list E remove_manual manual_allow_path body st"

text \<open>From the end of the downloads on.\<close>

definition reload_rest :: "'f ApiEnv \<Rightarrow> nat \<Rightarrow> AppState \<Rightarrow> AppState \<times> 'f Reply" where
  "reload_rest E waits st =
     (let (outcome, health, files) = refresh_sources (ap_cfg st) (ev_refresh E) (ap_health st) (ap_files st);
          st = st\<lparr>ap_health := health, ap_files := files\<rparr>
      in if total_failure outcome
         then
           let detail = join ''; '' (map (\<lambda>(url, why). url @ '': '' @ why) (failures outcome))
           in (st, Done (Inl (bad_gateway (''all '' @ show_nat (attempted outcome) @
                 '' blocklist sources failed, keeping the cached copies ('' @ detail @ '')''))))
         else if ev_cut E = Some waits then (st, Dropped)
         else case rebuild E st of
           (st, Inl e) \<Rightarrow> (st, Done (Inl e))
         | (st, Inr n) \<Rightarrow> (st, Done (Inr (B_Reloaded n outcome))))"

text \<open>\<open>reload\<close> waits for each download and for the matcher. A dropped download has recorded its attempt
  and nothing else; the lock is released either way.\<close>

definition reload :: "'f ApiEnv \<Rightarrow> AppState \<Rightarrow> AppState \<times> 'f Reply" where
  "reload E st =
     (if ap_refreshing st then (st, Done (Inl (conflict ''a blocklist refresh is already running'')))
      else
        let cfg = ap_cfg st;
            env = ev_refresh E;
            waits = (if dir_ok env \<and> client_ok env then length (b_sources (blocking cfg)) else 0)
        in case ev_cut E of
             Some n \<Rightarrow>
               if n < waits then
                 let (_, health, files) =
                       fold (refresh_one cfg env) (take n (b_sources (blocking cfg)))
                         (RefreshOutcome_default, ap_health st, ap_files st);
                     url = b_sources (blocking cfg) ! n;
                     health = set_health url (\<lambda>h. h\<lparr>last_attempt := Some (env_now env url)\<rparr>) health
                 in (st\<lparr>ap_health := health, ap_files := files\<rparr>, Dropped)
               else reload_rest E waits st
           | None \<Rightarrow> reload_rest E waits st)"

definition api_flush_cache :: "AppState \<Rightarrow> AppState \<times> 'f Reply" where
  "api_flush_cache st = (st\<lparr>ap_resolver := flush_cache (ap_resolver st)\<rparr>, Done (Inr B_Ok))"

section \<open>Routing and layers\<close>

datatype Endpoint =
    E_Index | E_Favicon | E_Summary | E_Queries | E_Top_Domains | E_Top_Blocked | E_Top_Clients
  | E_Query_Types | E_Timeseries | E_Devices | E_Bypass_Suspects | E_Alerts | E_Interfaces | E_Status
  | E_Add_Deny | E_Remove_Deny | E_Add_Allow | E_Remove_Allow | E_Reload | E_Flush_Cache

definition mutating :: "(string \<times> Method \<times> Endpoint) list" where
  "mutating =
     [(''/api/deny'', POST, E_Add_Deny), (''/api/deny'', DELETE, E_Remove_Deny),
      (''/api/allow'', POST, E_Add_Allow), (''/api/allow'', DELETE, E_Remove_Allow),
      (''/api/reload'', POST, E_Reload), (''/api/flush-cache'', POST, E_Flush_Cache)]"

definition readonly :: "(string \<times> Method \<times> Endpoint) list" where
  "readonly =
     [(''/'', GET, E_Index), (''/favicon.svg'', GET, E_Favicon), (''/api/summary'', GET, E_Summary),
      (''/api/queries'', GET, E_Queries), (''/api/top-domains'', GET, E_Top_Domains),
      (''/api/top-blocked'', GET, E_Top_Blocked), (''/api/top-clients'', GET, E_Top_Clients),
      (''/api/query-types'', GET, E_Query_Types), (''/api/timeseries'', GET, E_Timeseries),
      (''/api/devices'', GET, E_Devices), (''/api/bypass-suspects'', GET, E_Bypass_Suspects),
      (''/api/alerts'', GET, E_Alerts), (''/api/interfaces'', GET, E_Interfaces),
      (''/api/status'', GET, E_Status)]"

text \<open>A \<open>GET\<close> route also serves \<open>HEAD\<close>.\<close>

definition find_route :: "(string \<times> Method \<times> Endpoint) list \<Rightarrow> HttpRequest \<Rightarrow> Endpoint option" where
  "find_route routes rq =
     map_option (\<lambda>(_, _, e). e)
       (List.find (\<lambda>(p, m, _). p = rq_path rq \<and> (m = rq_method rq \<or> m = GET \<and> rq_method rq = HEAD)) routes)"

definition with_range :: "(RangeParams \<Rightarrow> AppState \<Rightarrow> 'f Reply) \<Rightarrow> HttpRequest \<Rightarrow> AppState \<Rightarrow> 'f Reply" where
  "with_range h rq st = (case rq_range rq of None \<Rightarrow> Rejected | Some p \<Rightarrow> h p st)"

fun run_readonly :: "'f ApiEnv \<Rightarrow> HttpRequest \<Rightarrow> Endpoint \<Rightarrow> AppState \<Rightarrow> 'f Reply" where
  "run_readonly E rq E_Index st = Done (Inr B_Page)"
| "run_readonly E rq E_Favicon st = Done (Inr B_Icon)"
| "run_readonly E rq E_Summary st = api_summary E st"
| "run_readonly E rq E_Queries st = (case rq_query rq of None \<Rightarrow> Rejected | Some p \<Rightarrow> api_queries E p st)"
| "run_readonly E rq E_Top_Domains st = with_range (api_top_domains E) rq st"
| "run_readonly E rq E_Top_Blocked st = with_range (api_top_blocked E) rq st"
| "run_readonly E rq E_Top_Clients st = with_range (api_top_clients E) rq st"
| "run_readonly E rq E_Query_Types st = with_range (api_query_types E) rq st"
| "run_readonly E rq E_Timeseries st = with_range (api_timeseries E) rq st"
| "run_readonly E rq E_Devices st = api_devices E st"
| "run_readonly E rq E_Bypass_Suspects st = with_range (api_bypass_suspects E) rq st"
| "run_readonly E rq E_Alerts st = with_range (api_alerts E) rq st"
| "run_readonly E rq E_Interfaces st = with_range (api_interfaces E) rq st"
| "run_readonly E rq E_Status st = api_status E st"
| "run_readonly E rq _ st = Rejected"

fun run_mutating :: "'f ApiEnv \<Rightarrow> HttpRequest \<Rightarrow> Endpoint \<Rightarrow> AppState \<Rightarrow> AppState \<times> 'f Reply" where
  "run_mutating E rq E_Add_Deny st = add_deny E (rq_domain rq) st"
| "run_mutating E rq E_Remove_Deny st = remove_deny E (rq_domain rq) st"
| "run_mutating E rq E_Add_Allow st = api_add_allow E (rq_domain rq) st"
| "run_mutating E rq E_Remove_Allow st = remove_allow E (rq_domain rq) st"
| "run_mutating E rq E_Reload st = reload E st"
| "run_mutating E rq E_Flush_Cache st = api_flush_cache st"
| "run_mutating E rq _ st = (st, Rejected)"

definition as_bytes :: "string \<Rightarrow> u8 list" where
  "as_bytes s = map (\<lambda>c. word_of_nat (ch c)) s"

definition constant_time_eq :: "u8 list \<Rightarrow> u8 list \<Rightarrow> bool" where
  "constant_time_eq a b =
     (if length a \<noteq> length b then False
      else fold (\<lambda>(x, y) acc. acc OR (x XOR y)) (zip a b) 0 = 0)"

definition require_admin :: "HttpRequest \<Rightarrow> (AppState \<Rightarrow> AppState \<times> 'f Reply) \<Rightarrow> AppState \<Rightarrow> AppState \<times> 'f Reply" where
  "require_admin rq next_run st =
     (case admin_token (web (ap_cfg st)) of
        None \<Rightarrow> next_run st
      | Some expected \<Rightarrow>
          let presented = or_default [] (Option.bind (rq_authorization rq) (strip_prefix ''Bearer ''))
          in if \<not> constant_time_eq (as_bytes presented) (as_bytes expected)
             then (st, Done (Inl unauthorized))
             else next_run st)"

definition deadline :: "'f ApiEnv \<Rightarrow> HttpRequest \<Rightarrow> 'f Reply \<Rightarrow> 'f Response" where
  "deadline E rq reply =
     (case reply of
        Done (Inr b) \<Rightarrow> \<lparr>re_status = 200, re_headers = [], re_body = b\<rparr>
      | Done (Inl e) \<Rightarrow> into_response e
      | Rejected \<Rightarrow> ev_reject E rq
      | Dropped \<Rightarrow> \<lparr>re_status = 504, re_headers = [], re_body = B_Error ''request timed out''\<rparr>)"

text \<open>
  \<open>HTTP_TIMEOUT\<close> over the waits of a handler, given by their durations: the number of the wait during which
  the deadline passes. The handler is polled before the timer, so one that is done at the deadline is done
  in time. What it computes between its waits takes no time.
\<close>

definition HTTP_TIMEOUT :: duration where
  "HTTP_TIMEOUT = from_secs 30"

definition deadline_cut :: "duration list \<Rightarrow> nat option" where
  "deadline_cut waits = List.find (\<lambda>n. HTTP_TIMEOUT < sum_list (take (Suc n) waits)) [0..<length waits]"

definition CSP :: string where
  "CSP = ''default-src 'self'; script-src 'self' 'unsafe-inline'; '' @
     ''style-src 'self' 'unsafe-inline'; img-src 'self' data:; '' @
     ''connect-src 'self'; frame-ancestors 'none'; base-uri 'none'; form-action 'none'' @ [CHR 0x27]"

definition security_headers :: "'f Response \<Rightarrow> 'f Response" where
  "security_headers resp =
     (let h = re_headers resp;
          h = hm_insert ''content-security-policy'' CSP h;
          h = hm_insert ''x-content-type-options'' ''nosniff'' h;
          h = hm_insert ''referrer-policy'' ''no-referrer'' h;
          h = hm_insert ''x-frame-options'' ''DENY'' h
      in resp\<lparr>re_headers := h\<rparr>)"

definition api_request :: "'f ApiEnv \<Rightarrow> HttpRequest \<Rightarrow> AppState \<Rightarrow> AppState \<times> 'f Response" where
  "api_request E rq st =
     (case find_route readonly rq of
        Some e \<Rightarrow> (st, security_headers (deadline E rq (run_readonly E rq e st)))
      | None \<Rightarrow>
          (case find_route mutating rq of
             Some e \<Rightarrow>
               (case require_admin rq (run_mutating E rq e) st of
                  (st, reply) \<Rightarrow> (st, security_headers (deadline E rq reply)))
           | None \<Rightarrow> (st, security_headers (ev_fallback E rq))))"

section \<open>The admin check\<close>

lemma or_zero: "(a :: u8) OR b = 0 \<longleftrightarrow> a = 0 \<and> b = 0"
  by (metis (no_types) or.left_neutral or.right_neutral or_eq_0_iff)

lemma xor_zero: "(a :: u8) XOR b = 0 \<longleftrightarrow> a = b"
  by (auto simp: bit_eq_iff bit_simps)

lemma fold_differences:
  "fold (\<lambda>(x, y) acc. acc OR (x XOR y)) ps (acc :: u8) = 0 \<longleftrightarrow> acc = 0 \<and> (\<forall>(x, y) \<in> set ps. x = y)"
  by (induction ps arbitrary: acc) (auto simp: or_zero xor_zero)

lemma constant_time_eq_iff: "constant_time_eq a b \<longleftrightarrow> a = b"
proof (cases "length a = length b")
  case True
  then have "(\<forall>(x, y) \<in> set (zip a b). x = y) \<longleftrightarrow> a = b"
    by (induction a b rule: list_induct2) auto
  then show ?thesis using True by (simp add: constant_time_eq_def fold_differences)
qed (auto simp: constant_time_eq_def)

lemma as_bytes_inj: "as_bytes a = as_bytes b \<longleftrightarrow> a = b"
proof -
  have "unat (word_of_nat (ch c) :: u8) = ch c" for c
    by (simp add: unsigned_of_nat take_bit_eq_mod)
  then have "inj (\<lambda>c. word_of_nat (ch c) :: u8)" by (metis injI of_char_eq_iff)
  then show ?thesis by (simp add: as_bytes_def inj_map_eq_map)
qed

lemma strip_prefix_iff: "strip_prefix p s = Some t \<longleftrightarrow> s = p @ t"
  by (auto simp: strip_prefix_def) (metis append_take_drop_id)

lemma require_admin_passes:
  assumes "admin_token (web (ap_cfg st)) = Some t" "t \<noteq> []" "rq_authorization rq \<noteq> Some (''Bearer '' @ t)"
  shows "require_admin rq next_run st = (st, Done (Inl unauthorized))"
proof -
  have "or_default [] (Option.bind (rq_authorization rq) (strip_prefix ''Bearer '')) \<noteq> t"
    using assms(2,3) by (auto simp: or_default_def strip_prefix_iff split: option.splits bind_splits)
  then show ?thesis
    using assms(1) by (simp add: require_admin_def constant_time_eq_iff as_bytes_inj Let_def)
qed

lemma find_route_path: "find_route routes rq = Some e \<Longrightarrow> rq_path rq \<in> fst ` set routes"
  by (induction routes) (auto simp: find_route_def split: if_splits)

lemma routes_disjoint: "fst ` set mutating \<inter> fst ` set readonly = {}"
  by (simp add: mutating_def readonly_def)

lemma mutating_not_readonly: "find_route mutating rq \<noteq> None \<Longrightarrow> find_route readonly rq = None"
  using find_route_path [of mutating rq] find_route_path [of readonly rq] routes_disjoint
  by (cases "find_route readonly rq") auto

text \<open>
  C6. With an admin token configured, nothing that changes the program can be done over HTTP without
  it: unless the request carries exactly the header \<open>Authorization: Bearer <token>\<close>, the state after it
  is the state before it, and a request for one of the changing routes is answered 401 with a text that
  does not depend on the request. The comparison that decides it, which looks at every byte of equally
  long strings, is equality.
\<close>

theorem admin_token_required:
  assumes "admin_token (web (ap_cfg st)) = Some t" "t \<noteq> []" "rq_authorization rq \<noteq> Some (''Bearer '' @ t)"
  shows "fst (api_request E rq st) = st \<and>
    (find_route mutating rq \<noteq> None \<longrightarrow>
       snd (api_request E rq st) = security_headers (into_response unauthorized)) \<and>
    (constant_time_eq (as_bytes u) (as_bytes t) \<longleftrightarrow> u = t)"
proof (cases "find_route readonly rq")
  case None
  then show ?thesis
    by (auto simp: api_request_def deadline_def require_admin_passes [OF assms] constant_time_eq_iff as_bytes_inj split: option.splits)
next
  case (Some e)
  then have "find_route mutating rq = None" using mutating_not_readonly [of rq] by (cases "find_route mutating rq") auto
  with Some show ?thesis by (simp add: api_request_def constant_time_eq_iff as_bytes_inj)
qed

section \<open>The matcher and the files\<close>

lemma build_cong:
  assumes "\<And>p. hm_get files' p = hm_get files p"
  shows "build cfg files' = build cfg files"
proof -
  have r: "read_file files' = read_file files" using assms by (auto simp: read_file_def fun_eq_iff)
  have "ingest_file files' = ingest_file files" "build_source cfg files' = build_source cfg files"
    by (auto simp: fun_eq_iff ingest_file_def build_source_def r)
  then show ?thesis by (simp add: build_def)
qed

text \<open>The matcher in use is the one the files on disk describe.\<close>

definition in_sync :: "AppState \<Rightarrow> bool" where
  "in_sync st \<longleftrightarrow> rs_blocklist (ap_resolver st) = Some (build (ap_cfg st) (ap_files st))"

lemma flush_cache_blocklist [simp]: "rs_blocklist (flush_cache r) = rs_blocklist r"
  by (simp add: flush_cache_def)

lemma rebuild_ok:
  assumes "ev_build E" "rs_blocklist (ap_resolver st) \<noteq> None"
  shows "rebuild E st =
    (st\<lparr>ap_resolver := flush_cache ((ap_resolver st)\<lparr>rs_blocklist := Some (build (ap_cfg st) (ap_files st))\<rparr>)\<rparr>,
     Inr (bl_len (build (ap_cfg st) (ap_files st))))"
  using assms by (auto simp: rebuild_def Let_def)

lemma rebuild_in_sync:
  assumes "ev_build E" "rs_blocklist (ap_resolver st) \<noteq> None" "rebuild E st = (st', r)"
  shows "in_sync st' \<and> ap_cfg st' = ap_cfg st \<and> ap_files st' = ap_files st \<and> r \<noteq> Inl e"
  using assms(3) unfolding rebuild_ok [OF assms(1,2)] by (auto simp: in_sync_def)

lemma change_failed:
  "append_manual wr p d files = (files', False) \<Longrightarrow> files' = files"
  "remove_manual wr p d files = (files', False) \<Longrightarrow> files' = files"
  by (auto simp: append_manual_def remove_manual_def Let_def split: if_splits option.splits)

lemma edit_in_sync:
  assumes "in_sync st" "ev_cut E = None" "ev_build E"
    and "\<And>wr p d files files'. change wr p d files = (files', False) \<Longrightarrow> files' = files"
  shows "in_sync (fst (edit_list E change list_path body st))"
proof (cases body)
  case None
  then show ?thesis using assms(1,2) by (simp add: edit_list_def)
next
  case (Some d)
  obtain files ok where c: "change (ev_write E) (list_path (ap_cfg st)) d (ap_files st) = (files, ok)" by fastforce
  let ?st = "st\<lparr>ap_files := files\<rparr>"
  obtain st' r where r: "rebuild E ?st = (st', r)" by fastforce
  have "rs_blocklist (ap_resolver ?st) \<noteq> None" using assms(1) by (simp add: in_sync_def)
  then have "in_sync st'" using rebuild_in_sync [OF assms(3) _ r] by blast
  moreover have "?st = st" if "\<not> ok" using assms(4) c that by simp
  ultimately show ?thesis
    using assms(1,2) r by (auto simp: edit_list_def Some c Let_def split: sum.splits)
qed

lemma reload_in_sync:
  assumes "in_sync st" "ev_cut E = None" "ev_build E"
  shows "in_sync (fst (reload E st))"
proof -
  obtain out health files where f:
      "refresh_sources (ap_cfg st) (ev_refresh E) (ap_health st) (ap_files st) = (out, health, files)"
    by (metis prod.collapse)
  let ?st = "st\<lparr>ap_health := health, ap_files := files\<rparr>"
  obtain st' r where r: "rebuild E ?st = (st', r)" by fastforce
  have "rs_blocklist (ap_resolver ?st) \<noteq> None" using assms(1) by (simp add: in_sync_def)
  then have "in_sync st'" using rebuild_in_sync [OF assms(3) _ r] by blast
  moreover have "in_sync ?st" if "total_failure out"
  proof -
    have "hm_get files p = hm_get (ap_files st) p" for p
      using refresh_sources_inv [OF f] that by (auto simp: refresh_inv_def total_failure_def)
    then show ?thesis using assms(1) build_cong [of files "ap_files st"] by (simp add: in_sync_def)
  qed
  ultimately show ?thesis
    using assms(1,2) r f by (auto simp: reload_def reload_rest_def Let_def split: sum.splits)
qed

lemma mutating_in_sync:
  assumes "in_sync st" "ev_cut E = None" "ev_build E"
  shows "in_sync (fst (run_mutating E rq e st))"
proof -
  have "in_sync (fst (api_flush_cache st))" using assms(1) by (simp add: in_sync_def api_flush_cache_def)
  then show ?thesis
    using assms change_failed
    by (cases e) (auto simp: add_deny_def remove_deny_def api_add_allow_def remove_allow_def reload_in_sync
        intro!: edit_in_sync)
qed

lemma request_in_sync:
  assumes "in_sync st" "ev_cut E = None" "ev_build E"
  shows "in_sync (fst (api_request E rq st))"
  using assms mutating_in_sync [OF assms, of rq]
  by (auto simp: api_request_def require_admin_def Let_def split: option.splits prod.splits)
     (metis fst_conv)+

section \<open>Blocking a domain\<close>

lemma kept_when_stripped:
  assumes "\<And>t. x \<notin> set (take (w t) t)" "x \<in> set s"
  shows "x \<in> set (strip_ws w s)"
  using assms(2)
proof (induction s rule: length_induct)
  case (1 s)
  show ?case
  proof (cases s)
    case (Cons a t)
    show ?thesis
    proof (cases "w s = 0")
      case False
      then have "take (w s) s = a # take (w s - 1) t" by (cases "w s") (simp_all add: Cons)
      then have "x \<noteq> a" "x \<notin> set (take (w s - 1) t)" using assms(1) [of s] by auto
      then have "x \<in> set (drop (w s - 1) t)"
        using "1.prems" Cons by (metis UnE append_take_drop_id set_ConsD set_append)
      moreover have "length (drop (w s - 1) t) < length s" by (simp add: Cons)
      ultimately show ?thesis using "1.IH" False Cons by simp
    qed (use "1.prems" Cons in simp)
  qed (use "1.prems" in simp)
qed

lemma kept_when_trimmed:
  assumes "x = CHR ''#'' \<or> x = CHR ''!''" "x \<in> set s"
  shows "x \<in> set (trim s)"
proof -
  have n: "\<not> ws1 (ch x)" "\<not> ws2 (ch x) b" "\<not> ws2 a (ch x)" "\<not> ws3 (ch x) b c" "\<not> ws3 a (ch x) c" "\<not> ws3 a b (ch x)"
    for a b c using assms(1) by (auto simp: ws1_def ws2_def ws3_def)
  have "x \<notin> set (take (ws_front t) t)" for t
    by (cases t; cases "tl t"; cases "tl (tl t)") (auto simp: n split: if_splits)
  moreover have "x \<notin> set (take (ws_back t) t)" for t
    by (cases t; cases "tl t"; cases "tl (tl t)") (auto simp: n split: if_splits)
  ultimately show ?thesis
    unfolding trim_def using kept_when_stripped assms(2) by (metis set_rev)
qed

lemma line_trimmed:
  assumes "valid_domain d" "d \<noteq> ''0.0.0.0.0''" "trim l = d"
  shows "ingest_line False s l bl = bl\<lparr>exact := hm_or_insert d s (exact bl)\<rparr>"
proof -
  have "x \<notin> set l" if "x = CHR ''#'' \<or> x = CHR ''!''" for x
    using kept_when_trimmed [OF that] assms(3) valid_domain_no [OF assms(1)] that by auto
  then have w: "takeWhile (\<lambda>c. c \<noteq> CHR ''#'' \<and> c \<noteq> CHR ''!'') l = l" by (auto simp: takeWhile_eq_all_conv)
  have "strip_comment l = d" unfolding strip_comment_def by (simp add: w assms(3))
  moreover have "strip_comment d = d"
    using strip_comment_noop valid_domain_graphic [OF assms(1)] valid_domain_no(1,2) [OF assms(1)] by blast
  ultimately have "strip_comment l = strip_comment d" by simp
  then have "ingest_line False s l bl = ingest_line False s d bl" by (simp add: ingest_line_def)
  then show ?thesis using line_bare [OF assms(1,2)] by simp
qed

lemma ingest_lists_line:
  assumes "blocklist_wf bl" "valid_domain d" "d \<noteq> ''0.0.0.0.0''" "list_ex (\<lambda>l. trim l = d) (lines contents)"
  shows "hm_get (exact (fst (ingest contents name False bl))) d \<noteq> None"
proof -
  obtain bl' n where g: "ingest contents name False bl = (bl', n)" by fastforce
  obtain l where l: "l \<in> set (lines contents)" "trim l = d" using assms(4) by (auto simp: list_ex_iff)
  then obtain ys zs where ls: "lines contents = ys @ l # zs" by (metis split_list)
  obtain i bl1 bl2 where b: "unat i < length (sources bl1)" "bl2 = fold (ingest_line False i) (lines contents) bl1" "exact bl' = exact bl2"
  proof (rule ingest_block [OF assms(1) g])
    fix i bl1 bl2
    assume "unat i < length (sources bl1)" "bl2 = fold (ingest_line False i) (lines contents) bl1"
      "bl' = bl2\<lparr>sources := (sources bl1)[unat i := (sources bl1 ! unat i)\<lparr>ss_entries :=
         ss_entries (sources bl1 ! unat i) + n\<rparr>]\<rparr>"
    then show thesis by (intro that [of i bl1 bl2]) simp_all
  qed
  let ?b = "ingest_line False i l (fold (ingest_line False i) ys bl1)"
  have "hm_get (exact ?b) d \<noteq> None" by (simp add: line_trimmed [OF assms(2,3) l(2)] hm_simps)
  moreover have "adds i {i. unat i < length (sources bl1)} ?b (fold (ingest_line False i) zs ?b)"
    using b(1) by (intro adds_fold ingest_line_adds) simp
  moreover have "exact bl' = exact (fold (ingest_line False i) zs ?b)" by (simp add: b ls)
  ultimately show ?thesis using g by (fastforce simp: adds_def grows_def)
qed

lemma ingest_file_same: "same_blocks bl (fst (ingest_file files p True bl))"
proof (cases "read_file files p")
  case (Some t)
  obtain bl' n where "ingest t (file_name p) True bl = (bl', n)" by fastforce
  then show ?thesis using ingest_allow(3) Some by (simp add: ingest_file_def)
qed (simp add: ingest_file_def same_blocks_def)

lemma build_lists_denied:
  assumes "b_enabled (blocking cfg)" "read_file files (manual_deny_path cfg) = Some contents"
    "valid_domain d" "d \<noteq> ''0.0.0.0.0''" "list_ex (\<lambda>l. trim l = d) (lines contents)"
  shows "hm_get (exact (build cfg files)) d \<noteq> None"
proof -
  define bl where "bl = fold (\<lambda>p bl. fst (ingest_file files p False bl)) (b_files (blocking cfg))
     (fold (build_source cfg files) (b_sources (blocking cfg)) Blocklist_default)"
  define bl3 where "bl3 = fst (ingest_file files (manual_deny_path cfg) False bl)"
  have "blocklist_wf bl" unfolding bl_def by (auto intro!: wf_intros fold_wf)
  then have "hm_get (exact bl3) d \<noteq> None"
    using ingest_lists_line [OF _ assms(3-5)] assms(2) by (simp add: bl3_def ingest_file_def split_def Let_def)
  moreover have "same_blocks bl3 (fst (ingest_file files p True bl3))" for p by (rule ingest_file_same)
  moreover have "build cfg files = fst (ingest_file files (manual_allow_path cfg) True bl3)"
    using assms(1) by (simp add: build_def bl_def bl3_def Let_def)
  ultimately show ?thesis by (simp add: same_blocks_def)
qed

lemma normalize_manual_line: "normalize (manual_line d) = normalize d"
proof -
  have "trim_end_matches CHR ''.'' (to_ascii_lowercase s) = to_ascii_lowercase (trim_end_matches CHR ''.'' s)" for s
    by (simp add: trim_end_matches_def to_ascii_lowercase_def rev_map dropWhile_map comp_def lower_dot_iff)
  then have "to_ascii_lowercase (trim_end_matches CHR ''.'' (trim (manual_line d))) =
      to_ascii_lowercase (trim_end_matches CHR ''.'' (trim d))"
    by (simp add: manual_line_def trim_lower_trim)
  then show ?thesis unfolding normalize_def by (simp only:)
qed

text \<open>The request carries what the admin check asks for.\<close>

definition admitted :: "HttpRequest \<Rightarrow> AppState \<Rightarrow> bool" where
  "admitted rq st \<longleftrightarrow> (case admin_token (web (ap_cfg st)) of None \<Rightarrow> True
     | Some t \<Rightarrow> rq_authorization rq = Some (''Bearer '' @ t))"

lemma require_admin_admitted: "admitted rq st \<Longrightarrow> require_admin rq next_run st = next_run st"
  by (auto simp: admitted_def require_admin_def or_default_def strip_prefix_def constant_time_eq_iff split: option.splits)

lemma deny_route:
  "rq_method rq = POST \<Longrightarrow> rq_path rq = ''/api/deny'' \<Longrightarrow>
     find_route readonly rq = None \<and> find_route mutating rq = Some E_Add_Deny"
  by (simp add: find_route_def readonly_def mutating_def)

text \<open>A file whose text is complete lines of valid UTF-8.\<close>

definition complete_lines :: "string \<Rightarrow> bool" where
  "complete_lines t \<longleftrightarrow> utf8_valid (map ch t) \<and> (t = [] \<or> last t = CHR 0x0A)"

lemma appended_denied:
  assumes "b_enabled (blocking cfg)" "valid_domain (manual_line d)" "manual_line d \<noteq> ''0.0.0.0.0''"
    "complete_lines (file_text files (manual_deny_path cfg))"
    "append_manual True (manual_deny_path cfg) d files = (files', ok)"
  shows "is_valid_domain d" "ok" "hm_get (exact (build cfg files')) (manual_line d) \<noteq> None"
    "list_ex (\<lambda>l. trim l = manual_line d) (lines (file_text files' (manual_deny_path cfg)))"
proof -
  let ?p = "manual_deny_path cfg"
  have norm: "normalize (manual_line d) = Some (Exact (manual_line d))" using normalize_exact_valid [OF assms(2)] .
  then show "is_valid_domain d" by (simp add: is_valid_domain_def normalize_manual_line)
  have f: "ok" "list_ex (\<lambda>l. trim l = manual_line d) (lines (file_text files' ?p))" "utf8_valid (map ch (file_text files' ?p))"
    using append_manual_adds_line [OF _ _ assms(5)] assms(4) norm by (auto simp: complete_lines_def is_valid_domain_def)
  then show "ok" "list_ex (\<lambda>l. trim l = manual_line d) (lines (file_text files' ?p))" by simp_all
  have "hm_get files' ?p \<noteq> None" using f(2) by (auto simp: file_text_def lines_def split: option.splits)
  then have "read_file files' ?p = Some (file_text files' ?p)" using f(3) by (auto simp: read_file_def file_text_def)
  then show "hm_get (exact (build cfg files')) (manual_line d) \<noteq> None"
    using build_lists_denied [OF assms(1) _ assms(2,3) f(2)] by blast
qed

lemma add_deny_done:
  assumes "b_enabled (blocking (ap_cfg st))" "rs_blocklist (ap_resolver st) \<noteq> None"
    "ev_cut E = None" "ev_write E" "ev_build E" "valid_domain (manual_line d)" "manual_line d \<noteq> ''0.0.0.0.0''"
    "complete_lines (file_text (ap_files st) (manual_deny_path (ap_cfg st)))"
  obtains bl st' where "add_deny E (Some d) st = (st', Done (Inr (B_Rebuilt (bl_len bl))))"
    "rs_blocklist (ap_resolver st') = Some bl" "hm_get (exact bl) (manual_line d) \<noteq> None"
    "resolver_cache_len (ap_resolver st') = 0"
proof -
  obtain files ok where a: "append_manual True (manual_deny_path (ap_cfg st)) d (ap_files st) = (files, ok)" by fastforce
  note d = appended_denied [OF assms(1,6-8) a]
  have cl: "cache_len (cache_clear c) = 0" for c by (simp add: cache_len_def cache_clear_def)
  show thesis
    using rebuild_ok [OF assms(5), of "st\<lparr>ap_files := files\<rparr>"] a d(1-3) assms(2,3,4) cl
    by (intro that [of _ "build (ap_cfg st) files"])
       (auto simp: add_deny_def edit_list_def resolver_cache_len_def flush_cache_def split: option.splits)
qed

text \<open>A reload cut off during a download leaves the lists downloaded before it on disk, and the matcher and
  the cache as they were.\<close>

lemma slow_reload_not_installed:
  assumes "rq_method rq = POST" "rq_path rq = ''/api/reload''" "admitted rq st" "\<not> ap_refreshing st"
    and "dir_ok (ev_refresh E)" "client_ok (ev_refresh E)"
    and "ev_cut E = Some n" "n < length (b_sources (blocking (ap_cfg st)))"
    and "api_request E rq st = (st', resp)"
  shows "re_status resp = 504 \<and> ap_resolver st' = ap_resolver st \<and> ap_cfg st' = ap_cfg st \<and> \<not> ap_refreshing st' \<and>
    ap_files st' = snd (snd (fold (refresh_one (ap_cfg st) (ev_refresh E))
      (take n (b_sources (blocking (ap_cfg st)))) (RefreshOutcome_default, ap_health st, ap_files st)))"
proof -
  have r: "find_route readonly rq = None \<and> find_route mutating rq = Some E_Reload"
    using assms(1,2) by (simp add: find_route_def readonly_def mutating_def)
  obtain out health files where f: "fold (refresh_one (ap_cfg st) (ev_refresh E)) (take n (b_sources (blocking (ap_cfg st))))
      (RefreshOutcome_default, ap_health st, ap_files st) = (out, health, files)"
    by (metis prod.collapse)
  show ?thesis
    using assms(4-9) r f
    by (auto simp: api_request_def require_admin_admitted [OF assms(3)] reload_def Let_def deadline_def security_headers_def)
qed

text \<open>Every response, errors and timeouts included, forbids framing, external loads, content sniffing and
  referrers.\<close>

lemma responses_locked_down:
  "hm_get (re_headers (snd (api_request E rq st))) ''x-frame-options'' = Some ''DENY'' \<and>
   hm_get (re_headers (snd (api_request E rq st))) ''content-security-policy'' = Some CSP \<and>
   hm_get (re_headers (snd (api_request E rq st))) ''x-content-type-options'' = Some ''nosniff'' \<and>
   hm_get (re_headers (snd (api_request E rq st))) ''referrer-policy'' = Some ''no-referrer''"
proof -
  have "hm_get (re_headers (security_headers resp)) ''x-frame-options'' = Some ''DENY'' \<and>
     hm_get (re_headers (security_headers resp)) ''content-security-policy'' = Some CSP \<and>
     hm_get (re_headers (security_headers resp)) ''x-content-type-options'' = Some ''nosniff'' \<and>
     hm_get (re_headers (security_headers resp)) ''referrer-policy'' = Some ''no-referrer''" for resp :: "'a Response"
    by (simp add: security_headers_def hm_simps)
  moreover have "\<exists>resp. snd (api_request E rq st) = security_headers resp"
    by (auto simp: api_request_def split: option.splits prod.splits)
  ultimately show ?thesis by metis
qed

text \<open>An unexpected error tells the client nothing.\<close>

lemma internal_error_hidden: "re_body (into_response (internal_error e)) = B_Error ''internal error''"
  by (simp add: into_response_def internal_error_def)

text \<open>A page of the query log never has more than a thousand rows, whatever limit is asked for.\<close>

lemma queries_bounded:
  "api_queries E p st = Done (Inr (B_Queries rows)) \<Longrightarrow> length rows \<le> 1000"
  by (auto simp: api_queries_def db_handler_def with_db_def recent_queries_def Let_def split: if_splits option.splits)

section \<open>Instances\<close>

definition demo_refresh_env :: refresh_env where
  "demo_refresh_env = \<lparr>dir_ok = True, client_ok = True, env_now = (\<lambda>_. 5),
     env_reply = (\<lambda>_. Some \<lparr>http_success = True, http_length = None, http_chunks = [Some ''tracker.example'']\<rparr>),
     env_write = (\<lambda>_. True), env_rename = (\<lambda>_. True), env_reason = (\<lambda>_. [])\<rparr>"

definition demo_api :: "nat option \<Rightarrow> unit ApiEnv" where
  "demo_api k = \<lparr>ev_cut = k, ev_sql = True, ev_now = 0, ev_order = id, ev_visit_devices = id, ev_visit_samples = id, ev_like = (\<lambda>_ _. True),
     ev_pick_query = hd, ev_pick_client = (\<lambda>_. None), ev_pick_latency = hd, ev_size_of = (\<lambda>_. None),
     ev_pragma = (\<lambda>_. None), ev_routes = None, ev_routes2 = None, ev_counters = None,
     ev_system = \<lparr>proc_uptime = None, proc_loadavg = None, proc_meminfo = None, sys_get_throttled = None,
       sys_hwmon_throttled = None, sys_thermal = None\<rparr>,
     ev_f64 = \<lparr>f64_parse = (\<lambda>_. None), f64_zero = (), f64_as_u64 = (\<lambda>_. 0), f64_milli = id\<rparr>,
     ev_instant = 0, ev_version = [], ev_write = True, ev_build = True, ev_refresh = demo_refresh_env,
     ev_debug = id,
     ev_fallback = (\<lambda>_. \<lparr>re_status = 404, re_headers = [], re_body = B_Framework []\<rparr>),
     ev_reject = (\<lambda>_. \<lparr>re_status = 400, re_headers = [], re_body = B_Framework []\<rparr>)\<rparr>"

definition demo_config :: Config where
  "demo_config = Config_default\<lparr>web := (web Config_default)\<lparr>admin_token := Some ''0123456789abcdef''\<rparr>\<rparr>"

definition demo_state :: AppState where
  "demo_state = \<lparr>ap_db = Some db_empty, ap_cfg = demo_config,
     ap_resolver = resolver_new demo_config None (Some Blocklist_default) (devices_new demo_oui, hub_new),
     ap_started = 0, ap_discovery = None, ap_health = None, ap_refreshing = False, ap_files = []\<rparr>"

definition demo_post :: "string \<Rightarrow> string option \<Rightarrow> HttpRequest" where
  "demo_post p auth = \<lparr>rq_method = POST, rq_path = p, rq_authorization = auth, rq_query = None, rq_range = None,
     rq_domain = Some '' Tracker.Example''\<rparr>"

lemma demo_token: "admin_token (web (ap_cfg demo_state)) = Some ''0123456789abcdef''"
  by (simp add: demo_state_def demo_config_def)

theorem admin_token_required_witness:
  "admin_token (web (ap_cfg demo_state)) = Some ''0123456789abcdef'' \<and>
   fst (api_request (demo_api None) (demo_post ''/api/deny'' (Some ''Bearer 0123456789abcdeF'')) demo_state) = demo_state \<and>
   re_status (snd (api_request (demo_api None) (demo_post ''/api/deny'' None) demo_state)) = 401"
proof -
  have "find_route mutating (demo_post ''/api/deny'' None) \<noteq> None"
    by (simp add: demo_post_def find_route_def mutating_def)
  then show ?thesis
    using admin_token_required [OF demo_token, of "demo_post ''/api/deny'' (Some ''Bearer 0123456789abcdeF'')" "demo_api None"]
      admin_token_required [OF demo_token, of "demo_post ''/api/deny'' None" "demo_api None"] demo_token
    by (simp add: demo_post_def security_headers_def into_response_def unauthorized_def)
qed

end
