(* ===== verification/Monitor.thy ===== *)
theory Monitor
  imports Netinfo Db
begin

text \<open>
  Sampling of interface throughput and link latency (\<open>src/monitor.rs\<close>): one turn of each sampler as a
  function of its state and the writer. The counter file, the routing table, the clock readings and
  the outcomes of the probes are arguments; \<open>rate\<close> is the floating-point expression
  \<open>((delta as f64 * 8.0) / secs) as i64\<close>, a function of the byte count and the time between two
  readings.
\<close>

section \<open>Definitions\<close>

type_synonym reading = "nat \<times> nat \<times> instant"

definition iface_sample ::
    "(nat \<Rightarrow> duration \<Rightarrow> int) \<Rightarrow> reading \<Rightarrow> int \<Rightarrow> instant \<Rightarrow> IfaceCounters \<Rightarrow> IfaceSample" where
  "iface_sample rate prev ts now c =
     (case prev of (prev_rx, prev_tx, prev_at) \<Rightarrow>
        let secs = duration_since now prev_at;
            rx_delta = rx_bytes c - prev_rx;
            tx_delta = tx_bytes c - prev_tx
        in \<lparr>if_ts = ts, if_iface = ic_iface c,
            if_rx_bytes = wrap_i64 (int (rx_bytes c)), if_tx_bytes = wrap_i64 (int (tx_bytes c)),
            if_rx_bps = rate rx_delta secs, if_tx_bps = rate tx_delta secs\<rparr>)"

definition sample_counter ::
    "(nat \<Rightarrow> duration \<Rightarrow> int) \<Rightarrow> int \<Rightarrow> instant \<Rightarrow> IfaceCounters \<Rightarrow>
       (string, reading) hmap \<times> Writer \<Rightarrow> (string, reading) hmap \<times> Writer" where
  "sample_counter rate ts now c st =
     (case st of (last_seen, w) \<Rightarrow>
        let here = hm_insert (ic_iface c) (rx_bytes c, tx_bytes c, now) last_seen in
        case hm_get last_seen (ic_iface c) of
          Some (prev_rx, prev_tx, prev_at) \<Rightarrow>
            if duration_since now prev_at \<le> 0 then (last_seen, w)
            else (here, writer_send (W_Iface (iface_sample rate (prev_rx, prev_tx, prev_at) ts now c)) w)
        | None \<Rightarrow> (here, w))"

definition throughput_turn ::
    "(nat \<Rightarrow> duration \<Rightarrow> int) \<Rightarrow> string option \<Rightarrow> int \<Rightarrow> instant \<Rightarrow>
       (string, reading) hmap \<times> Writer \<Rightarrow> (string, reading) hmap \<times> Writer" where
  "throughput_turn rate file ts now st =
     (case iface_counters file of
        None \<Rightarrow> st
      | Some counters \<Rightarrow> fold (sample_counter rate ts now) counters st)"

text \<open>The sampler: turns with an empty map to begin with.\<close>

definition throughput_sampler ::
    "(nat \<Rightarrow> duration \<Rightarrow> int) \<Rightarrow> (string option \<times> int \<times> instant) list \<Rightarrow> Writer \<Rightarrow> (string, reading) hmap \<times> Writer" where
  "throughput_sampler rate turns w = fold (\<lambda>(file, ts, now). throughput_turn rate file ts now) turns ([], w)"

text \<open>A probe is a connection attempt to an address within a number of milliseconds.\<close>

type_synonym prober = "SocketAddr \<Rightarrow> nat \<Rightarrow> probe_outcome \<times> duration"

definition probe_ms :: "prober \<Rightarrow> SocketAddr \<Rightarrow> nat \<Rightarrow> duration option" where
  "probe_ms probe target timeout_ms = (case probe target timeout_ms of (out, elapsed) \<Rightarrow> tcp_probe_ms out elapsed)"

definition latency_turn :: "prober \<Rightarrow> string option \<Rightarrow> SocketAddr \<Rightarrow> int \<Rightarrow> Writer \<Rightarrow> Writer" where
  "latency_turn probe routes upstream ts w =
     (let w = (case default_route routes of
                 None \<Rightarrow> w
               | Some route \<Rightarrow>
                   (let gw = \<lparr>sa_ip = IpV4 (dr_gateway route), sa_port = 53\<rparr>;
                        ms = (case probe_ms probe gw 1500 of
                                Some v \<Rightarrow> Some v
                              | None \<Rightarrow>
                                  (let http = \<lparr>sa_ip = IpV4 (dr_gateway route), sa_port = 80\<rparr>
                                   in probe_ms probe http 1500))
                    in case ms of
                         Some ms \<Rightarrow> writer_send (W_Latency \<lparr>la_ts = ts, la_target = ''gateway'', la_ms = ms\<rparr>) w
                       | None \<Rightarrow> w))
      in case probe_ms probe upstream 2500 of
           Some ms \<Rightarrow> writer_send (W_Latency \<lparr>la_ts = ts, la_target = ''upstream'', la_ms = ms\<rparr>) w
         | None \<Rightarrow> w)"

section \<open>Laws\<close>

text \<open>
  The reference: an interface appears in a turn with the first line that names it; the samples of an
  interface are made from each two successive appearances.
\<close>

definition appearances :: "string \<Rightarrow> (string option \<times> int \<times> instant) list \<Rightarrow> (IfaceCounters \<times> int \<times> instant) list" where
  "appearances iface turns =
     concat (map (\<lambda>(file, ts, now). case iface_counters file of
                     None \<Rightarrow> []
                   | Some cs \<Rightarrow> map (\<lambda>c. (c, ts, now)) (take 1 (filter (\<lambda>c. ic_iface c = iface) cs))) turns)"

fun series :: "(nat \<Rightarrow> duration \<Rightarrow> int) \<Rightarrow> (IfaceCounters \<times> int \<times> instant) list \<Rightarrow> IfaceSample list" where
  "series rate ((a, _, at) # (b, ts, now) # rest) =
     iface_sample rate (rx_bytes a, tx_bytes a, at) ts now b # series rate ((b, ts, now) # rest)"
| "series rate _ = []"

text \<open>The operations a turn sends, and those of one interface.\<close>

definition samples_of :: "string \<Rightarrow> WriteOp list \<Rightarrow> IfaceSample list" where
  "samples_of iface ops = concat (map (\<lambda>op. case op of W_Iface s \<Rightarrow> if if_iface s = iface then [s] else [] | _ \<Rightarrow> []) ops)"

lemma samples_of_append [simp]: "samples_of i (xs @ ys) = samples_of i xs @ samples_of i ys"
  by (simp add: samples_of_def)

lemma samples_of_Nil [simp]: "samples_of i [] = []"
  by (simp add: samples_of_def)

lemma samples_of_iface [simp]:
  "samples_of i (W_Iface s # ops) = (if if_iface s = i then s # samples_of i ops else samples_of i ops)"
  by (simp add: samples_of_def)

text \<open>What the state remembers of an interface is its last appearance.\<close>

definition remembered :: "(IfaceCounters \<times> int \<times> instant) list \<Rightarrow> reading option" where
  "remembered as = (if as = [] then None else (case last as of (c, _, now) \<Rightarrow> Some (rx_bytes c, tx_bytes c, now)))"

lemma series_snoc:
  "series rate (as @ [(c, ts, now)]) = series rate as @
     (case remembered as of None \<Rightarrow> [] | Some r \<Rightarrow> [iface_sample rate r ts now c])"
proof (induction as)
  case (Cons x xs)
  obtain a t at where x: "x = (a, t, at)" by (cases x)
  show ?case
  proof (cases xs)
    case (Cons y ys)
    then show ?thesis using Cons.IH x by (cases y) (simp add: remembered_def)
  qed (simp add: x remembered_def)
qed (simp add: remembered_def)

text \<open>The state after a history \<open>H\<close> of appearances of each interface.\<close>

definition sampled :: "(nat \<Rightarrow> duration \<Rightarrow> int) \<Rightarrow> Writer \<Rightarrow> (string \<Rightarrow> (IfaceCounters \<times> int \<times> instant) list) \<Rightarrow>
    (string, reading) hmap \<times> Writer \<Rightarrow> bool" where
  "sampled rate w0 H st \<longleftrightarrow> (\<exists>ops. snd st = fold writer_send ops w0 \<and>
     (\<forall>i. hm_get (fst st) i = remembered (H i) \<and> samples_of i ops = series rate (H i)))"

lemma iface_sample_iface [simp]: "if_iface (iface_sample rate r ts now c) = ic_iface c"
  by (simp add: iface_sample_def Let_def split: prod.splits)

lemma remembered_snoc [simp]: "remembered (as @ [(c, ts, now)]) = Some (rx_bytes c, tx_bytes c, now)"
  by (simp add: remembered_def)

lemma sampled_new:
  assumes "sampled rate w0 H st" "\<forall>r. remembered (H (ic_iface c)) = Some r \<longrightarrow> snd (snd r) < now"
  shows "sampled rate w0 (H(ic_iface c := H (ic_iface c) @ [(c, ts, now)])) (sample_counter rate ts now c st)"
proof -
  let ?i = "ic_iface c"
  let ?new = "case remembered (H ?i) of None \<Rightarrow> [] | Some r \<Rightarrow> [W_Iface (iface_sample rate r ts now c)]"
  obtain ops where ops: "snd st = fold writer_send ops w0"
    "\<And>i. hm_get (fst st) i = remembered (H i)" "\<And>i. samples_of i ops = series rate (H i)"
    using assms(1) by (auto simp: sampled_def)
  have "fst (sample_counter rate ts now c st) = hm_insert ?i (rx_bytes c, tx_bytes c, now) (fst st) \<and>
      snd (sample_counter rate ts now c st) = fold writer_send (ops @ ?new) w0"
    using assms(2) ops(1,2) by (cases st) (auto simp: sample_counter_def Let_def duration_since_def split: option.splits)
  moreover have "samples_of i (ops @ ?new) = series rate ((H(?i := H ?i @ [(c, ts, now)])) i)" for i
    using ops(3) by (auto simp: series_snoc split: option.splits)
  ultimately show ?thesis
    unfolding sampled_def using ops(2) by (intro exI [of _ "ops @ ?new"]) (auto simp: hm_simps)
qed

lemma sampled_again:
  assumes "sampled rate w0 H st" "remembered (H (ic_iface c)) = Some (rx, tx, now)"
  shows "sample_counter rate ts now c st = st"
proof -
  have "hm_get (fst st) (ic_iface c) = Some (rx, tx, now)" using assms by (auto simp: sampled_def)
  then show ?thesis by (cases st) (simp add: sample_counter_def duration_since_def)
qed

definition first_line :: "string \<Rightarrow> int \<Rightarrow> instant \<Rightarrow> IfaceCounters list \<Rightarrow> (IfaceCounters \<times> int \<times> instant) list" where
  "first_line i ts now cs = map (\<lambda>c. (c, ts, now)) (take 1 (filter (\<lambda>c. ic_iface c = i) cs))"

lemma first_line_snoc:
  "first_line i ts now (cs @ [c]) =
     (if ic_iface c = i \<and> first_line i ts now cs = [] then [(c, ts, now)] else first_line i ts now cs)"
  by (cases "filter (\<lambda>c. ic_iface c = i) cs") (auto simp: first_line_def)

lemma first_line_remembered:
  "first_line i ts now cs \<noteq> [] \<Longrightarrow> \<exists>rx tx. remembered (as @ first_line i ts now cs) = Some (rx, tx, now)"
  by (cases "filter (\<lambda>c. ic_iface c = i) cs") (auto simp: first_line_def remembered_def)

lemma sampled_turn:
  assumes "sampled rate w0 H st" "\<forall>i r. remembered (H i) = Some r \<longrightarrow> snd (snd r) < now"
  shows "sampled rate w0 (\<lambda>i. H i @ first_line i ts now cs) (fold (sample_counter rate ts now) cs st)"
proof (induction cs rule: rev_induct)
  case (snoc c cs)
  let ?H = "\<lambda>i. H i @ first_line i ts now cs"
  show ?case
  proof (cases "first_line (ic_iface c) ts now cs = []")
    case True
    then have "(\<lambda>i. H i @ first_line i ts now (cs @ [c])) = ?H(ic_iface c := ?H (ic_iface c) @ [(c, ts, now)])"
      by (auto simp: first_line_snoc)
    then show ?thesis using sampled_new [OF snoc, of c now ts] True assms(2) by simp
  next
    case False
    then obtain rx tx where "remembered (?H (ic_iface c)) = Some (rx, tx, now)"
      using first_line_remembered by blast
    moreover have "(\<lambda>i. H i @ first_line i ts now (cs @ [c])) = ?H"
      using False by (auto simp: first_line_snoc)
    ultimately show ?thesis using sampled_again [OF snoc, of c rx tx now ts] snoc by simp
  qed
qed (simp add: first_line_def assms(1))

lemma appearances_snoc:
  "appearances i (turns @ [(file, ts, now)]) = appearances i turns @
     (case iface_counters file of None \<Rightarrow> [] | Some cs \<Rightarrow> first_line i ts now cs)"
  by (simp add: appearances_def first_line_def split: option.splits)

lemma appearances_times: "(c, ts, t) \<in> set (appearances i turns) \<Longrightarrow> t \<in> (snd \<circ> snd) ` set turns"
  by (auto simp: appearances_def image_iff split: option.splits) (metis snd_conv)

lemma sampled_run:
  "sorted_wrt (<) (map (snd \<circ> snd) turns) \<Longrightarrow>
     sampled rate w (\<lambda>i. appearances i turns) (throughput_sampler rate turns w)"
proof (induction turns rule: rev_induct)
  case Nil
  show ?case
    by (auto simp: sampled_def throughput_sampler_def appearances_def remembered_def hm_simps intro: exI [of _ "[]"])
next
  case (snoc x turns)
  obtain f ts now where x: "x = (f, ts, now)" by (cases x)
  have "snd (snd r) < now" if "remembered (appearances i turns) = Some r" for i r
  proof -
    obtain c t at where "last (appearances i turns) = (c, t, at)" "appearances i turns \<noteq> []" "r = (rx_bytes c, tx_bytes c, at)"
      using \<open>remembered _ = Some r\<close> by (auto simp: remembered_def split: if_splits prod.splits)
    then have "at \<in> (snd \<circ> snd) ` set turns" using appearances_times last_in_set by metis
    then show ?thesis using snoc.prems \<open>r = _\<close> by (auto simp: x sorted_wrt_append)
  qed
  moreover have "sampled rate w (\<lambda>i. appearances i turns) (throughput_sampler rate turns w)"
    using snoc by (simp add: sorted_wrt_append)
  ultimately show ?case
    using sampled_turn [of rate w "\<lambda>i. appearances i turns" "throughput_sampler rate turns w" now ts]
    by (cases "iface_counters f") (simp_all add: x appearances_snoc throughput_sampler_def throughput_turn_def)
qed

text \<open>
  C32. The throughput series is the one the kernel's counters describe: whatever interfaces come and go,
  and whatever readings fail, the sampler sends the writer, for every interface, exactly one sample
  per reading it appears in after its first, made from that reading and the one before it in which it
  appeared; a second line naming an interface in the same reading adds nothing. Its rates are taken
  over the bytes counted and the time passed in between, a counter that went backwards counting as no
  bytes.
\<close>

theorem throughput_series:
  assumes "sorted_wrt (<) (map (snd \<circ> snd) turns)"
  shows "\<exists>ops. snd (throughput_sampler rate turns w) = fold writer_send ops w \<and>
    (\<forall>iface. samples_of iface ops = series rate (appearances iface turns))"
  using sampled_run [OF assms, of rate w] by (auto simp: sampled_def)

definition demo_dev :: "string \<Rightarrow> string \<Rightarrow> string" where
  "demo_dev rx tx = ''h1'' @ [CHR 0x0A] @ ''h2'' @ [CHR 0x0A] @ ''lo: 1'' @ [CHR 0x0A] @
     ''eth0: '' @ rx @ '' 0 0 0 0 0 0 0 '' @ tx @ '' 0 0 0 0 0 0 0'' @ [CHR 0x0A]"

definition demo_turns :: "(string option \<times> int \<times> instant) list" where
  "demo_turns = [(Some (demo_dev ''100'' ''50''), 10, 10), (None, 20, 20), (Some (demo_dev ''350'' ''40''), 30, 30)]"

lemma demo_lo: "counter_line ''lo: 1'' = []"
  by (simp add: counter_line_def str_eval)

lemma demo_ws:
  "split_whitespace '' 100 0 0 0 0 0 0 0 50 0 0 0 0 0 0 0'' =
     [''100'', ''0'', ''0'', ''0'', ''0'', ''0'', ''0'', ''0'', ''50'', ''0'', ''0'', ''0'', ''0'', ''0'', ''0'', ''0'']"
  "split_whitespace '' 350 0 0 0 0 0 0 0 40 0 0 0 0 0 0 0'' =
     [''350'', ''0'', ''0'', ''0'', ''0'', ''0'', ''0'', ''0'', ''40'', ''0'', ''0'', ''0'', ''0'', ''0'', ''0'', ''0'']"
  by (simp_all add: split_whitespace_def ws1_def ws2_def ws3_def)

lemma demo_appearances:
  "map (\<lambda>(c, ts, now). (rx_bytes c, tx_bytes c, ts, now)) (appearances ''eth0'' demo_turns) =
     [(100, 50, 10, 10), (350, 40, 30, 30)]"
  by (simp add: appearances_def demo_turns_def demo_dev_def iface_counters_def parse_iface_counters_def
      lines_def strip_cr_def demo_lo counter_line_def demo_ws u64_max_def str_eval)

theorem throughput_series_witness:
  "sorted_wrt (<) (map (snd \<circ> snd) demo_turns) \<and>
   (\<exists>ops. snd (throughput_sampler (\<lambda>n d. int (n * 8)) demo_turns writer_new) = fold writer_send ops writer_new \<and>
      map (\<lambda>s. (if_ts s, if_rx_bytes s, if_rx_bps s, if_tx_bps s)) (samples_of ''eth0'' ops) = [(30, 350, 2000, 0)])"
proof -
  have s: "sorted_wrt (<) (map (snd \<circ> snd) demo_turns)" by (simp add: demo_turns_def)
  obtain a b where ab: "appearances ''eth0'' demo_turns = [(a, 10, 10), (b, 30, 30)]"
      "rx_bytes a = 100" "tx_bytes a = 50" "rx_bytes b = 350" "tx_bytes b = 40"
    using demo_appearances by (auto simp: map_eq_Cons_conv)
  show ?thesis
    using s throughput_series [OF s, of "\<lambda>n d. int (n * 8)" writer_new] ab
    by (auto simp: iface_sample_def wrap_i64_def)
qed

text \<open>The latency sampler sends at most one sample of each target, the gateway's from port 80 only when
  port 53 gave none.\<close>

lemma latency_turn_sends:
  "latency_turn probe routes upstream ts w =
     fold writer_send
       ((case default_route routes of
           None \<Rightarrow> []
         | Some r \<Rightarrow>
             map (\<lambda>ms. W_Latency \<lparr>la_ts = ts, la_target = ''gateway'', la_ms = ms\<rparr>)
               (take 1 (List.map_filter (\<lambda>p. probe_ms probe \<lparr>sa_ip = IpV4 (dr_gateway r), sa_port = p\<rparr> 1500) [53, 80])))
        @ (case probe_ms probe upstream 2500 of
             None \<Rightarrow> []
           | Some ms \<Rightarrow> [W_Latency \<lparr>la_ts = ts, la_target = ''upstream'', la_ms = ms\<rparr>])) w"
  by (auto simp: latency_turn_def List.map_filter_def Let_def split: option.splits)

end
