(* ===== verification/Db_File.thy ===== *)
theory Db_File
  imports Db
begin

text \<open>
  The database file (\<open>src/db.rs\<close>): opening it with the schema, the hourly maintenance pass, and
  \<open>netwatch --rebuild-db\<close>. SQLite is a parameter: a connection state of any type, with what the code calls
  on it as the fields of \<open>Sqlite\<close>; \<open>sqlite_ok\<close> and \<open>vacuum_ok\<close> state what SQLite documents about
  \<open>auto_vacuum\<close>. Shown: a fresh file can shrink after \<open>open\<close>, which is why the order of the schema's
  statements matters, an old one only after a rebuild; a lock held by a running service is reported as
  such; the maintenance loop ends and gives back the pages it promises.
\<close>

section \<open>Connections\<close>

text \<open>The statements the code runs on the file.\<close>

datatype Sql =
    Auto_Vacuum_Incremental
  | Journal_Mode_Wal
  | Synchronous_Normal
  | Create_Table string
  | Create_Index string
  | Vacuum
  | Wal_Checkpoint_Truncate

datatype ErrorCode = DatabaseBusy | DatabaseLocked | Other_Code nat

record SqliteError =
  sqlite_error_code :: "ErrorCode option"
  se_message :: string

text \<open>\<open>sq_exec\<close> runs one statement, \<open>sq_batch\<close> is \<open>execute_batch\<close>; \<open>sq_step\<close> is one step of a prepared
  \<open>PRAGMA incremental_vacuum(2048)\<close>, \<open>True\<close> being a row.\<close>

record 's Sqlite =
  sq_open :: "string \<Rightarrow> SqliteError + 's"
  sq_busy_timeout :: "duration \<Rightarrow> 's \<Rightarrow> SqliteError option \<times> 's"
  sq_exec :: "Sql \<Rightarrow> 's \<Rightarrow> SqliteError option \<times> 's"
  sq_batch :: "Sql list \<Rightarrow> 's \<Rightarrow> SqliteError option \<times> 's"
  sq_pragma :: "string \<Rightarrow> 's \<Rightarrow> int option"
  sq_prepare_vacuum :: "'s \<Rightarrow> SqliteError option \<times> 's"
  sq_query_vacuum :: "'s \<Rightarrow> SqliteError option \<times> 's"
  sq_step :: "'s \<Rightarrow> (SqliteError + bool) \<times> 's"

datatype DbError =
    Sqlite_Failed SqliteError
  | In_Use_By_Another_Process
  | Still_Not_Incremental
  | Create_Dir_Failed
  | With_Context string DbError

definition SCHEMA :: "Sql list" where
  "SCHEMA =
     [Auto_Vacuum_Incremental, Journal_Mode_Wal, Synchronous_Normal,
      Create_Table ''queries'', Create_Index ''idx_queries_ts'', Create_Index ''idx_queries_domain'',
      Create_Index ''idx_queries_client'', Create_Index ''idx_queries_status'',
      Create_Table ''devices'', Create_Index ''idx_devices_ip'',
      Create_Table ''iface_samples'', Create_Index ''idx_iface_ts'',
      Create_Table ''alerts'', Create_Index ''idx_alerts_ts'',
      Create_Table ''latency'', Create_Index ''idx_latency_ts'']"

definition can_shrink :: "'s Sqlite \<Rightarrow> 's \<Rightarrow> bool" where
  "can_shrink Q s = incremental_vacuum_available (\<lambda>name. sq_pragma Q name s)"

section \<open>Opening, maintaining, rebuilding\<close>

text \<open>\<open>dir\<close>: the parent directory, if the path names one, exists or could be created.\<close>

definition open_db :: "'s Sqlite \<Rightarrow> bool \<Rightarrow> string \<Rightarrow> DbError + 's" where
  "open_db Q dir path =
     (if \<not> dir then Inl (With_Context ''creating '' Create_Dir_Failed)
      else case sq_open Q path of
        Inl e \<Rightarrow> Inl (With_Context (''opening database '' @ path) (Sqlite_Failed e))
      | Inr s \<Rightarrow> (case sq_batch Q SCHEMA s of
          (Some e, _) \<Rightarrow> Inl (With_Context ''applying schema'' (Sqlite_Failed e))
        | (None, s) \<Rightarrow> (case sq_busy_timeout Q (from_secs 5) s of
            (Some e, _) \<Rightarrow> Inl (Sqlite_Failed e)
          | (None, s) \<Rightarrow> Inr s)))"

definition busy_aware :: "SqliteError option \<Rightarrow> DbError option" where
  "busy_aware r =
     (case r of
        None \<Rightarrow> None
      | Some e \<Rightarrow>
          if sqlite_error_code e = Some DatabaseBusy \<or> sqlite_error_code e = Some DatabaseLocked
          then Some In_Use_By_Another_Process
          else Some (Sqlite_Failed e))"

definition busy_step :: "'s Sqlite \<Rightarrow> string \<Rightarrow> Sql \<Rightarrow> 's \<Rightarrow> DbError option \<times> 's" where
  "busy_step Q what st s =
     (case sq_batch Q [st] s of (r, s') \<Rightarrow> (map_option (With_Context what) (busy_aware r), s'))"

text \<open>The result, with the file as it is left where it was opened; \<open>before\<close> and \<open>after\<close> are the sizes the
  file system gives.\<close>

definition rebuild_database ::
    "'s Sqlite \<Rightarrow> u64 option \<Rightarrow> u64 option \<Rightarrow> string \<Rightarrow> (DbError + u64 \<times> u64) \<times> 's option" where
  "rebuild_database Q before after path =
     (case sq_open Q path of
        Inl e \<Rightarrow> (Inl (With_Context (''opening database '' @ path) (Sqlite_Failed e)), None)
      | Inr s \<Rightarrow> (case sq_busy_timeout Q (from_secs 2) s of
          (Some e, s) \<Rightarrow> (Inl (Sqlite_Failed e), Some s)
        | (None, s) \<Rightarrow> (case busy_step Q ''setting auto_vacuum'' Auto_Vacuum_Incremental s of
            (Some e, s) \<Rightarrow> (Inl e, Some s)
          | (None, s) \<Rightarrow> (case busy_step Q ''rebuilding the database'' Vacuum s of
              (Some e, s) \<Rightarrow> (Inl e, Some s)
            | (None, s) \<Rightarrow> (case sq_batch Q [Wal_Checkpoint_Truncate] s of
                (Some e, s) \<Rightarrow> (Inl (With_Context ''checkpointing after VACUUM'' (Sqlite_Failed e)), Some s)
              | (None, s) \<Rightarrow>
                  if can_shrink Q s
                  then (Inr (case before of Some n \<Rightarrow> n | None \<Rightarrow> 0, case after of Some n \<Rightarrow> n | None \<Rightarrow> 0), Some s)
                  else (Inl Still_Not_Incremental, Some s))))))"

text \<open>\<open>while rows.next()?.is_some() {}\<close>\<close>

partial_function (option) vacuum_loop :: "'s Sqlite \<Rightarrow> 's \<Rightarrow> (SqliteError option \<times> 's) option" where
  "vacuum_loop Q s =
     (case sq_step Q s of
        (Inl e, s') \<Rightarrow> Some (Some e, s')
      | (Inr row, s') \<Rightarrow> if row then vacuum_loop Q s' else Some (None, s'))"

definition maintain_vacuum :: "'s Sqlite \<Rightarrow> 's \<Rightarrow> (DbError option \<times> 's) option" where
  "maintain_vacuum Q s =
     (case sq_prepare_vacuum Q s of
        (Some e, s) \<Rightarrow> Some (Some (With_Context ''preparing incremental vacuum'' (Sqlite_Failed e)), s)
      | (None, s) \<Rightarrow>
          map_option (\<lambda>(r, s). (map_option (With_Context ''incremental vacuum'' \<circ> Sqlite_Failed) r, s))
            (case sq_query_vacuum Q s of (Some e, s) \<Rightarrow> Some (Some e, s) | (None, s) \<Rightarrow> vacuum_loop Q s))"

text \<open>A failing checkpoint is only logged.\<close>

definition maintain :: "'s Sqlite \<Rightarrow> 's \<Rightarrow> (DbError option \<times> 's) option" where
  "maintain Q s =
     (case (if can_shrink Q s then maintain_vacuum Q s else Some (None, s)) of
        None \<Rightarrow> None
      | Some (Some e, s) \<Rightarrow> Some (Some e, s)
      | Some (None, s) \<Rightarrow> Some (None, snd (sq_exec Q Wal_Checkpoint_Truncate s)))"

section \<open>What SQLite documents\<close>

text \<open>A batch stops at the first statement that fails.\<close>

fun batch_semantics :: "'s Sqlite \<Rightarrow> Sql list \<Rightarrow> 's \<Rightarrow> SqliteError option \<times> 's" where
  "batch_semantics Q [] s = (None, s)"
| "batch_semantics Q (st # sts) s =
     (case sq_exec Q st s of (None, s') \<Rightarrow> batch_semantics Q sts s' | (Some e, s') \<Rightarrow> (Some e, s'))"

definition batch_ok :: "'s Sqlite \<Rightarrow> bool" where
  "batch_ok Q \<longleftrightarrow> sq_batch Q = batch_semantics Q"

text \<open>\<open>auto_vacuum\<close> takes effect at once while the file has no header, and otherwise at the next
  \<open>VACUUM\<close> of the connection; \<open>journal_mode = WAL\<close> writes a header; nothing but the creation of tables and
  indexes changes the schema, and none of the statements changes a row.\<close>

definition sqlite_ok :: "'s Sqlite \<Rightarrow> ('s \<Rightarrow> bool) \<Rightarrow> ('s \<Rightarrow> int) \<Rightarrow> ('s \<Rightarrow> 'r) \<Rightarrow> bool" where
  "sqlite_ok Q header wanted rows \<longleftrightarrow> batch_ok Q \<and>
     (\<forall>s s'. sq_exec Q Auto_Vacuum_Incremental s = (None, s') \<longrightarrow>
        wanted s' = 2 \<and> header s' = header s \<and>
        sq_pragma Q ''auto_vacuum'' s' = (if header s then sq_pragma Q ''auto_vacuum'' s else Some 2)) \<and>
     (\<forall>s s'. sq_exec Q Journal_Mode_Wal s = (None, s') \<longrightarrow> header s') \<and>
     (\<forall>s s'. sq_exec Q Vacuum s = (None, s') \<longrightarrow> sq_pragma Q ''auto_vacuum'' s' = Some (wanted s)) \<and>
     (\<forall>st s s'. st \<noteq> Auto_Vacuum_Incremental \<longrightarrow> st \<noteq> Vacuum \<longrightarrow> sq_exec Q st s = (None, s') \<longrightarrow>
        sq_pragma Q ''auto_vacuum'' s' = sq_pragma Q ''auto_vacuum'' s) \<and>
     (\<forall>d s. header (snd (sq_busy_timeout Q d s)) = header s \<and> rows (snd (sq_busy_timeout Q d s)) = rows s \<and>
        sq_pragma Q ''auto_vacuum'' (snd (sq_busy_timeout Q d s)) = sq_pragma Q ''auto_vacuum'' s) \<and>
     (\<forall>st s. rows (snd (sq_exec Q st s)) = rows s)"

text \<open>A step of the vacuum statement gives back one page, as long as a page is free and fewer than the
  2048 it was prepared for have been given back.\<close>

definition vacuum_ok :: "'s Sqlite \<Rightarrow> ('s \<Rightarrow> nat) \<Rightarrow> ('s \<Rightarrow> nat) \<Rightarrow> bool" where
  "vacuum_ok Q free left \<longleftrightarrow>
     (\<forall>s s'. sq_prepare_vacuum Q s = (None, s') \<longrightarrow> free s' = free s \<and> left s' = 2048) \<and>
     (\<forall>s s'. sq_query_vacuum Q s = (None, s') \<longrightarrow> free s' = free s \<and> left s' = left s) \<and>
     (\<forall>s s' row. sq_step Q s = (Inr row, s') \<longrightarrow> row = (0 < free s \<and> 0 < left s) \<and>
        free s' = free s - of_bool row \<and> left s' = left s - of_bool row) \<and>
     (\<forall>s. free (snd (sq_exec Q Wal_Checkpoint_Truncate s)) = free s)"

section \<open>Laws\<close>

lemma batch_eq: "sqlite_ok Q header wanted rows \<Longrightarrow> sq_batch Q = batch_semantics Q"
  by (simp add: sqlite_ok_def batch_ok_def)

lemma batch_keeps:
  assumes "sqlite_ok Q header wanted rows"
  shows "batch_semantics Q sts s = (None, s') \<Longrightarrow> Auto_Vacuum_Incremental \<notin> set sts \<Longrightarrow> Vacuum \<notin> set sts \<Longrightarrow>
    sq_pragma Q ''auto_vacuum'' s' = sq_pragma Q ''auto_vacuum'' s"
proof (induction sts arbitrary: s)
  case (Cons st sts)
  have "\<forall>s s'. sq_exec Q st s = (None, s') \<longrightarrow> sq_pragma Q ''auto_vacuum'' s' = sq_pragma Q ''auto_vacuum'' s"
    using assms Cons.prems(2,3) unfolding sqlite_ok_def by (metis list.set_intros(1))
  then show ?case using Cons by (force split: prod.splits option.splits)
qed simp

lemma batch_rows:
  assumes "sqlite_ok Q header wanted rows"
  shows "rows (snd (batch_semantics Q sts s)) = rows s"
proof (induction sts arbitrary: s)
  case (Cons st sts)
  have "rows (snd (sq_exec Q st s)) = rows s" using assms unfolding sqlite_ok_def by blast
  then show ?case using Cons by (auto split: prod.splits option.splits)
qed simp

lemma vacuum_loop_ends:
  assumes "vacuum_ok Q free left"
  shows "\<exists>r s'. vacuum_loop Q s = Some (r, s') \<and> (r = None \<longrightarrow> free s' = free s - left s)"
proof (induction "left s" arbitrary: s rule: less_induct)
  case less
  obtain r s' where step: "sq_step Q s = (r, s')" by fastforce
  show ?case
  proof (cases r)
    case (Inr row)
    then have k: "row = (0 < free s \<and> 0 < left s)" "free s' = free s - of_bool row" "left s' = left s - of_bool row"
      using assms step unfolding vacuum_ok_def by blast+
    show ?thesis
    proof (cases row)
      case True
      then obtain r2 s2 where "vacuum_loop Q s' = Some (r2, s2)" "r2 = None \<longrightarrow> free s2 = free s' - left s'"
        using less [of s'] k by auto
      then show ?thesis using step Inr True k by (subst vacuum_loop.simps) auto
    qed (use step Inr k in \<open>subst vacuum_loop.simps; auto\<close>)
  qed (use step in \<open>subst vacuum_loop.simps; simp\<close>)
qed

lemma vacuum_loop_no_error:
  assumes "vacuum_loop Q s = Some r" "\<And>s. \<not> isl (fst (sq_step Q s))"
  shows "fst r = None"
proof -
  have "(\<forall>s. \<not> isl (fst (sq_step Q s))) \<longrightarrow> fst r = None"
  proof (rule vacuum_loop.raw_induct [where P = "\<lambda>Q s r. (\<forall>s. \<not> isl (fst (sq_step Q s))) \<longrightarrow> fst r = None", OF _ assms(1)], intro impI)
    fix loop and Q :: "'a Sqlite" and s r
    assume ih: "\<And>Q s r. loop Q s = Some r \<Longrightarrow> (\<forall>s. \<not> isl (fst (sq_step Q s))) \<longrightarrow> fst r = None"
      and run: "(case sq_step Q s of (Inl e, s') \<Rightarrow> Some (Some e, s')
        | (Inr row, s') \<Rightarrow> if row then loop Q s' else Some (None, s')) = Some r"
      and ok: "\<forall>s. \<not> isl (fst (sq_step Q s))"
    obtain y s1 where y: "sq_step Q s = (Inr y, s1)"
      using ok [rule_format, of s] by (cases "sq_step Q s"; cases "fst (sq_step Q s)") auto
    show "fst r = None" using ih [of Q s1 r] run ok by (cases y) (auto simp: y)
  qed
  then show ?thesis using assms(2) by simp
qed

section \<open>Properties\<close>

text \<open>
  A database netwatch creates can shrink, and opening an old one changes nothing about it: when
  \<open>open\<close> succeeds, incremental vacuum is available exactly if the file was new (had no header) or had it
  before. The statements of the schema are in the order this needs.
\<close>

lemma open_enables_shrinking:
  assumes "sqlite_ok Q header wanted rows" "sq_open Q path = Inr s0" "open_db Q dir path = Inr s"
  shows "can_shrink Q s \<longleftrightarrow> \<not> header s0 \<or> can_shrink Q s0"
proof -
  obtain s2 where s2: "batch_semantics Q SCHEMA s0 = (None, s2)" "sq_busy_timeout Q (from_secs 5) s2 = (None, s)"
    using assms(2,3) batch_eq [OF assms(1)] by (auto simp: open_db_def split: if_splits prod.splits option.splits)
  then obtain s1 where s1: "sq_exec Q Auto_Vacuum_Incremental s0 = (None, s1)" "batch_semantics Q (tl SCHEMA) s1 = (None, s2)"
    by (auto simp: SCHEMA_def split: prod.splits option.splits)
  have "sq_pragma Q ''auto_vacuum'' s1 = (if header s0 then sq_pragma Q ''auto_vacuum'' s0 else Some 2)"
    using assms(1) s1(1) unfolding sqlite_ok_def by blast
  moreover have "sq_pragma Q ''auto_vacuum'' s2 = sq_pragma Q ''auto_vacuum'' s1"
    using batch_keeps [OF assms(1) s1(2)] by (simp add: SCHEMA_def)
  moreover have "sq_pragma Q ''auto_vacuum'' s = sq_pragma Q ''auto_vacuum'' s2"
    using assms(1) s2(2) unfolding sqlite_ok_def by (metis snd_conv)
  ultimately show ?thesis by (simp add: can_shrink_def incremental_vacuum_available_def)
qed

lemma busy_step_ok:
  "batch_ok Q \<Longrightarrow> busy_step Q what st s = (None, s') \<longleftrightarrow> sq_exec Q st s = (None, s')"
  by (auto simp: busy_step_def busy_aware_def batch_ok_def split: prod.splits option.splits if_splits)

lemma busy_step_rows:
  "sqlite_ok Q header wanted rows \<Longrightarrow> busy_step Q what st s = (r, s') \<Longrightarrow> rows s' = rows s"
  using batch_rows [of Q header wanted rows "[st]" s] batch_eq [of Q header wanted rows] by (auto simp: busy_step_def split: prod.splits)

text \<open>
  \<open>--rebuild-db\<close> does what it says: whatever fails on the way, no row is changed; when it reports
  success the file can shrink from then on; and it never ends with the puzzling report that the rebuild
  went through without effect.
\<close>

lemma rebuild_sound:
  assumes ok: "sqlite_ok Q header wanted rows" and s0: "sq_open Q path = Inr s0"
    and run: "rebuild_database Q before after path = (r, t)"
  shows "(\<exists>s. t = Some s \<and> rows s = rows s0 \<and> (\<forall>sizes. r = Inr sizes \<longrightarrow> can_shrink Q s)) \<and>
    r \<noteq> Inl Still_Not_Incremental"
proof -
  have b: "batch_ok Q" and timeout: "rows (snd (sq_busy_timeout Q d s)) = rows s" for d s
    using ok unfolding sqlite_ok_def by blast+
  obtain b1 s1 where t1: "sq_busy_timeout Q (from_secs 2) s0 = (b1, s1)" by fastforce
  obtain b2 s2 where t2: "busy_step Q ''setting auto_vacuum'' Auto_Vacuum_Incremental s1 = (b2, s2)" by fastforce
  obtain b3 s3 where t3: "busy_step Q ''rebuilding the database'' Vacuum s2 = (b3, s3)" by fastforce
  obtain b4 s4 where t4: "batch_semantics Q [Wal_Checkpoint_Truncate] s3 = (b4, s4)" by fastforce
  have rows: "rows s1 = rows s0" "rows s2 = rows s0" "rows s3 = rows s0" "rows s4 = rows s0"
    using timeout [of "from_secs 2" s0] t1 busy_step_rows [OF ok t2] busy_step_rows [OF ok t3]
      batch_rows [OF ok, of "[Wal_Checkpoint_Truncate]" s3] t4 by simp_all
  have shrink: "can_shrink Q s4" if "b2 = None" "b3 = None" "b4 = None"
  proof -
    have "wanted s2 = 2" "sq_pragma Q ''auto_vacuum'' s3 = Some (wanted s2)"
      using ok t2 t3 unfolding that busy_step_ok [OF b] sqlite_ok_def by blast+
    then show ?thesis
      using batch_keeps [OF ok, of "[Wal_Checkpoint_Truncate]"] t4 that
      by (simp add: can_shrink_def incremental_vacuum_available_def)
  qed
  have "b2 \<noteq> Some Still_Not_Incremental" "b3 \<noteq> Some Still_Not_Incremental"
    using t2 t3 by (auto simp: busy_step_def split: prod.splits)
  then show ?thesis
    using run s0 rows shrink unfolding rebuild_database_def
    by (auto simp: t1 t2 t3 t4 batch_eq [OF ok] simp del: batch_semantics.simps split: option.splits if_splits)
qed

definition refuses_lock :: "SqliteError \<Rightarrow> bool" where
  "refuses_lock e \<longleftrightarrow> sqlite_error_code e \<in> {Some DatabaseBusy, Some DatabaseLocked}"

text \<open>
  When SQLite reports a lock, on setting the mode or on the rebuild itself, the operator is told that
  another process uses the database, and not that it is locked.
\<close>

lemma rebuild_reports_lock:
  assumes "sq_open Q path = Inr s0" "sq_busy_timeout Q (from_secs 2) s0 = (None, s1)" "refuses_lock e" "batch_ok Q"
  shows "sq_exec Q Auto_Vacuum_Incremental s1 = (Some e, s2) \<Longrightarrow>
      rebuild_database Q before after path = (Inl (With_Context ''setting auto_vacuum'' In_Use_By_Another_Process), Some s2)"
    and "sq_exec Q Auto_Vacuum_Incremental s1 = (None, s2) \<Longrightarrow> sq_exec Q Vacuum s2 = (Some e, s3) \<Longrightarrow>
      rebuild_database Q before after path = (Inl (With_Context ''rebuilding the database'' In_Use_By_Another_Process), Some s3)"
proof -
  have "busy_aware (Some e) = Some In_Use_By_Another_Process" "busy_aware None = None"
    using assms(3) by (auto simp: busy_aware_def refuses_lock_def)
  then show "sq_exec Q Auto_Vacuum_Incremental s1 = (Some e, s2) \<Longrightarrow>
      rebuild_database Q before after path = (Inl (With_Context ''setting auto_vacuum'' In_Use_By_Another_Process), Some s2)"
    and "sq_exec Q Auto_Vacuum_Incremental s1 = (None, s2) \<Longrightarrow> sq_exec Q Vacuum s2 = (Some e, s3) \<Longrightarrow>
      rebuild_database Q before after path = (Inl (With_Context ''rebuilding the database'' In_Use_By_Another_Process), Some s3)"
    using assms(1,2,4) by (simp_all add: rebuild_database_def busy_step_def batch_ok_def)
qed

text \<open>
  C31. The maintenance pass ends: stepping the vacuum statement until it has no more rows always comes to
  an end, and a pass without an error gives back every free page, up to 2048, if the file can shrink at all,
  and otherwise none.
\<close>

theorem maintain_terminates:
  assumes "vacuum_ok Q free left"
  shows "\<exists>r s'. maintain Q s = Some (r, s') \<and>
    (r = None \<longrightarrow> free s' = (if can_shrink Q s then free s - 2048 else free s)) \<and>
    (\<not> can_shrink Q s \<longrightarrow> r = None)"
proof -
  have checkpoint: "free (snd (sq_exec Q Wal_Checkpoint_Truncate s)) = free s" for s
    using assms unfolding vacuum_ok_def by blast
  have "\<exists>r s'. maintain_vacuum Q s = Some (r, s') \<and> (r = None \<longrightarrow> free s' = free s - 2048)"
  proof (cases "\<exists>s1. sq_prepare_vacuum Q s = (None, s1)")
    case True
    then obtain s1 where s1: "sq_prepare_vacuum Q s = (None, s1)" "free s1 = free s" "left s1 = 2048"
      using assms unfolding vacuum_ok_def by blast
    show ?thesis
    proof (cases "\<exists>s2. sq_query_vacuum Q s1 = (None, s2)")
      case True
      then obtain s2 where s2: "sq_query_vacuum Q s1 = (None, s2)" "free s2 = free s1" "left s2 = left s1"
        using assms unfolding vacuum_ok_def by blast
      then show ?thesis using s1 vacuum_loop_ends [OF assms, of s2] by (auto simp: maintain_vacuum_def)
    qed (use s1 in \<open>auto simp: maintain_vacuum_def split: prod.splits option.splits\<close>)
  qed (auto simp: maintain_vacuum_def split: prod.splits option.splits)
  then show ?thesis using checkpoint by (auto simp: maintain_def split: option.splits)
qed

section \<open>A file\<close>

text \<open>A file reduced to what the properties speak of, with the documented behaviour.\<close>

record DemoFile =
  df_header :: bool
  df_mode :: int
  df_wanted :: int
  df_free :: nat
  df_left :: nat
  df_rows :: nat

fun demo_exec :: "Sql \<Rightarrow> DemoFile \<Rightarrow> SqliteError option \<times> DemoFile" where
  "demo_exec Auto_Vacuum_Incremental s = (None, s\<lparr>df_wanted := 2, df_mode := (if df_header s then df_mode s else 2)\<rparr>)"
| "demo_exec Vacuum s = (None, s\<lparr>df_mode := df_wanted s, df_free := 0\<rparr>)"
| "demo_exec Wal_Checkpoint_Truncate s = (None, s)"
| "demo_exec _ s = (None, s\<lparr>df_header := True\<rparr>)"

definition demo_batch :: "Sql list \<Rightarrow> DemoFile \<Rightarrow> SqliteError option \<times> DemoFile" where
  "demo_batch sts s = (None, fold (\<lambda>st s. snd (demo_exec st s)) sts s)"

definition demo_sqlite :: "DemoFile \<Rightarrow> DemoFile Sqlite" where
  "demo_sqlite s0 = \<lparr>sq_open = (\<lambda>_. Inr s0), sq_busy_timeout = (\<lambda>_ s. (None, s)), sq_exec = demo_exec, sq_batch = demo_batch,
     sq_pragma = (\<lambda>_ s. Some (df_mode s)),
     sq_prepare_vacuum = (\<lambda>s. (None, s\<lparr>df_left := 2048\<rparr>)), sq_query_vacuum = (\<lambda>s. (None, s)),
     sq_step = (\<lambda>s. if 0 < df_free s \<and> 0 < df_left s
       then (Inr True, s\<lparr>df_free := df_free s - 1, df_left := df_left s - 1\<rparr>) else (Inr False, s))\<rparr>"

definition demo_file :: "bool \<Rightarrow> DemoFile" where
  "demo_file header = \<lparr>df_header = header, df_mode = 0, df_wanted = 0, df_free = 3, df_left = 0, df_rows = 7\<rparr>"

lemma demo_sqlite_calls [simp]:
  "sq_open (demo_sqlite s0) p = Inr s0" "sq_busy_timeout (demo_sqlite s0) d s = (None, s)"
  "sq_exec (demo_sqlite s0) = demo_exec" "sq_batch (demo_sqlite s0) = demo_batch" "sq_pragma (demo_sqlite s0) n s = Some (df_mode s)"
  "sq_prepare_vacuum (demo_sqlite s0) s = (None, s\<lparr>df_left := 2048\<rparr>)" "sq_query_vacuum (demo_sqlite s0) s = (None, s)"
  "sq_step (demo_sqlite s0) s = (if 0 < df_free s \<and> 0 < df_left s
     then (Inr True, s\<lparr>df_free := df_free s - 1, df_left := df_left s - 1\<rparr>) else (Inr False, s))"
  by (simp_all add: demo_sqlite_def)

lemma demo_sqlite_ok: "sqlite_ok (demo_sqlite s0) df_header df_wanted df_rows"
proof -
  have "df_rows (snd (demo_exec st s)) = df_rows s" for st s by (cases st) simp_all
  moreover have "st \<noteq> Auto_Vacuum_Incremental \<Longrightarrow> st \<noteq> Vacuum \<Longrightarrow> demo_exec st s = (None, s') \<Longrightarrow> df_mode s' = df_mode s" for st s s'
    by (cases st) auto
  moreover have "batch_ok (demo_sqlite s0)"
  proof -
    have ok: "demo_exec st s = (None, snd (demo_exec st s))" for st s by (cases st) simp_all
    have "demo_batch sts s = batch_semantics (demo_sqlite s0) sts s" for sts s
    proof (induction sts arbitrary: s)
      case (Cons st sts)
      then show ?case using ok [of st s] by (simp add: demo_batch_def split: prod.splits) (metis option.simps(4) prod.inject)
    qed (simp add: demo_batch_def)
    then show ?thesis by (simp add: batch_ok_def fun_eq_iff)
  qed
  ultimately show ?thesis by (auto simp: sqlite_ok_def)
qed

lemma demo_vacuum_ok: "vacuum_ok (demo_sqlite s0) df_free df_left"
  by (auto simp: vacuum_ok_def split: if_splits)

lemma open_enables_shrinking_witness:
  "\<exists>s. open_db (demo_sqlite (demo_file False)) True ''db'' = Inr s \<and> can_shrink (demo_sqlite (demo_file False)) s"
proof -
  let ?Q = "demo_sqlite (demo_file False)"
  obtain s where "open_db ?Q True ''db'' = Inr s" by (simp add: open_db_def SCHEMA_def demo_batch_def)
  then show ?thesis
    using open_enables_shrinking [OF demo_sqlite_ok, of "demo_file False" "''db''" "demo_file False" True s]
    by (simp add: demo_file_def)
qed

lemma rebuild_sound_witness:
  "\<exists>s. rebuild_database (demo_sqlite (demo_file True)) (Some 9) (Some 4) ''db'' = (Inr (9, 4), Some s) \<and>
     df_rows s = 7 \<and> can_shrink (demo_sqlite (demo_file True)) s"
proof -
  let ?Q = "demo_sqlite (demo_file True)"
  obtain s where s: "rebuild_database ?Q (Some 9) (Some 4) ''db'' = (Inr (9, 4), Some s)"
    by (simp add: rebuild_database_def busy_step_def busy_aware_def demo_batch_def demo_file_def can_shrink_def
        incremental_vacuum_available_def)
  have "sq_open ?Q ''db'' = Inr (demo_file True)" by simp
  from rebuild_sound [OF demo_sqlite_ok this s] show ?thesis using s by (simp add: demo_file_def)
qed

theorem maintain_terminates_witness:
  "\<exists>s. maintain (demo_sqlite (demo_file False)) ((demo_file False)\<lparr>df_mode := 2, df_free := 5000\<rparr>) = Some (None, s) \<and> df_free s = 2952"
proof -
  let ?Q = "demo_sqlite (demo_file False)" and ?s = "(demo_file False)\<lparr>df_mode := 2, df_free := 5000\<rparr>"
  obtain r s where m: "maintain ?Q ?s = Some (r, s)" "r = None \<longrightarrow> df_free s = (if can_shrink ?Q ?s then df_free ?s - 2048 else df_free ?s)"
    using maintain_terminates [OF demo_vacuum_ok, of "demo_file False" ?s] by blast
  have c: "can_shrink ?Q ?s" by (simp add: can_shrink_def incremental_vacuum_available_def)
  have "fst x = None" if "vacuum_loop ?Q s1 = Some x" for s1 x
    by (rule vacuum_loop_no_error [OF that]) simp
  then have "r = None" using m(1) c
    by (fastforce simp: maintain_def maintain_vacuum_def split: option.splits)
  then show ?thesis using m c by simp
qed

end
