(* ===== verification/Tcp_Server.thy ===== *)
theory Tcp_Server
  imports Dns_Server
begin

text \<open>
  The TCP server of \<open>src/dns/mod.rs\<close> (\<open>serve_tcp\<close>) as a step relation: connections are accepted, their bytes
  arrive and their answers are written in pieces, their requests wait for upstreams, and any of them may
  end at any moment (end of stream, write error, the thirty-second limit), in every interleaving.
  \<open>Dns_Server.tcp_session\<close> is what one connection does when nothing gets in between. Shown: the bound on
  connections, that only admitted peers are served, that what is written on a connection is complete
  frames, but for the last when the connection ends while it is written, and that connections never stay
  for ever.
\<close>

section \<open>The server\<close>

text \<open>A connection: what has arrived and not been read, the request that waits for an upstream, what
  has been written, and what of the current answer \<open>write_all\<close> has still to write. The server keeps, of a connection that ended, what was written on it.\<close>

record TcpConn =
  tc_peer :: SocketAddr
  tc_input :: "u8 list"
  tc_pending :: "(u8 list \<times> Pending_Request) option"
  tc_output :: "u8 list"
  tc_writing :: "u8 list"

record TcpServer =
  ts_resolver :: Resolver
  ts_conns :: "TcpConn list"
  ts_ended :: "(SocketAddr \<times> u8 list) list"

definition tcp_server_new :: "Resolver \<Rightarrow> TcpServer" where
  "tcp_server_new r = \<lparr>ts_resolver = r, ts_conns = [], ts_ended = []\<rparr>"

definition tcp_open :: "SocketAddr \<Rightarrow> TcpServer \<Rightarrow> TcpServer" where
  "tcp_open peer s =
     (case tcp_accept peer (length (ts_conns s)) (ts_resolver s) of
        (r, ok) \<Rightarrow>
          if ok
          then s\<lparr>ts_resolver := r, ts_conns := ts_conns s @ [\<lparr>tc_peer = peer, tc_input = [], tc_pending = None, tc_output = [], tc_writing = []\<rparr>]\<rparr>
          else s\<lparr>ts_resolver := r\<rparr>)"

definition tcp_close :: "nat \<Rightarrow> TcpServer \<Rightarrow> TcpServer" where
  "tcp_close i s =
     (let c = ts_conns s ! i
      in s\<lparr>ts_conns := drop_nth i (ts_conns s), ts_ended := ts_ended s @ [(tc_peer c, tc_output c)]\<rparr>)"

definition tcp_arrive :: "nat \<Rightarrow> u8 list \<Rightarrow> TcpServer \<Rightarrow> TcpServer" where
  "tcp_arrive i bytes s =
     (let c = ts_conns s ! i in s\<lparr>ts_conns := (ts_conns s)[i := c\<lparr>tc_input := tc_input c @ bytes\<rparr>]\<rparr>)"

text \<open>The two reads at the head of the session's loop, once enough has arrived.\<close>

datatype Frame = Incomplete | Bad_Frame | Frame "u8 list" "u8 list"

fun next_frame :: "u8 list \<Rightarrow> Frame" where
  "next_frame (a # b # rest) =
     (let len = u16_be a b in
      if len = 0 \<or> 65535 < len then Bad_Frame
      else case read_exact len rest of None \<Rightarrow> Incomplete | Some (request, rest) \<Rightarrow> Frame request rest)"
| "next_frame _ = Incomplete"

text \<open>The end of one request: the length and the answer, two writes one after the other, are to be written,
  which takes as many pieces as the peer makes it take.\<close>

definition tcp_respond :: "nat \<Rightarrow> Resolver \<times> u8 list option \<Rightarrow> TcpServer \<Rightarrow> TcpServer" where
  "tcp_respond i res s =
     (let c = ts_conns s ! i in
      case res of
        (r, None) \<Rightarrow> tcp_close i (s\<lparr>ts_resolver := r\<rparr>)
      | (r, Some response) \<Rightarrow>
          if 65535 < length response then tcp_close i (s\<lparr>ts_resolver := r\<rparr>)
          else s\<lparr>ts_resolver := r,
                 ts_conns := (ts_conns s)[i := c\<lparr>tc_pending := None, tc_writing := to_be_bytes (length response) @ response\<rparr>]\<rparr>)"

definition tcp_write :: "nat \<Rightarrow> nat \<Rightarrow> TcpServer \<Rightarrow> TcpServer" where
  "tcp_write i k s =
     (let c = ts_conns s ! i
      in s\<lparr>ts_conns := (ts_conns s)[i := c\<lparr>tc_output := tc_output c @ take k (tc_writing c), tc_writing := drop k (tc_writing c)\<rparr>]\<rparr>)"

definition tcp_begin :: "Env \<Rightarrow> nat \<Rightarrow> TcpServer \<Rightarrow> TcpServer" where
  "tcp_begin E i s =
     (let c = ts_conns s ! i in
      case next_frame (tc_input c) of
        Incomplete \<Rightarrow> s
      | Bad_Frame \<Rightarrow> tcp_close i s
      | Frame request rest \<Rightarrow>
          let s = s\<lparr>ts_conns := (ts_conns s)[i := c\<lparr>tc_input := rest\<rparr>]\<rparr>
          in case handle_local E request (sa_ip (tc_peer c)) (ts_resolver s) of
               (r, Answered out) \<Rightarrow> tcp_respond i (r, out) s
             | (r, Suspended p) \<Rightarrow>
                 s\<lparr>ts_resolver := r,
                   ts_conns := (ts_conns s)[i := c\<lparr>tc_input := rest, tc_pending := Some (request, p)\<rparr>]\<rparr>)"

text \<open>The next request of a connection begins when the answer to the last has been written.\<close>

inductive tcp_step :: "TcpServer \<Rightarrow> TcpServer \<Rightarrow> bool" where
  tcp_step_open: "tcp_step s (tcp_open peer s)"
| tcp_step_arrive: "i < length (ts_conns s) \<Longrightarrow> tcp_step s (tcp_arrive i bytes s)"
| tcp_step_begin: "i < length (ts_conns s) \<Longrightarrow> tc_pending (ts_conns s ! i) = None \<Longrightarrow> tc_writing (ts_conns s ! i) = [] \<Longrightarrow>
    tcp_step s (tcp_begin E i s)"
| tcp_step_reply: "i < length (ts_conns s) \<Longrightarrow> ts_conns s ! i = c \<Longrightarrow> tc_pending c = Some (request, p) \<Longrightarrow>
    tcp_step s (tcp_respond i
      (handle_reply E (sa_ip (tc_peer c)) p (forward (e_proto E) net (ts_resolver s) request (pr_msg p)) (ts_resolver s)) s)"
| tcp_step_timeout: "i < length (ts_conns s) \<Longrightarrow> ts_conns s ! i = c \<Longrightarrow> tc_pending c = Some (request, p) \<Longrightarrow>
    tcp_step s (tcp_respond i (handle_timeout E request (ts_resolver s)) s)"
| tcp_step_write: "i < length (ts_conns s) \<Longrightarrow> tcp_step s (tcp_write i k s)"
| tcp_step_close: "i < length (ts_conns s) \<Longrightarrow> tcp_step s (tcp_close i s)"
| tcp_step_shared: "rs_cfg r = rs_cfg (ts_resolver s) \<Longrightarrow> rs_acl r = rs_acl (ts_resolver s) \<Longrightarrow>
    tcp_step s (s\<lparr>ts_resolver := r\<rparr>)"

section \<open>The invariant\<close>

text \<open>A stream of complete frames, and one that may break off within the last.\<close>

definition whole_frames :: "u8 list \<Rightarrow> bool" where
  "whole_frames out \<longleftrightarrow> (\<exists>bs. list_all (\<lambda>b. length b \<le> 65535) bs \<and> out = concat (map frame bs))"

definition broken_off :: "u8 list \<Rightarrow> bool" where
  "broken_off out \<longleftrightarrow> (\<exists>pre b k. whole_frames pre \<and> length b \<le> 65535 \<and> out = pre @ take k (frame b))"

lemma whole_frames_simps [simp]:
  "whole_frames []" "length b \<le> 65535 \<Longrightarrow> whole_frames out \<Longrightarrow> whole_frames (out @ to_be_bytes (length b) @ b)"
proof -
  show "whole_frames []" by (auto simp: whole_frames_def intro: exI [of _ "[]"])
  assume b: "length b \<le> 65535" and "whole_frames out"
  then obtain bs where "list_all (\<lambda>b. length b \<le> 65535) bs" "out = concat (map frame bs)" by (auto simp: whole_frames_def)
  with b show "whole_frames (out @ to_be_bytes (length b) @ b)"
    unfolding whole_frames_def by (intro exI [of _ "bs @ [b]"]) (simp add: frame_def)
qed

text \<open>Whatever of a stream of frames has been written breaks off in one of them.\<close>

lemma broken_off_prefix: "whole_frames (a @ b) \<Longrightarrow> broken_off a"
proof -
  have frames: "\<exists>pre x k. whole_frames pre \<and> length x \<le> 65535 \<and> a = pre @ take k (frame x)"
    if "list_all (\<lambda>b. length b \<le> 65535) bs" "a @ b = concat (map frame bs)" for bs
    using that
  proof (induction bs arbitrary: a)
    case Nil
    then show ?case by (intro exI [of _ "[]"] exI [of _ 0]) simp
  next
    case (Cons x xs)
    show ?case
    proof (cases "length a \<le> length (frame x)")
      case True
      then have "a = take (length a) (frame x)" using Cons.prems(2) by (metis append_eq_conv_conj concat.simps(2) list.map(2) take_append take_all diff_is_0_eq take_0 append_Nil2)
      then show ?thesis using Cons.prems(1) by (intro exI [of _ "[]"] exI [of _ x] exI [of _ "length a"]) simp
    next
      case False
      then obtain a' where a': "a = frame x @ a'" "a' @ b = concat (map frame xs)"
        using Cons.prems(2) by (auto simp: append_eq_append_conv2 dest: arg_cong [of _ _ length])
      obtain pre y k where "whole_frames pre" "length y \<le> 65535" "a' = pre @ take k (frame y)"
        using Cons.IH [OF _ a'(2)] Cons.prems(1) by auto
      moreover have "whole_frames (frame x @ pre)"
        using \<open>whole_frames pre\<close> Cons.prems(1) unfolding whole_frames_def
        by (elim exE) (auto intro: exI [of _ "x # bs" for bs])
      ultimately show ?thesis using a'(1) by (metis append.assoc)
    qed
  qed
  assume "whole_frames (a @ b)"
  then show "broken_off a" unfolding broken_off_def whole_frames_def [of "a @ b"] using frames by blast
qed

definition conn_ok :: "Resolver \<Rightarrow> TcpConn \<Rightarrow> bool" where
  "conn_ok r0 c \<longleftrightarrow> acl_allows (rs_acl r0) (sa_ip (tc_peer c)) \<and> whole_frames (tc_output c @ tc_writing c) \<and>
     (tc_pending c = None \<or> tc_writing c = [])"

definition tcp_inv :: "Resolver \<Rightarrow> TcpServer \<Rightarrow> bool" where
  "tcp_inv r0 s \<longleftrightarrow> rs_cfg (ts_resolver s) = rs_cfg r0 \<and> rs_acl (ts_resolver s) = rs_acl r0
     \<and> length (ts_conns s) \<le> max_tcp_connections (rs_cfg r0)
     \<and> list_all (conn_ok r0) (ts_conns s)
     \<and> list_all (\<lambda>(peer, out). acl_allows (rs_acl r0) (sa_ip peer) \<and> broken_off out) (ts_ended s)"

lemma tcp_open_inv: "tcp_inv r0 s \<Longrightarrow> tcp_inv r0 (tcp_open peer s)"
  by (auto simp: tcp_inv_def conn_ok_def tcp_open_def tcp_accept_def allows_def note_tcp_rejection_def count_stat_def)

lemma conn_at: "tcp_inv r0 s \<Longrightarrow> i < length (ts_conns s) \<Longrightarrow> conn_ok r0 (ts_conns s ! i)"
  by (simp add: tcp_inv_def list_all_length)

lemma tcp_end_inv:
  assumes "tcp_inv r0 s" "i < length (ts_conns s)"
  shows "tcp_inv r0 (tcp_close i s)"
    and "rs_cfg r = rs_cfg r0 \<Longrightarrow> rs_acl r = rs_acl r0 \<Longrightarrow> tcp_inv r0 (tcp_close i (s\<lparr>ts_resolver := r\<rparr>))"
  using assms conn_at [OF assms] set_drop_nth [of i "ts_conns s"]
  by (auto simp: tcp_inv_def tcp_close_def conn_ok_def length_drop_nth list_all_iff Let_def intro: broken_off_prefix)

text \<open>Replacing a connection by a lawful one, and the resolver by one with the same policy.\<close>

lemma tcp_update_inv:
  assumes "tcp_inv r0 s" "i < length (ts_conns s)" "conn_ok r0 c" "rs_cfg r = rs_cfg r0" "rs_acl r = rs_acl r0"
  shows "tcp_inv r0 (s\<lparr>ts_resolver := r, ts_conns := (ts_conns s)[i := c]\<rparr>)"
  using assms by (auto simp: tcp_inv_def list_all_length nth_list_update)

lemma tcp_update_conn_inv:
  assumes "tcp_inv r0 s" "i < length (ts_conns s)" "conn_ok r0 c"
  shows "tcp_inv r0 (s\<lparr>ts_conns := (ts_conns s)[i := c]\<rparr>)"
  using tcp_update_inv [OF assms, of "ts_resolver s"] assms(1) by (simp add: tcp_inv_def)

lemma tcp_respond_inv:
  assumes "tcp_inv r0 s" "i < length (ts_conns s)" "tc_writing (ts_conns s ! i) = []"
    and "rs_cfg (fst res) = rs_cfg r0" "rs_acl (fst res) = rs_acl r0"
  shows "tcp_inv r0 (tcp_respond i res s)"
proof -
  obtain r out where res: "res = (r, out)" by fastforce
  have r: "rs_cfg r = rs_cfg r0" "rs_acl r = rs_acl r0" using assms(4,5) by (simp_all add: res)
  have "conn_ok r0 ((ts_conns s ! i)\<lparr>tc_pending := None, tc_writing := to_be_bytes (length b) @ b\<rparr>)" if "length b \<le> 65535" for b
    using conn_at [OF assms(1,2)] assms(3) that by (simp add: conn_ok_def)
  from tcp_update_inv [OF assms(1,2) this r] show ?thesis
    using tcp_end_inv(2) [OF assms(1,2) r] by (auto simp: res tcp_respond_def Let_def split: option.splits)
qed

lemma tcp_begin_inv:
  assumes "tcp_inv r0 s" "i < length (ts_conns s)" "tc_pending (ts_conns s ! i) = None" "tc_writing (ts_conns s ! i) = []"
  shows "tcp_inv r0 (tcp_begin E i s)"
proof (cases "next_frame (tc_input (ts_conns s ! i))")
  case (Frame request rest)
  let ?c = "ts_conns s ! i"
  let ?s = "s\<lparr>ts_conns := (ts_conns s)[i := ?c\<lparr>tc_input := rest\<rparr>]\<rparr>"
  obtain r oc where l: "handle_local E request (sa_ip (tc_peer ?c)) (ts_resolver s) = (r, oc)" by fastforce
  have r: "rs_cfg r = rs_cfg r0" "rs_acl r = rs_acl r0"
    using handle_local_fields [of E request "sa_ip (tc_peer ?c)" "ts_resolver s"] assms(1) by (auto simp: l tcp_inv_def)
  have ok: "conn_ok r0 (?c\<lparr>tc_input := rest\<rparr>)" "conn_ok r0 (?c\<lparr>tc_input := rest, tc_pending := x\<rparr>)" for x
    using conn_at [OF assms(1,2)] assms(3,4) by (simp_all add: conn_ok_def)
  note s = tcp_update_conn_inv [OF assms(1,2) ok(1)]
  show ?thesis
  proof (cases oc)
    case (Answered out)
    then show ?thesis using tcp_respond_inv [OF s, of i "(r, out)"] r assms(2,4) by (simp add: tcp_begin_def Frame l)
  next
    case (Suspended p)
    then show ?thesis using tcp_update_inv [OF s _ ok(2) r, of i] assms(2) by (simp add: tcp_begin_def Frame l)
  qed
qed (use assms in \<open>simp_all add: tcp_begin_def tcp_end_inv\<close>)

lemma tcp_step_inv: "tcp_step s s' \<Longrightarrow> tcp_inv r0 s \<Longrightarrow> tcp_inv r0 s'"
proof (induction rule: tcp_step.induct)
  case (tcp_step_arrive i s bytes)
  then show ?case
    using tcp_update_conn_inv [OF tcp_step_arrive(2,1)] conn_at [OF tcp_step_arrive(2,1)] by (simp add: tcp_arrive_def conn_ok_def Let_def)
next
  case (tcp_step_reply i s c request p E net)
  then have "tc_writing (ts_conns s ! i) = []" using conn_at [of r0 s i] by (simp add: conn_ok_def)
  then show ?case using tcp_step_reply by (intro tcp_respond_inv) (simp_all add: handle_fields tcp_inv_def)
next
  case (tcp_step_timeout i s c request p E)
  then have "tc_writing (ts_conns s ! i) = []" using conn_at [of r0 s i] by (simp add: conn_ok_def)
  then show ?case using tcp_step_timeout by (intro tcp_respond_inv) (simp_all add: handle_fields tcp_inv_def)
next
  case (tcp_step_write i s k)
  then show ?case
    using tcp_update_conn_inv [OF tcp_step_write(2,1)] conn_at [OF tcp_step_write(2,1)] by (auto simp: tcp_write_def conn_ok_def Let_def)
next
  case (tcp_step_shared r s)
  then show ?case by (simp add: tcp_inv_def)
qed (simp_all add: tcp_open_inv tcp_begin_inv tcp_end_inv)

interpretation tcp_reach: reachable_invariant "tcp_server_new r0" tcp_step "tcp_inv r0" for r0
  by unfold_locales (simp add: tcp_inv_def tcp_server_new_def, rule tcp_step_inv)

interpretation tcp_drain: draining tcp_step "\<lambda>s. length (ts_conns s)"
proof
  fix s :: TcpServer
  assume "0 < length (ts_conns s)"
  then show "\<exists>s'. tcp_step s s' \<and> length (ts_conns s') < length (ts_conns s)"
    using tcp_step_close [of 0 s] by (intro exI [of _ "tcp_close 0 s"]) (simp add: tcp_close_def length_drop_nth Let_def)
qed

section \<open>Properties\<close>

text \<open>
  C19. The TCP server in every reachable state, under any interleaving of its connections and of the other
  users of the resolver: at most \<open>dns.max_tcp_connections\<close> connections are open, all of them from addresses the
  ACL admits; what has been written on an open connection, together with what of its current answer is
  still to be written, is a sequence of complete frames (two length bytes and as many bytes as they say);
  what was written on a connection that ended is one too, except that the last frame may break off where a
  write failed or the time limit passed; no other peer was ever written to; and all connections
  can come to an end without any peer or upstream doing anything.
\<close>

theorem tcp_server_safe:
  assumes "tcp_step\<^sup>*\<^sup>* (tcp_server_new r0) s"
  shows "length (ts_conns s) \<le> max_tcp_connections (rs_cfg r0) \<and>
    list_all (\<lambda>c. acl_allows (rs_acl r0) (sa_ip (tc_peer c)) \<and> whole_frames (tc_output c @ tc_writing c)) (ts_conns s) \<and>
    list_all (\<lambda>(peer, out). acl_allows (rs_acl r0) (sa_ip peer) \<and> broken_off out) (ts_ended s) \<and>
    (\<exists>s'. tcp_step\<^sup>*\<^sup>* s s' \<and> ts_conns s' = [])"
  using tcp_reach.reachable [OF assms] tcp_drain.drains [of s] by (auto simp: tcp_inv_def conn_ok_def list_all_iff)

definition demo_open :: Resolver where
  "demo_open = (demo_resolver demo_list)\<lparr>rs_acl := \<lparr>rules = [Any]\<rparr>\<rparr>"

theorem tcp_server_safe_witness:
  "\<exists>s s'. tcp_step\<^sup>*\<^sup>* (tcp_server_new demo_open) s \<and> length (ts_conns s) = 1 \<and>
     tcp_step\<^sup>*\<^sup>* s s' \<and> ts_conns s' = []"
proof -
  let ?s = "tcp_open \<lparr>sa_ip = IpV4 5, sa_port = 9\<rparr> (tcp_server_new demo_open)"
  have l: "length (ts_conns ?s) = 1"
    by (simp add: tcp_open_def tcp_accept_def tcp_server_new_def allows_def acl_allows_def demo_open_def demo_resolver_def
        resolver_new_def Config_default_def DnsConfig_default_def)
  have "tcp_step (tcp_server_new demo_open) ?s" by (rule tcp_step_open)
  moreover have "tcp_step ?s (tcp_arrive 0 [0, 5] ?s)" using l by (intro tcp_step_arrive) simp
  ultimately have "tcp_step\<^sup>*\<^sup>* (tcp_server_new demo_open) (tcp_arrive 0 [0, 5] ?s)"
    by (rule converse_rtranclp_into_rtranclp [OF _ r_into_rtranclp])
  moreover from tcp_server_safe [OF this] obtain s' where
    "tcp_step\<^sup>*\<^sup>* (tcp_arrive 0 [0, 5] ?s) s'" "ts_conns s' = []" by blast
  moreover have "length (ts_conns (tcp_arrive 0 [0, 5] ?s)) = 1" using l by (simp add: tcp_arrive_def Let_def)
  ultimately show ?thesis by blast
qed

end
