(* ===== verification/Startup.thy ===== *)
theory Startup
  imports Api Monitor Db_File Tcp_Server
begin

text \<open>
  The program's entry point (\<open>src/main.rs\<close>): the command line, the configuration check, what is set up
  before the first query is served and in which order, the tasks that are started with their periods,
  and one turn of the scheduled list refresh. Files, the routing table, the database's contents and the
  outcome of every system call are arguments.
\<close>

section \<open>The command line\<close>

record Cli =
  cli_dns_listen :: "SocketAddr option"
  cli_web_listen :: "SocketAddr option"
  cli_database :: "path option"
  cli_no_fetch :: bool
  cli_print_config :: bool
  cli_check_config :: bool
  cli_rebuild_db :: bool

definition apply_overrides :: "Cli \<Rightarrow> Config \<Rightarrow> Config" where
  "apply_overrides cli cfg =
     (let cfg = (case cli_dns_listen cli of Some a \<Rightarrow> cfg\<lparr>dns := (dns cfg)\<lparr>dns_listen := a\<rparr>\<rparr> | None \<Rightarrow> cfg);
          cfg = (case cli_web_listen cli of Some a \<Rightarrow> cfg\<lparr>web := (web cfg)\<lparr>web_listen := a\<rparr>\<rparr> | None \<Rightarrow> cfg)
      in case cli_database cli of Some p \<Rightarrow> cfg\<lparr>storage := (storage cfg)\<lparr>database := p\<rparr>\<rparr> | None \<Rightarrow> cfg)"

text \<open>The tasks of a running program.\<close>

datatype Task =
    Serve_Udp SocketAddr
  | Serve_Tcp SocketAddr
  | Cache_Sweeper
  | Alert_Drain bool
  | Storm_Watcher u32 u32 duration
  | Arp_Poller duration "Subnet option" "string option"
  | Mdns_Listener
  | Dhcp_Listener
  | Subnet_Sweeper Subnet duration
  | Reverse_Dns SocketAddr "u32 option"
  | Throughput_Sampler duration
  | Latency_Sampler SocketAddr duration
  | List_Refresh duration
  | Dashboard SocketAddr

record Program =
  pg_state :: AppState
  pg_tasks :: "Task list"

datatype BootError =
    BadConfig ConfigError | PrintFailed | StateDirFailed | OpenFailed | BadSubnet CidrError

text \<open>How \<open>main\<close> ends, or that it serves: an exit status of its own choosing, a returned error, a panic.\<close>

datatype MainResult = Exited nat | Failed BootError | Panicked | Running Program

text \<open>The world at startup: the configuration file and the TOML reader, the outcome of each system call
  (\<open>bt_thread\<close>: whether the writer thread can be started, \<open>spawn_writer\<close> of \<open>src/db.rs\<close>), the files and rows
  found, the clocks. Printing to the terminal is taken to succeed.\<close>

record BootEnv =
  bt_exists :: bool
  bt_content :: "string option"
  bt_toml :: "string \<Rightarrow> Config option"
  bt_rebuild :: bool
  bt_print :: bool
  bt_mkdir :: bool
  bt_open :: bool
  bt_open2 :: bool
  bt_thread :: bool
  bt_db :: Database
  bt_files :: fs
  bt_refresh :: refresh_env
  bt_oui_csv :: "path \<Rightarrow> string option"
  bt_client :: bool
  bt_known :: bool
  bt_hash :: hasher
  bt_now :: instant
  bt_started :: instant
  bt_routes :: "string option"
  bt_routes2 :: "string option"

definition loaded :: "BootEnv \<Rightarrow> ConfigError + Config" where
  "loaded B = load_or_default (bt_toml B) (Some (bt_exists B, bt_content B))"

definition check_config :: "BootEnv \<Rightarrow> Cli \<Rightarrow> MainResult" where
  "check_config B cli =
     (if \<not> bt_exists B then Exited 0
      else case loaded B of
        Inl _ \<Rightarrow> Exited 1
      | Inr cfg \<Rightarrow> (case validate (apply_overrides cli cfg) of Inl _ \<Rightarrow> Exited 1 | Inr _ \<Rightarrow> Exited 0))"

section \<open>Setting up\<close>

definition first_download :: "BootEnv \<Rightarrow> Cli \<Rightarrow> Config \<Rightarrow> HealthMap \<times> fs" where
  "first_download B cli cfg =
     (let list_health = new_health cfg in
      if b_enabled (blocking cfg) \<and> \<not> cli_no_fetch cli then
        let have_cache = list_all (\<lambda>u. hm_get (bt_files B) (cached_list_path cfg u) \<noteq> None) (b_sources (blocking cfg))
        in if \<not> have_cache then snd (refresh_sources cfg (bt_refresh B) list_health (bt_files B))
           else (list_health, bt_files B)
      else (list_health, bt_files B))"

definition boot_oui :: "BootEnv \<Rightarrow> Config \<Rightarrow> OuiDb" where
  "boot_oui B cfg =
     (case oui_file (discovery cfg) of
        Some p \<Rightarrow> fst (load_ieee_csv (bt_oui_csv B p) oui_new)
      | None \<Rightarrow> oui_new)"

definition boot_registry :: "BootEnv \<Rightarrow> Config \<Rightarrow> registry" where
  "boot_registry B cfg =
     (let alert_sink = map_option fst (alerts_spawn (bt_client B) (alerts cfg));
          store = with_alerts alert_sink (devices_new (boot_oui B cfg), \<lparr>h_writer = writer_new, h_alerts = None\<rparr>)
      in if bt_known B then (fst (hydrate (bt_hash B) (bt_now B) (known_devices (bt_db B)) (fst store)), snd store)
         else store)"

definition boot_subnet :: "BootEnv \<Rightarrow> Config \<Rightarrow> CidrError + Subnet option" where
  "boot_subnet B cfg =
     (case d_subnet (discovery cfg) of
        Some s \<Rightarrow> (case subnet_parse_cidr s of Inl e \<Rightarrow> Inl e | Inr n \<Rightarrow> Inr (Some n))
      | None \<Rightarrow> Inr (Option.bind (default_route (bt_routes B)) (\<lambda>r. lan_subnet (bt_routes2 B) (dr_iface r))))"

definition dns_listeners :: "Config \<Rightarrow> SocketAddr list" where
  "dns_listeners cfg =
     dns_listen (dns cfg) # (case listen_v6 (dns cfg) of Some a \<Rightarrow> [a] | None \<Rightarrow> [])"

definition alert_tasks :: "BootEnv \<Rightarrow> AlertConfig \<Rightarrow> Task list" where
  "alert_tasks B al =
     (case alerts_spawn (bt_client B) al of
        Some (_, drain) \<Rightarrow> Alert_Drain drain #
          (if nxdomain_storm al
           then [Storm_Watcher (nxdomain_window_mins al) (nxdomain_threshold al)
                   (from_secs (max (scan_interval_secs al) 30))]
           else [])
      | None \<Rightarrow> [])"

definition discovery_tasks :: "DefaultRoute option \<Rightarrow> Subnet option \<Rightarrow> DiscoveryConfig \<Rightarrow> Task list" where
  "discovery_tasks route lan d =
     (if d_arp d
      then [Arp_Poller (from_secs (max (arp_interval_secs d) 5)) lan (map_option dr_iface route)] else [])
     @ (if d_mdns d then [Mdns_Listener] else [])
     @ (if d_dhcp d then [Dhcp_Listener] else [])
     @ (case lan of
          Some s \<Rightarrow> if d_sweep d then [Subnet_Sweeper s (from_secs (max (sweep_interval_secs d) 30))] else []
        | None \<Rightarrow> [])"

text \<open>The tasks, in the order they are started; \<open>None\<close> is the panic of indexing an empty list of
  upstreams.\<close>

definition start_tasks :: "BootEnv \<Rightarrow> Config \<Rightarrow> Subnet option \<Rightarrow> Task list option" where
  "start_tasks B cfg lan =
     (let route = default_route (bt_routes B) in
      case upstreams (dns cfg) of
        [] \<Rightarrow> None
      | upstream # _ \<Rightarrow>
          Some (map Serve_Udp (dns_listeners cfg)
            @ (if enable_tcp (dns cfg) then map Serve_Tcp (dns_listeners cfg) else [])
            @ [Cache_Sweeper]
            @ alert_tasks B (alerts cfg)
            @ discovery_tasks route lan (discovery cfg)
            @ (if reverse_dns (discovery cfg) then [Reverse_Dns upstream (map_option dr_gateway route)] else [])
            @ [Throughput_Sampler (from_secs 10), Latency_Sampler upstream (from_secs 60)]
            @ (if b_enabled (blocking cfg) \<and> 0 < refresh_hours (blocking cfg)
               then [List_Refresh (from_secs (refresh_hours (blocking cfg) * 3600 mod 2 ^ 64))] else [])
            @ [Dashboard (web_listen (web cfg))]))"

definition main_run :: "BootEnv \<Rightarrow> Cli \<Rightarrow> MainResult" where
  "main_run B cli =
     (if cli_check_config cli then check_config B cli
      else case loaded B of
        Inl e \<Rightarrow> Failed (BadConfig e)
      | Inr cfg \<Rightarrow>
          let cfg = apply_overrides cli cfg in
          if cli_rebuild_db cli then (if bt_rebuild B then Exited 0 else Exited 1)
          else if cli_print_config cli then (if bt_print B then Exited 0 else Failed PrintFailed)
          else if \<not> bt_mkdir B then Failed StateDirFailed
          else if \<not> (bt_open B \<and> bt_open2 B) then Failed OpenFailed
          else if \<not> bt_thread B then Panicked
          else case first_download B cli cfg of
            (health, files) \<Rightarrow>
              let blocklist = Some (build cfg files);
                  registry = boot_registry B cfg
              in case boot_subnet B cfg of
                   Inl e \<Rightarrow> Failed (BadSubnet e)
                 | Inr lan \<Rightarrow>
                     let resolver = resolver_new cfg lan blocklist registry
                     in case start_tasks B cfg lan of
                          None \<Rightarrow> Panicked
                        | Some tasks \<Rightarrow> Running
                            \<lparr>pg_state = \<lparr>ap_db = Some (bt_db B), ap_cfg = cfg, ap_resolver = resolver,
                               ap_started = bt_started B,
                               ap_discovery = Some \<lparr>ls_dhcp = LS_Disabled, ls_mdns = LS_Disabled\<rparr>,
                               ap_health = health, ap_refreshing = False, ap_files = files\<rparr>,
                             pg_tasks = tasks\<rparr>)"

section \<open>While running\<close>

text \<open>The mDNS and DHCP tasks: active from the start, unavailable with a reason once the listener has
  failed.\<close>

definition mdns_task :: "string option \<Rightarrow> DiscoveryStatus lock \<Rightarrow> DiscoveryStatus lock" where
  "mdns_task failure s =
     (let s = map_option (ls_mdns_update (\<lambda>_. LS_Active)) s
      in case failure of
           Some reason \<Rightarrow> map_option (ls_mdns_update (\<lambda>_. LS_Unavailable reason)) s
         | None \<Rightarrow> s)"

definition dhcp_task :: "string option \<Rightarrow> DiscoveryStatus lock \<Rightarrow> DiscoveryStatus lock" where
  "dhcp_task failure s =
     (let s = map_option (ls_dhcp_update (\<lambda>_. LS_Active)) s
      in case failure of
           Some reason \<Rightarrow> map_option (ls_dhcp_update (\<lambda>_. LS_Unavailable reason)) s
         | None \<Rightarrow> s)"

text \<open>The exit status of the process when a task ends with an error: only the DNS servers end it.\<close>

fun task_failed :: "Task \<Rightarrow> nat option" where
  "task_failed (Serve_Udp _) = Some 1"
| "task_failed (Serve_Tcp _) = Some 1"
| "task_failed _ = None"

text \<open>One turn of the scheduled refresh; \<open>joined\<close> says that the task building the matcher was joined.\<close>

definition scheduled_refresh :: "refresh_env \<Rightarrow> bool \<Rightarrow> AppState \<Rightarrow> AppState" where
  "scheduled_refresh env joined st =
     (if ap_refreshing st then st
      else case refresh_sources (ap_cfg st) env (ap_health st) (ap_files st) of
        (outcome, health, files) \<Rightarrow>
          let st = st\<lparr>ap_health := health, ap_files := files\<rparr>
          in if total_failure outcome then st
             else if \<not> joined then st
             else let fresh = build (ap_cfg st) (ap_files st);
                      r = ap_resolver st;
                      r = (case rs_blocklist r of Some _ \<Rightarrow> r\<lparr>rs_blocklist := Some fresh\<rparr> | None \<Rightarrow> r)
                  in st\<lparr>ap_resolver := flush_cache r\<rparr>)"

section \<open>Laws\<close>

lemma overrides_fields [simp]:
  "upstreams (dns (apply_overrides cli cfg)) = upstreams (dns cfg)"
  "allow_from (dns (apply_overrides cli cfg)) = allow_from (dns cfg)"
  "listen_v6 (dns (apply_overrides cli cfg)) = listen_v6 (dns cfg)"
  "max_udp_in_flight (dns (apply_overrides cli cfg)) = max_udp_in_flight (dns cfg)"
  "max_tcp_connections (dns (apply_overrides cli cfg)) = max_tcp_connections (dns cfg)"
  "admin_token (web (apply_overrides cli cfg)) = admin_token (web cfg)"
  "web_listen (web (apply_overrides cli cfg)) = or_default (web_listen (web cfg)) (cli_web_listen cli)"
  "blocking (apply_overrides cli cfg) = blocking cfg"
  "discovery (apply_overrides cli cfg) = discovery cfg"
  "alerts (apply_overrides cli cfg) = alerts cfg"
  by (auto simp: apply_overrides_def or_default_def Let_def split: option.splits)

lemma loaded_valid: "loaded B = Inr cfg \<Longrightarrow> validate cfg = Inr ()"
  using default_validates
  by (auto simp: loaded_def load_or_default_def config_load_def split: option.splits if_splits sum.splits)

text \<open>A running program went through every step.\<close>

lemma running_steps:
  assumes "main_run B cli = Running p"
  obtains cfg health files lan tasks where "loaded B = Inr cfg"
    "first_download B cli (apply_overrides cli cfg) = (health, files)"
    "boot_subnet B (apply_overrides cli cfg) = Inr lan"
    "start_tasks B (apply_overrides cli cfg) lan = Some tasks" "pg_tasks p = tasks"
    "ap_cfg (pg_state p) = apply_overrides cli cfg" "ap_files (pg_state p) = files"
    "ap_resolver (pg_state p) = resolver_new (apply_overrides cli cfg) lan
       (Some (build (apply_overrides cli cfg) files)) (boot_registry B (apply_overrides cli cfg))"
proof -
  have "\<not> cli_check_config cli" using assms by (auto simp: main_run_def check_config_def split: if_splits sum.splits)
  then show thesis
    using assms by (auto simp: main_run_def Let_def split: if_splits sum.splits option.splits prod.splits intro: that)
qed

lemma running_in_sync: "main_run B cli = Running p \<Longrightarrow> in_sync (pg_state p)"
  by (erule running_steps) (simp add: in_sync_def resolver_new_def)

lemma running_unlocked: "main_run B cli = Running p \<Longrightarrow> \<not> ap_refreshing (pg_state p)"
  by (auto simp: main_run_def check_config_def Let_def split: if_splits sum.splits option.splits prod.splits)

text \<open>The periods no setting can undercut.\<close>

fun period_ok :: "Task \<Rightarrow> bool" where
  "period_ok (Storm_Watcher _ _ d) = (from_secs 30 \<le> d)"
| "period_ok (Arp_Poller d _ _) = (from_secs 5 \<le> d)"
| "period_ok (Subnet_Sweeper _ d) = (from_secs 30 \<le> d)"
| "period_ok _ = True"

lemma from_secs_mono: "a \<le> b \<Longrightarrow> from_secs a \<le> from_secs b"
  by (simp add: from_secs_def)

lemma alert_tasks_period: "list_all period_ok (alert_tasks B al)"
  by (auto simp: alert_tasks_def from_secs_mono split: option.splits)

lemma discovery_tasks_period: "list_all period_ok (discovery_tasks route lan d)"
  by (cases lan) (auto simp: discovery_tasks_def from_secs_mono)

lemma start_tasks_sound:
  assumes "start_tasks B cfg lan = Some tasks"
  shows "\<forall>a \<in> set (dns_listeners cfg). Serve_Udp a \<in> set tasks" "list_all period_ok tasks"
    "Dashboard (web_listen (web cfg)) \<in> set tasks"
    "enable_tcp (dns cfg) \<Longrightarrow> \<forall>a \<in> set (dns_listeners cfg). Serve_Tcp a \<in> set tasks"
proof -
  obtain u us where "upstreams (dns cfg) = u # us" using assms by (auto simp: start_tasks_def Let_def split: list.splits)
  note eq = assms [unfolded start_tasks_def Let_def this list.case option.inject, symmetric]
  have serve: "list_all period_ok (map Serve_Udp xs)" "list_all period_ok (map Serve_Tcp xs)" for xs
    by (simp_all add: list_all_iff)
  show "\<forall>a \<in> set (dns_listeners cfg). Serve_Udp a \<in> set tasks" by (simp add: eq)
  show "list_all period_ok tasks" by (simp add: eq serve alert_tasks_period discovery_tasks_period)
  show "Dashboard (web_listen (web cfg)) \<in> set tasks" by (simp add: eq)
  show "enable_tcp (dns cfg) \<Longrightarrow> \<forall>a \<in> set (dns_listeners cfg). Serve_Tcp a \<in> set tasks" by (simp add: eq)
qed

lemma main_run_no_panic: "bt_thread B \<Longrightarrow> main_run B cli \<noteq> Panicked"
proof
  assume t: "bt_thread B" and a: "main_run B cli = Panicked"
  have "\<not> cli_check_config cli" using a by (auto simp: main_run_def check_config_def split: if_splits sum.splits)
  then obtain cfg lan where c: "loaded B = Inr cfg" "start_tasks B (apply_overrides cli cfg) lan = None"
    using a t by (auto simp: main_run_def Let_def split: if_splits sum.splits option.splits prod.splits)
  then have "upstreams (dns cfg) \<noteq> []" using validate_guarantees [OF loaded_valid] by blast
  then show False using c(2) by (auto simp: start_tasks_def Let_def split: list.splits)
qed

text \<open>
  C28. Starting up is sound. The only panic of \<open>main\<close> is the one of a writer thread the operating system
  refuses: with any file that loads there is a first upstream to hand to the workers. And when it gets as
  far as serving, the matcher is the one the lists on disk describe, every configured DNS listener is
  served over UDP and, where TCP is enabled, over TCP, the access list is the configured one (it parses,
  so the closed fallback is not what runs) with the LAN trusted on top, the answer cache is empty, and no
  configured period is below its floor.
\<close>

theorem startup_sound:
  "(main_run B cli = Panicked \<longrightarrow> \<not> bt_thread B) \<and>
   (\<forall>p. main_run B cli = Running p \<longrightarrow>
      in_sync (pg_state p) \<and>
      (\<forall>a \<in> set (dns_listeners (ap_cfg (pg_state p))).
         Serve_Udp a \<in> set (pg_tasks p) \<and> (enable_tcp (dns (ap_cfg (pg_state p))) \<longrightarrow> Serve_Tcp a \<in> set (pg_tasks p))) \<and>
      (\<exists>acl lan. acl_parse (allow_from (dns (ap_cfg (pg_state p)))) = Inr acl \<and>
         boot_subnet B (ap_cfg (pg_state p)) = Inr lan \<and>
         rs_acl (ap_resolver (pg_state p)) =
           (case lan of None \<Rightarrow> acl | Some s \<Rightarrow> fst (trust_subnet acl (network s) (prefix_len s)))) \<and>
      resolver_cache_len (ap_resolver (pg_state p)) = 0 \<and>
      list_all period_ok (pg_tasks p))"
proof (intro conjI allI impI)
  assume "main_run B cli = Panicked"
  then show "\<not> bt_thread B" using main_run_no_panic by blast
next
  fix p assume run: "main_run B cli = Running p"
  then obtain cfg health files lan tasks where s: "loaded B = Inr cfg"
    "start_tasks B (apply_overrides cli cfg) lan = Some tasks" "pg_tasks p = tasks"
    "ap_cfg (pg_state p) = apply_overrides cli cfg" "ap_files (pg_state p) = files"
    "ap_resolver (pg_state p) = resolver_new (apply_overrides cli cfg) lan
       (Some (build (apply_overrides cli cfg) files)) (boot_registry B (apply_overrides cli cfg))"
    "boot_subnet B (apply_overrides cli cfg) = Inr lan"
    by (rule running_steps) blast
  obtain acl where acl: "acl_parse (allow_from (dns cfg)) = Inr acl"
    using validate_guarantees [OF loaded_valid [OF s(1)]] by blast
  show "in_sync (pg_state p)" using run by (rule running_in_sync)
  show "list_all period_ok (pg_tasks p)" using start_tasks_sound [OF s(2)] s(3,4) by simp
  show "\<forall>a \<in> set (dns_listeners (ap_cfg (pg_state p))).
      Serve_Udp a \<in> set (pg_tasks p) \<and> (enable_tcp (dns (ap_cfg (pg_state p))) \<longrightarrow> Serve_Tcp a \<in> set (pg_tasks p))"
    using start_tasks_sound(1,4) [OF s(2)] s(3,4) by simp
  show "\<exists>acl lan. acl_parse (allow_from (dns (ap_cfg (pg_state p)))) = Inr acl \<and>
      boot_subnet B (ap_cfg (pg_state p)) = Inr lan \<and> rs_acl (ap_resolver (pg_state p)) =
      (case lan of None \<Rightarrow> acl | Some s \<Rightarrow> fst (trust_subnet acl (network s) (prefix_len s)))"
    using acl s(7) by (intro exI [of _ acl] exI [of _ lan]) (cases lan; simp add: s(4,6) resolver_new_def resolver_acl_def)
  show "resolver_cache_len (ap_resolver (pg_state p)) = 0"
    by (simp add: s resolver_new_def resolver_cache_len_def cache_len_def cache_new_def)
qed

definition demo_boot :: BootEnv where
  "demo_boot = \<lparr>bt_exists = False, bt_content = None, bt_toml = (\<lambda>_. None), bt_rebuild = True, bt_print = True,
     bt_mkdir = True, bt_open = True, bt_open2 = True, bt_thread = True, bt_db = db_empty, bt_files = [],
     bt_refresh = demo_refresh_env, bt_oui_csv = (\<lambda>_. None), bt_client = True, bt_known = True,
     bt_hash = demo_hash, bt_now = 0, bt_started = 0, bt_routes = None, bt_routes2 = None\<rparr>"

definition demo_cli :: Cli where
  "demo_cli = \<lparr>cli_dns_listen = None, cli_web_listen = None, cli_database = None, cli_no_fetch = True,
     cli_print_config = False, cli_check_config = False, cli_rebuild_db = False\<rparr>"

lemma demo_upstreams: "upstreams (dns Config_default) \<noteq> []"
  using validate_guarantees [OF default_validates] by simp

lemma demo_running:
  assumes "\<not> cli_check_config cli" "\<not> cli_rebuild_db cli" "\<not> cli_print_config cli" "cli_no_fetch cli"
  shows "\<exists>p. main_run demo_boot cli = Running p"
proof -
  obtain u us where u: "upstreams (dns Config_default) = u # us" using demo_upstreams by (cases "upstreams (dns Config_default)") auto
  have "loaded demo_boot = Inr Config_default" by (simp add: loaded_def load_or_default_def demo_boot_def)
  moreover have "d_subnet (discovery Config_default) = None"
    by (simp add: Config_default_def DiscoveryConfig_default_def)
  ultimately show ?thesis
    using assms u
    by (simp add: main_run_def first_download_def boot_subnet_def start_tasks_def Let_def)
       (simp add: demo_boot_def)
qed

theorem startup_sound_witness:
  "\<exists>p. main_run demo_boot demo_cli = Running p \<and> in_sync (pg_state p) \<and> list_all period_ok (pg_tasks p)"
proof -
  obtain p where "main_run demo_boot demo_cli = Running p" using demo_running [of demo_cli] by (auto simp: demo_cli_def)
  then show ?thesis using startup_sound [of demo_boot demo_cli] by blast
qed

text \<open>
  C36. The command line can put the dashboard where the configuration file could not: \<open>validate\<close>
  refuses a dashboard off loopback without an admin token, and \<open>--check-config\<close> refuses the override
  too, but a normal start applies the overrides after validation. It then serves the dashboard on the
  public address and admits every request that changes the lists.
\<close>

theorem web_override_skips_token_rule:
  assumes "loaded B = Inr cfg" "admin_token (web cfg) = None" "cli_web_listen cli = Some a"
    and "\<not> is_loopback (sa_ip a)" "main_run B cli = Running p"
  shows "Dashboard a \<in> set (pg_tasks p) \<and> admitted rq (pg_state p) \<and>
    (bt_exists B \<longrightarrow> check_config B cli = Exited 1)"
proof -
  have v: "validate (apply_overrides cli cfg) \<noteq> Inr u" for u
    using validate_guarantees [of "apply_overrides cli cfg" u] assms(2-4) by (auto simp: or_default_def)
  obtain e where "validate (apply_overrides cli cfg) = Inl e" using v by (cases "validate (apply_overrides cli cfg)") auto
  then have "check_config B cli = Exited 1" if "bt_exists B" using that assms(1) by (simp add: check_config_def)
  moreover obtain cfg' lan tasks where "loaded B = Inr cfg'" "start_tasks B (apply_overrides cli cfg') lan = Some tasks"
    "pg_tasks p = tasks" "ap_cfg (pg_state p) = apply_overrides cli cfg'"
    using assms(5) by (rule running_steps) blast
  ultimately show ?thesis
    using start_tasks_sound(3) [of B "apply_overrides cli cfg" lan tasks] assms(1-3) by (simp add: admitted_def or_default_def)
qed

definition demo_public :: Cli where
  "demo_public = demo_cli\<lparr>cli_web_listen := Some \<lparr>sa_ip = IpV4 0, sa_port = 8080\<rparr>\<rparr>"

theorem web_override_skips_token_rule_witness:
  "\<exists>p. main_run demo_boot demo_public = Running p \<and> Dashboard \<lparr>sa_ip = IpV4 0, sa_port = 8080\<rparr> \<in> set (pg_tasks p) \<and>
     admitted (demo_post ''/api/deny'' None) (pg_state p)"
proof -
  obtain p where p: "main_run demo_boot demo_public = Running p"
    using demo_running [of demo_public] by (auto simp: demo_cli_def demo_public_def)
  moreover have "loaded demo_boot = Inr Config_default" by (simp add: loaded_def load_or_default_def demo_boot_def)
  moreover have "admin_token (web Config_default) = None" by (simp add: Config_default_def WebConfig_default_def)
  moreover have "\<not> is_loopback (sa_ip \<lparr>sa_ip = IpV4 0, sa_port = 8080\<rparr>)" by (simp add: octet_def)
  ultimately show ?thesis
    using web_override_skips_token_rule [of demo_boot Config_default demo_public "\<lparr>sa_ip = IpV4 0, sa_port = 8080\<rparr>" p "demo_post ''/api/deny'' None"]
    by (simp add: demo_public_def)
qed

text \<open>
  \<open>--check-config\<close> promises that netwatch would start with the file, but a LAN given as a
  malformed network passes the check and then stops every start.
\<close>

lemma check_misses_bad_subnet:
  assumes "bt_exists B" "loaded B = Inr cfg" "validate (apply_overrides cli cfg) = Inr ()"
    and "d_subnet (discovery cfg) = Some s" "subnet_parse_cidr s = Inl e"
    and "bt_mkdir B" "bt_open B" "bt_open2 B" "bt_thread B" "\<not> cli_rebuild_db cli" "\<not> cli_print_config cli"
  shows "main_run B (cli\<lparr>cli_check_config := True\<rparr>) = Exited 0 \<and>
    main_run B (cli\<lparr>cli_check_config := False\<rparr>) = Failed (BadSubnet e)"
proof -
  have "apply_overrides (cli\<lparr>cli_check_config := b\<rparr>) cfg = apply_overrides cli cfg" for b
    by (simp add: apply_overrides_def)
  then show ?thesis
    using assms by (simp add: main_run_def check_config_def boot_subnet_def Let_def split: prod.splits)
qed

definition bad_subnet_config :: Config where
  "bad_subnet_config = Config_default\<lparr>discovery := (discovery Config_default)\<lparr>d_subnet := Some ''192.168.1.0''\<rparr>\<rparr>"

lemma bad_subnet_valid: "validate bad_subnet_config = Inr ()"
proof -
  have "dns bad_subnet_config = dns Config_default" "web bad_subnet_config = web Config_default"
    "alerts bad_subnet_config = alerts Config_default" "blocking bad_subnet_config = blocking Config_default"
    by (simp_all add: bad_subnet_config_def)
  then show ?thesis using default_validates unfolding validate_def by (simp only:)
qed

lemma check_misses_bad_subnet_witness:
  "main_run (demo_boot\<lparr>bt_exists := True, bt_content := Some [], bt_toml := (\<lambda>_. Some bad_subnet_config)\<rparr>)
     (demo_cli\<lparr>cli_check_config := True\<rparr>) = Exited 0 \<and>
   main_run (demo_boot\<lparr>bt_exists := True, bt_content := Some [], bt_toml := (\<lambda>_. Some bad_subnet_config)\<rparr>)
     (demo_cli\<lparr>cli_check_config := False\<rparr>) = Failed (BadSubnet NoPrefixLength)"
proof -
  let ?B = "demo_boot\<lparr>bt_exists := True, bt_content := Some [], bt_toml := (\<lambda>_. Some bad_subnet_config)\<rparr>"
  have "loaded ?B = Inr bad_subnet_config"
    using bad_subnet_valid by (simp add: loaded_def load_or_default_def config_load_def)
  moreover have "apply_overrides demo_cli bad_subnet_config = bad_subnet_config"
    by (simp add: apply_overrides_def demo_cli_def)
  moreover have "subnet_parse_cidr ''192.168.1.0'' = Inl NoPrefixLength" by (simp add: subnet_parse_cidr_def)
  ultimately show ?thesis
    using check_misses_bad_subnet [of ?B bad_subnet_config demo_cli "''192.168.1.0''" NoPrefixLength] bad_subnet_valid
    by (simp add: demo_boot_def demo_cli_def bad_subnet_config_def)
qed

text \<open>The scheduled refresh does to the program what a reload over HTTP does that is not cut short.\<close>

lemma scheduled_refresh_is_reload:
  "ev_cut E = None \<Longrightarrow> scheduled_refresh (ev_refresh E) (ev_build E) st = fst (reload E st)"
  by (auto simp: scheduled_refresh_def reload_def reload_rest_def rebuild_def Let_def split: prod.splits)

end
