(* ===== verification/Workers.thy ===== *)
theory Workers
  imports Startup
begin

text \<open>
  The background tasks of a running program (\<open>src/main.rs\<close>, \<open>src/devices.rs\<close>, \<open>src/monitor.rs\<close>,
  \<open>src/alerts.rs\<close>, \<open>src/db.rs\<close>) as turns on the shared state: each task's operation, applied to the parts
  of the state it was given when it was started. What a task keeps for itself between its turns (when
  the writer last pruned, the sampler's last readings, the reverse-DNS attempts) is an argument of the
  turn. Then the laws a registry and the queues behind it keep, whichever task or request it is that
  works on them.
\<close>

section \<open>Turns\<close>

definition on_registry :: "(registry \<Rightarrow> registry) \<Rightarrow> AppState \<Rightarrow> AppState" where
  "on_registry f st = st\<lparr>ap_resolver := (ap_resolver st)\<lparr>rs_registry := f (rs_registry (ap_resolver st))\<rparr>\<rparr>"

definition on_hub :: "(Hub \<Rightarrow> Hub) \<Rightarrow> AppState \<Rightarrow> AppState" where
  "on_hub f = on_registry (\<lambda>(devices, hub). (devices, f hub))"

text \<open>A turn of the writer thread. It works on its own connection; what it commits is what the HTTP
  interface's connection reads. \<open>last_prune\<close> is when the thread last ran a retention pass.\<close>

definition write_turn :: "nat \<Rightarrow> bool \<Rightarrow> nat \<Rightarrow> instant \<Rightarrow> int \<Rightarrow> instant \<Rightarrow> AppState \<Rightarrow> AppState" where
  "write_turn n ok k now ts last_prune st =
     (let r = ap_resolver st;
          hub = snd (rs_registry r);
          db = (case ap_db st of Some db \<Rightarrow> db | None \<Rightarrow> db_empty)
      in case writer_cycle n ok k now ts (retention_days (storage (ap_cfg st))) (h_writer hub, db, last_prune) of
           (w, db, _) \<Rightarrow>
             st\<lparr>ap_db := map_option (\<lambda>_. db) (ap_db st),
                ap_resolver := r\<lparr>rs_registry := (fst (rs_registry r), hub\<lparr>h_writer := w\<rparr>)\<rparr>\<rparr>)"

text \<open>One alert taken from the queue, pushed and recorded.\<close>

definition drain_hub :: "bool \<Rightarrow> ntfy_post \<Rightarrow> int \<Rightarrow> Hub \<Rightarrow> Hub" where
  "drain_hub client post ts hub =
     (case h_alerts hub of
        None \<Rightarrow> hub
      | Some s \<Rightarrow> (case alert_drain client post ts (s, h_writer hub) of
          (s, w) \<Rightarrow> hub\<lparr>h_alerts := Some s, h_writer := w\<rparr>))"

text \<open>One scan of the storm watcher over the shared database; \<open>ok\<close> says that the query did not fail.
  \<open>order\<close> is the order SQLite visits the groups in.\<close>

definition scan_hub ::
    "(string list \<Rightarrow> string list) \<Rightarrow> int \<Rightarrow> bool \<Rightarrow> (nat \<Rightarrow> instant) \<Rightarrow> AlertConfig \<Rightarrow> Database lock \<Rightarrow> Hub \<Rightarrow> Hub" where
  "scan_hub order ts ok clock al db hub =
     (let found = (case db of
            Some db \<Rightarrow> if ok then Some (nxdomain_offenders order ts (unat (nxdomain_window_mins al)) (unat (nxdomain_threshold al)) db) else None
          | None \<Rightarrow> None)
      in hub\<lparr>h_alerts := map_option (storm_scan clock (unat (nxdomain_window_mins al)) found) (h_alerts hub)\<rparr>)"

datatype Turn =
    is_T_Write: T_Write nat bool nat instant int instant
  | T_Arp hasher "nat \<Rightarrow> Clock" "Subnet option" "string option" "ArpEntry list option"
  | T_Mdns proto hasher "nat \<Rightarrow> Clock" IpAddr "u8 list"
  | T_Dhcp hasher Clock "u8 list"
  | T_Reverse hasher Clock "string option" u32 attempts
  | T_Throughput "nat \<Rightarrow> duration \<Rightarrow> int" "string option" int instant "(string, reading) hmap"
  | T_Latency prober "string option" SocketAddr int
  | T_Alert bool ntfy_post int
  | T_Scan "string list \<Rightarrow> string list" int bool "nat \<Rightarrow> instant"
  | T_Touch Clock u32
  | T_Listeners "string option" "string option"

text \<open>\<open>T_Touch\<close> is the second half of \<open>touch_ip\<close> when another task came in between its two halves,
  \<open>T_Listeners\<close> the two discovery listeners starting, and failing when there is a reason.\<close>

fun turn :: "Turn \<Rightarrow> AppState \<Rightarrow> AppState" where
  "turn (T_Write n ok k now ts last_prune) st = write_turn n ok k now ts last_prune st"
| "turn (T_Arp fp ck subnet iface table) st = on_registry (arp_poll fp ck subnet iface table) st"
| "turn (T_Mdns P fp ck peer datagram) st = on_registry (mdns_packet P fp ck peer datagram) st"
| "turn (T_Dhcp fp ck datagram) st = on_registry (dhcp_packet fp ck datagram) st"
| "turn (T_Reverse fp ck answer ip tried) st =
     on_registry (\<lambda>r. fst (snd (rdns_ip fp ck answer ip (tried, r, [])))) st"
| "turn (T_Throughput rate file ts now last_seen) st =
     on_hub (\<lambda>h. h\<lparr>h_writer := snd (throughput_turn rate file ts now (last_seen, h_writer h))\<rparr>) st"
| "turn (T_Latency probe routes upstream ts) st =
     on_hub (\<lambda>h. h\<lparr>h_writer := latency_turn probe routes upstream ts (h_writer h)\<rparr>) st"
| "turn (T_Alert client post ts) st = on_hub (drain_hub client post ts) st"
| "turn (T_Scan order ts ok clock) st = on_hub (scan_hub order ts ok clock (alerts (ap_cfg st)) (ap_db st)) st"
| "turn (T_Touch ck v4) st = on_registry (touch_write ck v4) st"
| "turn (T_Listeners mdns dhcp) st =
     st\<lparr>ap_discovery := dhcp_task dhcp (mdns_task mdns (ap_discovery st))\<rparr>"

lemma turn_fields:
  "ap_cfg (turn t st) = ap_cfg st" "ap_files (turn t st) = ap_files st" "ap_health (turn t st) = ap_health st"
  "ap_refreshing (turn t st) = ap_refreshing st"
  "rs_cfg (ap_resolver (turn t st)) = rs_cfg (ap_resolver st)" "rs_acl (ap_resolver (turn t st)) = rs_acl (ap_resolver st)"
  "rs_blocklist (ap_resolver (turn t st)) = rs_blocklist (ap_resolver st)"
  "rs_cache (ap_resolver (turn t st)) = rs_cache (ap_resolver st)"
  by (cases t; simp add: on_registry_def on_hub_def write_turn_def Let_def case_prod_beta)+

section \<open>Laws that every task keeps\<close>

text \<open>What is sent to the writer by anything but the registry.\<close>

fun no_device :: "WriteOp \<Rightarrow> bool" where
  "no_device (W_Device _) \<longleftrightarrow> False"
| "no_device _ \<longleftrightarrow> True"

lemma sample_counter_sends:
  obtains seen' ops where "sample_counter rate ts now c (seen, w) = (seen', fold writer_send ops w)" "list_all no_device ops"
proof (cases "sample_counter rate ts now c (seen, w)")
  case (Pair seen' w')
  then have "w' = w \<or> (\<exists>s. w' = writer_send (W_Iface s) w)"
    by (auto simp: sample_counter_def Let_def split: option.splits if_splits)
  then show thesis using that [of seen' "[]"] that [of seen' "[W_Iface s]" for s] Pair by auto
qed

text \<open>A law of the registry that survives queries, samples and alerts being sent, alerts being raised
  and alerts being taken from the queue.\<close>

locale task_law = registry_law J for J :: "registry \<Rightarrow> bool" +
  assumes keeps_send: "J (d, h) \<Longrightarrow> no_device op \<Longrightarrow> J (d, h\<lparr>h_writer := writer_send op (h_writer h)\<rparr>)"
    and keeps_raise: "J (d, h) \<Longrightarrow> J (d, hub_raise t a h)"
    and keeps_pop: "J (d, h) \<Longrightarrow> h_alerts h = Some s \<Longrightarrow> J (d, h\<lparr>h_alerts := Some (s\<lparr>as_queue := tl (as_queue s)\<rparr>)\<rparr>)"
begin

lemma keeps_sends:
  "J (d, h) \<Longrightarrow> list_all no_device ops \<Longrightarrow> J (d, h\<lparr>h_writer := fold writer_send ops (h_writer h)\<rparr>)"
proof (induction ops arbitrary: h)
  case (Cons op ops)
  then show ?case using Cons.IH [OF keeps_send [OF Cons.prems(1)]] by simp
qed simp

lemma keeps_scan: "J (d, h) \<Longrightarrow> J (d, scan_hub order ts ok clock al db h)"
proof -
  have raises: "J (d, h) \<Longrightarrow> J (d, h\<lparr>h_alerts := map_option (fold (\<lambda>(i, c, n). alert_raise (clock i) (f c n)) xs) (h_alerts h)\<rparr>)"
    for f :: "string \<Rightarrow> nat \<Rightarrow> Alert" and xs h
  proof (induction xs arbitrary: h)
    case (Cons x xs)
    obtain i c n where x: "x = (i, c, n)" by (cases x) auto
    show ?case
      using Cons.IH [OF keeps_raise [OF Cons.prems, of "clock i" "f c n"]]
      by (simp add: x hub_raise_def option.map_comp comp_def)
  qed (simp add: option.map_id0)
  assume "J (d, h)"
  then show ?thesis
    using raises [of h] by (auto simp: scan_hub_def storm_scan_def [abs_def] option.map_ident Let_def split: option.splits)
qed

lemma keeps_drain: "J (d, h) \<Longrightarrow> J (d, drain_hub client post ts h)"
proof (cases "h_alerts h")
  case (Some s)
  assume J: "J (d, h)"
  show ?thesis
  proof (cases "as_queue s")
    case Nil
    have "drain_hub client post ts h = h" using Some Nil by (cases h) (simp add: drain_hub_def alert_drain_def)
    then show ?thesis using J by simp
  next
    case (Cons a rest)
    then show ?thesis using keeps_send [OF keeps_pop [OF J Some]]
      by (simp add: drain_hub_def alert_drain_def Some)
  qed
qed (simp add: drain_hub_def)

lemma keeps_log: "J (rs_registry r) \<Longrightarrow> J (rs_registry (resolver_log E d q c s e a b r))"
  using keeps_touch_ip [of "rs_registry r" "e_log E" c] keeps_send
  by (auto simp: resolver_log_def split: prod.splits)

lemma keeps_request:
  assumes "J (rs_registry r)"
  shows "J (rs_registry (fst (handle_local E request client r)))"
    and "J (rs_registry (fst (handle_reply E client p res r)))"
    and "J (rs_registry (fst (handle_timeout E request r)))"
proof -
  have c: "rs_registry r' = rs_registry r1" if "cache_lookup E k r1 = (r', hit)" for k r1 r' hit
    using cache_lookup_fields(3) [of E k r1] that by simp
  show "J (rs_registry (fst (handle_local E request client r)))"
    using assms by (auto simp: handle_local_def Let_def keeps_log dest!: c split: option.splits list.splits prod.splits)
  show "J (rs_registry (fst (handle_reply E client p res r)))"
    using assms by (auto simp: handle_reply_def Let_def keeps_log keeps_learn_from_dns split: sum.splits option.splits)
  show "J (rs_registry (fst (handle_timeout E request r)))"
    using assms by (simp add: handle_timeout_def Let_def)
qed

lemma keeps_throughput: "J (d, h) \<Longrightarrow> J (d, h\<lparr>h_writer := snd (throughput_turn rate file ts now (last_seen, h_writer h))\<rparr>)"
proof -
  assume J: "J (d, h)"
  have "\<exists>ops. list_all no_device ops \<and> snd (fold (sample_counter rate ts now) cs (seen, w)) = fold writer_send ops w"
    for cs seen w
  proof (induction cs arbitrary: seen w)
    case (Cons c cs)
    obtain seen' ops where c: "sample_counter rate ts now c (seen, w) = (seen', fold writer_send ops w)" "list_all no_device ops"
      by (rule sample_counter_sends)
    obtain ops' where "list_all no_device ops'"
      "snd (fold (sample_counter rate ts now) cs (seen', fold writer_send ops w)) = fold writer_send ops' (fold writer_send ops w)"
      using Cons.IH [of seen' "fold writer_send ops w"] by blast
    then show ?case using c by (intro exI [of _ "ops @ ops'"]) simp
  qed (auto intro: exI [of _ "[]"])
  then obtain ops where "list_all no_device ops"
    "snd (throughput_turn rate file ts now (last_seen, h_writer h)) = fold writer_send ops (h_writer h)"
    by (cases "iface_counters file") (auto simp: throughput_turn_def intro: that [of "[]"], metis)
  then show ?thesis using keeps_sends [OF J] by simp
qed

lemma keeps_latency: "J (d, h) \<Longrightarrow> J (d, h\<lparr>h_writer := latency_turn probe routes upstream ts (h_writer h)\<rparr>)"
  unfolding latency_turn_sends
  by (rule keeps_sends) (auto simp: list_all_iff split: option.splits)

lemma keeps_hub: "J r \<Longrightarrow> (\<And>d h. J (d, h) \<Longrightarrow> J (d, f h)) \<Longrightarrow> J (case r of (d, h) \<Rightarrow> (d, f h))"
  by (cases r) simp

lemma keeps_turn:
  assumes "J (rs_registry (ap_resolver st))" "\<not> is_T_Write t"
  shows "J (rs_registry (ap_resolver (turn t st)))"
  using assms
  by (cases t)
     (simp_all add: on_registry_def on_hub_def keeps_arp_poll keeps_mdns_packet keeps_dhcp_packet keeps_rdns_ip
       keeps_touch_write keeps_hub keeps_throughput keeps_latency keeps_drain keeps_scan)

end

section \<open>The state of a running program\<close>

definition hub_law :: "registry \<Rightarrow> bool" where
  "hub_law r \<longleftrightarrow> registry_wf r \<and> hub_bounded (snd r)"

interpretation tasks: task_law hub_law
proof
  fix r :: registry and d :: DeviceStore and h :: Hub and fp ck ip raw host v4 op t a s
  show "hub_law r \<Longrightarrow> hub_law (observe fp ck ip raw r)" "hub_law r \<Longrightarrow> hub_law (observe_named fp ck raw host r)"
    "hub_law r \<Longrightarrow> hub_law (observe_name_for_ip fp ck ip host r)" "hub_law r \<Longrightarrow> hub_law (touch_write ck v4 r)"
    by (simp_all add: hub_law_def registry_wfs reg_bounded.keeps_basic)
  show "hub_law (d, h\<lparr>h_writer := writer_send op (h_writer h)\<rparr>)" if "hub_law (d, h)" "no_device op"
    using that by (cases op) (auto simp: hub_law_def bounded_send registry_wf_def hub_wf_def writer_send_safe)
  show "hub_law (d, hub_raise t a h)" if "hub_law (d, h)"
    using that by (auto simp: hub_law_def bounded_raise registry_wf_def hub_raise_wf)
  show "hub_law (d, h\<lparr>h_alerts := Some (s\<lparr>as_queue := tl (as_queue s)\<rparr>)\<rparr>)" if "hub_law (d, h)" "h_alerts h = Some s"
    using that by (auto simp: hub_law_def hub_bounded_def registry_wf_def hub_wf_def)
qed

text \<open>What the program relies on of its database: canonical addresses and safe names, one row per
  device, one device per address, row numbers not given out twice.\<close>

definition db_law :: "Database \<Rightarrow> bool" where
  "db_law db \<longleftrightarrow> db_safe db \<and> devices_wf (t_devices db) \<and> ids_wf db"

lemma fold_ops_law: "list_all op_safe ops \<Longrightarrow> db_law db \<Longrightarrow> db_law (fold apply_op ops db)"
  by (simp add: db_law_def fold_ops_safe fold_ops_wf fold_ops_ids)

lemma db_law_empty: "db_law db_empty"
  using db_run_wf [OF run_empty] db_run_ids [OF run_empty] by (simp add: db_law_def db_safe_def db_empty_def)

lemma writer_cycle_law:
  assumes "hub_law (d, h)" "db_law db" "writer_cycle n ok k now ts days (h_writer h, db, lp) = (w, db', lp')"
  shows "hub_law (d, h\<lparr>h_writer := w\<rparr>) \<and> db_law db'"
proof -
  have q: "list_all op_safe (w_queue (h_writer h))" using assms(1) by (simp add: hub_law_def registry_wf_def hub_wf_def)
  have "list_all op_safe (w_queue w)" "db_safe db'"
    using writer_cycle_safe [OF q _ assms(3)] assms(2) by (simp_all add: db_law_def)
  moreover have "devices_wf (t_devices db') \<and> ids_wf db'" "length (w_queue w) \<le> length (w_queue (h_writer h))"
    using assms(2,3) by (auto simp: writer_cycle_def flush_def Let_def db_law_def fold_ops_wf fold_ops_ids prune_ids split: if_splits)
  ultimately show ?thesis
    using assms(1) by (auto simp: hub_law_def db_law_def hub_bounded_def registry_wf_def hub_wf_def)
qed

definition state_law :: "AppState \<Rightarrow> bool" where
  "state_law st \<longleftrightarrow> hub_law (rs_registry (ap_resolver st)) \<and> pred_option db_law (ap_db st)"

lemma turn_db: "\<not> is_T_Write t \<Longrightarrow> ap_db (turn t st) = ap_db st"
  by (cases t) (simp_all add: on_registry_def on_hub_def)

lemma write_turn_law: "state_law st \<Longrightarrow> state_law (write_turn n ok k now ts lp st)"
proof -
  assume st: "state_law st"
  obtain d h where r: "rs_registry (ap_resolver st) = (d, h)" by fastforce
  define db where "db = (case ap_db st of Some db \<Rightarrow> db | None \<Rightarrow> db_empty)"
  have "db_law db" using st by (cases "ap_db st") (auto simp: state_law_def db_def db_law_empty)
  moreover obtain w db' lp' where
    w: "writer_cycle n ok k now ts (retention_days (storage (ap_cfg st))) (h_writer h, db, lp) = (w, db', lp')"
    using prod_cases3 by blast
  ultimately show ?thesis
    using st writer_cycle_law [of d h db n ok k now ts _ lp w db' lp']
    by (cases "ap_db st") (auto simp: write_turn_def state_law_def r Let_def db_def)
qed

lemma turn_law: "state_law st \<Longrightarrow> state_law (turn t st)"
proof (cases "is_T_Write t")
  case True
  then show "state_law st \<Longrightarrow> ?thesis" by (cases t) (simp_all add: write_turn_law)
next
  case False
  then show "state_law st \<Longrightarrow> ?thesis" using tasks.keeps_turn [of st t] by (simp add: state_law_def turn_db)
qed

text \<open>Starting up from a lawful database gives a lawful state.\<close>

lemma boot_registry_law: "db_law (bt_db B) \<Longrightarrow> hub_law (boot_registry B cfg)"
proof -
  assume db: "db_law (bt_db B)"
  define h where "h = hub_new\<lparr>h_alerts := map_option fst (alerts_spawn (bt_client B) (alerts cfg))\<rparr>"
  have "hub_bounded h"
    by (auto simp: h_def hub_bounded_def hub_new_def writer_new_def alerts_spawn_def)
  moreover have "registry_wf (devices_new (boot_oui B cfg), h)"
    using new_wf [of "boot_oui B cfg"] by (simp add: registry_wf_def hub_wf_def h_def)
  ultimately show ?thesis
    using hydrate_wf [OF known_devices_safe] db
    by (simp add: boot_registry_def hub_law_def with_alerts_def Let_def db_law_def h_def hub_new_def)
qed

lemma running_db: "main_run B cli = Running p \<Longrightarrow> ap_db (pg_state p) = Some (bt_db B)"
  by (cases "cli_check_config cli")
     (auto simp: main_run_def check_config_def Let_def split: if_splits sum.splits option.splits prod.splits)

lemma running_law:
  assumes "main_run B cli = Running p" "db_law (bt_db B)"
  shows "state_law (pg_state p)"
proof -
  have "ap_db (pg_state p) = Some (bt_db B)" by (rule running_db [OF assms(1)])
  moreover obtain cfg lan b where "ap_resolver (pg_state p) = resolver_new cfg lan b (boot_registry B cfg)"
    using running_steps [OF assms(1)] by metis
  ultimately show ?thesis using assms(2) by (simp add: state_law_def resolver_new_def boot_registry_law)
qed

section \<open>From a sighting to an alert\<close>

text \<open>What the ARP table shows of a device the registry does not hold: a row is sent, an alert raised.\<close>

lemma arp_new_device:
  assumes "rs_registry (ap_resolver st) = (d, hub)" "ds_inner d = Some i" "oui_normalize (arp_mac e) = Some mac"
    and "hm_get (by_mac i) mac = None" "iface = None \<or> iface = Some (arp_iface e)"
    and "case subnet of Some s \<Rightarrow> subnet_contains s (arp_ip e) | None \<Rightarrow> True"
  obtains row host vendor where
    "hub_of (ap_resolver (turn (T_Arp fp ck subnet iface (Some [e])) st)) =
       hub_raise (ck_alert (ck 0)) (alert_new_device mac host vendor)
         (hub\<lparr>h_writer := writer_send (W_Device row) (h_writer hub)\<rparr>)" "do_mac row = mac"
proof -
  let ?dev = "sighted (ds_oui d) (arp_ip e) mac i"
  have "snd (take_write_slot fp (ck_now (ck 0)) ?dev)"
    using assms(4) by (simp add: take_write_slot_def sighted_def device_entry_def device_new_def Let_def)
  moreover have "dev_mac ?dev = mac"
    using assms(4) by (simp add: sighted_def device_entry_def device_new_def Let_def)
  ultimately show thesis
    using that observe_eq [OF assms(3,2), of fp "ck 0" "arp_ip e" hub] assms(1,4-6)
    by (auto simp: on_registry_def arp_poll_def hub_of_def Let_def persist_def split: option.splits)
qed

lemma hub_of_turn: "hub_of (ap_resolver (on_hub f st)) = f (hub_of (ap_resolver st))"
  by (simp add: on_hub_def on_registry_def hub_of_def case_prod_beta)

definition alert_op :: "bool \<Rightarrow> ntfy_post \<Rightarrow> int \<Rightarrow> Alert \<Rightarrow> AlertOp" where
  "alert_op client post ts a = \<lparr>ao_ts = ts, ao_kind = a_kind a, ao_severity = severity_str (a_severity a),
     ao_subject = a_subject a, ao_detail = a_detail a, ao_notified = (client \<and> notify post a)\<rparr>"

lemma drain_writer:
  "h_alerts h = Some s \<Longrightarrow> as_queue s = a # rest \<Longrightarrow>
     h_writer (drain_hub client post ts h) = writer_send (W_Alert (alert_op client post ts a)) (h_writer h)"
  by (simp add: drain_hub_def alert_drain_def alert_op_def)

text \<open>A device nobody has seen and an idle alert task: after the sighting and the alert task's turn, the
  device's row and the alert about it wait for the writer.\<close>

lemma sighting_recorded:
  assumes device: "rs_registry (ap_resolver st) = (d, hub)" "ds_inner d = Some i" "oui_normalize (arp_mac e) = Some mac"
      "hm_get (by_mac i) mac = None" "iface = None \<or> iface = Some (arp_iface e)"
      "case subnet of Some s \<Rightarrow> subnet_contains s (arp_ip e) | None \<Rightarrow> True"
    and sink: "h_alerts hub = Some s" "as_open s" "as_queue s = []" "as_cooldown s = Some m"
      "hm_get m (''new_device'', mac) = None"
    and queue: "w_connected (h_writer hub)" "length (w_queue (h_writer hub)) + 2 \<le> WRITER_DEPTH"
  obtains row host vendor where
    "w_queue (writer_of (ap_resolver (turn (T_Alert client post ts) (turn (T_Arp fp ck subnet iface (Some [e])) st)))) =
       w_queue (h_writer hub) @ [W_Device row, W_Alert (alert_op client post ts (alert_new_device mac host vendor))]"
proof -
  let ?seen = "turn (T_Arp fp ck subnet iface (Some [e])) st"
  obtain row host vendor where hub: "hub_of (ap_resolver ?seen) = hub_raise (ck_alert (ck 0)) (alert_new_device mac host vendor)
      (hub\<lparr>h_writer := writer_send (W_Device row) (h_writer hub)\<rparr>)"
    using arp_new_device [OF device, of fp ck] by blast
  let ?al = "alert_new_device mac host vendor"
  have "a_kind ?al = ''new_device''" "a_subject ?al = mac" by (simp_all add: alert_new_device_def Let_def)
  then obtain s' where s': "h_alerts (hub_of (ap_resolver ?seen)) = Some s'" "as_queue s' = [?al]"
    using sink hub
    by (auto simp: hub_raise_def alert_raise_def take_cooldown_slot_def cooldown_slot_def alert_try_send_def Let_def
        ALERT_QUEUE_DEPTH_def split: prod.splits)
  let ?st = "turn (T_Alert client post ts) ?seen"
  have "writer_of (ap_resolver ?st) =
      writer_send (W_Alert (alert_op client post ts ?al)) (writer_send (W_Device row) (h_writer hub))"
    using drain_writer [OF s'] hub by (simp add: hub_of_turn writer_of_def hub_raise_def del: turn.simps(2))
  then show thesis using that queue by (simp add: writer_send_def)
qed

end
