(* ===== verification/Running.thy ===== *)
theory Running
  imports Workers
begin

text \<open>
  The running program: what its tasks and its clients do to the shared state (\<open>AppState\<close>) as a
  sequence of events, and what holds of that state after any of them: the policy is fixed, the
  matcher agrees with the lists on disk (\<open>in_sync\<close>), registry, database and queues are lawful
  (\<open>state_law\<close>), the cache is one its own operations can have made (\<open>cache_lives\<close>). A program's life is
  a sequence of runs, each on the database the one before left (\<open>database_after\<close>).
\<close>

section \<open>The running system\<close>

text \<open>What can happen to the shared state of a running program: a request over HTTP, a turn of the
  scheduled refresh, the parts of a DNS request and of its rejection, a turn of the cache sweeper, a turn of one of the
  other background tasks, and the refresh lock being taken or released by another task.\<close>

datatype 'f Event =
    Ev_Http "'f ApiEnv" HttpRequest
  | Ev_Refresh refresh_env bool
  | Ev_Query Env "u8 list" IpAddr
  | Ev_Answer Env IpAddr Pending_Request "ForwardError + u8 list"
  | Ev_Timeout Env "u8 list"
  | Ev_Denied IpAddr
  | Ev_Udp_Overload
  | Ev_Tcp_Rejection
  | Ev_Sweep instant
  | Ev_Turn Turn
  | Ev_Lock bool

fun netwatch_step :: "'f Event \<Rightarrow> AppState \<Rightarrow> AppState" where
  "netwatch_step (Ev_Http E rq) st = fst (api_request E rq st)"
| "netwatch_step (Ev_Refresh env joined) st = scheduled_refresh env joined st"
| "netwatch_step (Ev_Query E request client) st =
     st\<lparr>ap_resolver := fst (handle_local E request client (ap_resolver st))\<rparr>"
| "netwatch_step (Ev_Answer E client p result) st =
     st\<lparr>ap_resolver := fst (handle_reply E client p result (ap_resolver st))\<rparr>"
| "netwatch_step (Ev_Timeout E request) st =
     st\<lparr>ap_resolver := fst (handle_timeout E request (ap_resolver st))\<rparr>"
| "netwatch_step (Ev_Denied client) st = st\<lparr>ap_resolver := fst (allows client (ap_resolver st))\<rparr>"
| "netwatch_step Ev_Udp_Overload st = st\<lparr>ap_resolver := note_udp_overload (ap_resolver st)\<rparr>"
| "netwatch_step Ev_Tcp_Rejection st = st\<lparr>ap_resolver := note_tcp_rejection (ap_resolver st)\<rparr>"
| "netwatch_step (Ev_Sweep now) st = st\<lparr>ap_resolver := cache_sweep now (ap_resolver st)\<rparr>"
| "netwatch_step (Ev_Turn t) st = turn t st"
| "netwatch_step (Ev_Lock b) st = st\<lparr>ap_refreshing := b\<rparr>"

text \<open>Nothing was dropped half-way: no request hit its deadline and no matcher task was lost.\<close>

fun completes :: "'f Event \<Rightarrow> bool" where
  "completes (Ev_Http E _) \<longleftrightarrow> ev_cut E = None \<and> ev_build E"
| "completes (Ev_Refresh _ joined) \<longleftrightarrow> joined"
| "completes _ \<longleftrightarrow> True"

lemmas note_defs = note_udp_overload_def note_tcp_rejection_def count_stat_def

lemma handle_blocklist:
  "rs_blocklist (fst (handle_local E request client r)) = rs_blocklist r"
  "rs_blocklist (fst (handle_reply E client p res r)) = rs_blocklist r"
  "rs_blocklist (fst (handle_timeout E request r)) = rs_blocklist r"
proof -
  have c: "rs_blocklist (fst (cache_lookup E k r1)) = rs_blocklist r1" for k r1
    by (auto simp: cache_lookup_def split: prod.splits option.splits bool.splits)
  then have c': "rs_blocklist r' = rs_blocklist r1" if "cache_lookup E k r1 = (r', hit)" for k r1 r' hit
    using that by (metis fst_conv)
  show "rs_blocklist (fst (handle_local E request client r)) = rs_blocklist r"
    by (auto simp: handle_local_def Let_def dest!: c' split: option.splits list.splits prod.splits)
  have "rs_blocklist (cache_store E k m r1) = rs_blocklist r1" for k m r1
    by (auto simp: cache_store_def split: prod.splits option.splits bool.splits)
  then show "rs_blocklist (fst (handle_reply E client p res r)) = rs_blocklist r"
    by (simp add: handle_reply_def Let_def split: sum.splits option.splits)
  show "rs_blocklist (fst (handle_timeout E request r)) = rs_blocklist r"
    by (simp add: handle_timeout_def Let_def)
qed

interpretation sync: event_system "netwatch_step :: 'f Event \<Rightarrow> AppState \<Rightarrow> AppState" completes in_sync
proof
  fix st and e :: "'f Event"
  assume st: "in_sync st" "completes e"
  show "in_sync (netwatch_step e st)"
  proof (cases e)
    case (Ev_Http E rq)
    then show ?thesis using st by (simp add: request_in_sync)
  next
    case (Ev_Refresh env joined)
    let ?E = "(undefined :: unit ApiEnv)\<lparr>ev_cut := None, ev_build := True, ev_refresh := env\<rparr>"
    have "ev_cut ?E = None" "ev_build ?E" "ev_refresh ?E = env" by simp_all
    then show ?thesis
      using st reload_in_sync [OF st(1), of ?E] scheduled_refresh_is_reload [of ?E st] Ev_Refresh by simp
  qed (use st in \<open>simp_all add: in_sync_def handle_blocklist allows_def cache_sweep_def turn_fields note_defs case_prod_beta\<close>)
qed

text \<open>The policy the program was started with: its configuration and the access list.\<close>

definition policy :: "AppState \<Rightarrow> Config \<times> DnsConfig \<times> Acl" where
  "policy st = (ap_cfg st, rs_cfg (ap_resolver st), rs_acl (ap_resolver st))"

text \<open>What administration leaves alone: the policy, the registry with the queues behind it, the database.
  The cache it leaves as it is or empties.\<close>

definition leaves :: "AppState \<Rightarrow> AppState \<Rightarrow> bool" where
  "leaves st st' \<longleftrightarrow> policy st' = policy st \<and> rs_registry (ap_resolver st') = rs_registry (ap_resolver st) \<and>
     ap_db st' = ap_db st \<and>
     (rs_cache (ap_resolver st') = rs_cache (ap_resolver st) \<or>
      rs_cache (ap_resolver st') = map_option cache_clear (rs_cache (ap_resolver st)))"

lemma leaves_refl [simp]: "leaves st st"
  by (simp add: leaves_def)

lemma leaves_files [simp]:
  "leaves (st\<lparr>ap_files := files\<rparr>) st' = leaves st st'" "leaves st (st'\<lparr>ap_files := files\<rparr>) = leaves st st'"
  "leaves (st\<lparr>ap_health := h\<rparr>) st' = leaves st st'" "leaves st (st'\<lparr>ap_health := h\<rparr>) = leaves st st'"
  by (simp_all add: leaves_def policy_def)

lemma rebuild_leaves: "leaves st (fst (rebuild E st))"
  by (auto simp: leaves_def policy_def rebuild_def Let_def flush_cache_def split: option.splits)

lemma rebuild_files: "rebuild E (st\<lparr>ap_files := files\<rparr>) = (st', r) \<Longrightarrow> leaves st st'"
  using rebuild_leaves [of "st\<lparr>ap_files := files\<rparr>" E] by simp

lemma edit_leaves: "leaves st (fst (edit_list E change list_path body st))"
  by (auto simp: edit_list_def Let_def dest: rebuild_files split: option.splits prod.splits sum.splits)

lemma reload_rest_leaves: "leaves st (fst (reload_rest E waits st))"
proof -
  have "leaves st st'" if "rebuild E (st\<lparr>ap_health := h, ap_files := files\<rparr>) = (st', r)" for h files st' r
    using rebuild_leaves [of "st\<lparr>ap_health := h, ap_files := files\<rparr>" E] that by simp
  then show ?thesis
    by (auto simp: reload_rest_def Let_def split: prod.splits sum.splits)
qed

lemma reload_leaves: "leaves st (fst (reload E st))"
  using reload_rest_leaves by (auto simp: reload_def Let_def split: option.splits prod.splits)

lemma mutating_leaves: "leaves st (fst (run_mutating E rq e st))"
proof -
  have "leaves st (fst (api_flush_cache st))" by (simp add: leaves_def policy_def api_flush_cache_def flush_cache_def)
  then show ?thesis
    by (cases e) (auto simp: add_deny_def remove_deny_def api_add_allow_def remove_allow_def edit_leaves reload_leaves)
qed

lemma request_leaves: "leaves st (fst (api_request E rq st))"
  using mutating_leaves [of st E rq]
  by (auto simp: api_request_def require_admin_def Let_def split: option.splits prod.splits) (metis fst_conv)+

lemma refresh_leaves: "leaves st (scheduled_refresh env joined st)"
  by (auto simp: scheduled_refresh_def leaves_def policy_def flush_cache_def Let_def split: prod.splits option.splits)

lemma step_policy: "policy (netwatch_step e st) = policy st"
  using request_leaves refresh_leaves
  by (cases e) (auto simp: leaves_def policy_def handle_fields allows_def cache_sweep_def turn_fields note_defs case_prod_beta)

interpretation fixed: event_system "netwatch_step :: 'f Event \<Rightarrow> AppState \<Rightarrow> AppState" "\<lambda>_. True" "\<lambda>st. policy st = pol" for pol
  by unfold_locales (simp add: step_policy)

section \<open>Registry, database and queues\<close>

lemma step_law: "state_law st \<Longrightarrow> state_law (netwatch_step e st)"
proof -
  have l: "leaves st st' \<Longrightarrow> state_law st \<Longrightarrow> state_law st'" for st' by (simp add: leaves_def state_law_def)
  show "state_law st \<Longrightarrow> ?thesis"
    using l [OF request_leaves] l [OF refresh_leaves] turn_law
    by (cases e) (simp_all add: state_law_def tasks.keeps_request allows_def cache_sweep_def note_defs case_prod_beta)
qed

interpretation lawful: event_system "netwatch_step :: 'f Event \<Rightarrow> AppState \<Rightarrow> AppState" "\<lambda>_. True" state_law
  by unfold_locales (simp add: step_law)

text \<open>The database after several runs of the program, each with its own boot, command line and events; a
  run that does not get to serving leaves it as it is.\<close>

fun database_after :: "(BootEnv \<times> Cli \<times> 'f Event list) list \<Rightarrow> Database \<Rightarrow> Database option" where
  "database_after [] db = Some db"
| "database_after ((B, cli, es) # rest) db =
     (case main_run (B\<lparr>bt_db := db\<rparr>) cli of
        Running p \<Rightarrow>
          (case ap_db (fold netwatch_step es (pg_state p)) of
             Some db \<Rightarrow> database_after rest db
           | None \<Rightarrow> None)
      | _ \<Rightarrow> database_after rest db)"

lemma database_after_law: "database_after runs db = Some db' \<Longrightarrow> db_law db \<Longrightarrow> db_law db'"
proof (induction runs arbitrary: db)
  case (Cons run rest)
  obtain B cli es where r: "run = (B, cli, es)" by (cases run) auto
  show ?case
  proof (cases "main_run (B\<lparr>bt_db := db\<rparr>) cli")
    case (Running p)
    then have "state_law (fold netwatch_step es (pg_state p))"
      using running_law [OF Running] Cons.prems(2) lawful.run_keeps [of "pg_state p" es] by (simp add: list_all_iff)
    then show ?thesis using Cons by (auto simp: r Running state_law_def split: option.splits)
  qed (use Cons in \<open>simp_all add: r\<close>)
qed simp

lemma life_law:
  assumes "database_after runs db_empty = Some (bt_db B)" "main_run B cli = Running p"
  shows "state_law (fold netwatch_step es (pg_state p))"
  using running_law [OF assms(2)] database_after_law [OF assms(1) db_law_empty] lawful.run_keeps [of "pg_state p" es]
  by (simp add: list_all_iff)

section \<open>The cache\<close>

text \<open>The cache is one its own operations can have made, by the time \<open>t\<close>.\<close>

definition cache_lives :: "nat \<Rightarrow> u32 \<Rightarrow> u32 \<Rightarrow> instant \<Rightarrow> Resolver \<Rightarrow> bool" where
  "cache_lives n lo hi t r \<longleftrightarrow> (\<forall>c. rs_cache r = Some c \<longrightarrow> (\<exists>u \<le> t. cache_run n lo hi u c))"

lemma lives_later: "cache_lives n lo hi t r \<Longrightarrow> t \<le> t' \<Longrightarrow> cache_lives n lo hi t' r"
  unfolding cache_lives_def by (meson order_trans)

lemma lives_same: "rs_cache r' = rs_cache r \<Longrightarrow> cache_lives n lo hi t r' = cache_lives n lo hi t r"
  by (simp add: cache_lives_def)

lemma lives_log [simp]: "cache_lives n lo hi t (resolver_log E d q c s e a b r) = cache_lives n lo hi t r"
  "cache_lives n lo hi t (count_stat u r) = cache_lives n lo hi t r"
  "cache_lives n lo hi t (r\<lparr>rs_registry := g\<rparr>) = cache_lives n lo hi t r"
  by (simp_all add: cache_lives_def)

lemma lives_lookup: "cache_lives n lo hi t r \<Longrightarrow> t \<le> e_get E \<Longrightarrow> cache_lookup E k r = (r', hit) \<Longrightarrow> cache_lives n lo hi (e_get E) r'"
proof -
  assume a: "cache_lives n lo hi t r" "t \<le> e_get E" "cache_lookup E k r = (r', hit)"
  have "cache_run n lo hi (e_get E) c'" if "rs_cache r = Some c" "cache_get (e_get E) key c = (c', h)" for c c' h key
  proof -
    obtain u where u: "u \<le> t" "cache_run n lo hi u c" using a(1) \<open>rs_cache r = Some c\<close> by (auto simp: cache_lives_def)
    show ?thesis using run_get [OF u(2), of "e_get E" key] u(1) a(2) \<open>cache_get _ _ _ = _\<close> by simp
  qed
  then show ?thesis
    using a(3) lives_later [OF a(1,2)]
    by (auto simp: cache_lookup_def cache_lives_def split: prod.splits option.splits bool.splits if_splits)
qed

lemma lives_store:
  assumes "cache_lives n lo hi t r" "t \<le> e_evict E" "e_evict E \<le> e_stamp E" "iteration_order (e_iter E)"
  shows "cache_lives n lo hi (e_stamp E) (cache_store E k m r)"
proof -
  have "cache_run n lo hi (e_stamp E) (fst (cache_insert (e_evict E) (e_stamp E) (e_iter E) key m c))" if "rs_cache r = Some c" for c key
  proof -
    obtain u where u: "u \<le> t" "cache_run n lo hi u c" using assms(1) \<open>rs_cache r = Some c\<close> by (auto simp: cache_lives_def)
    show ?thesis using run_insert [OF u(2) _ assms(3,4)] u(1) assms(2) by simp
  qed
  moreover have "cache_lives n lo hi (e_stamp E) r" using lives_later [OF assms(1)] assms(2,3) by simp
  ultimately show ?thesis
    by (auto simp: cache_store_def cache_lives_def split: prod.splits option.splits bool.splits if_splits)
qed

lemma lives_clear: "cache_lives n lo hi t r \<Longrightarrow> rs_cache r' = map_option cache_clear (rs_cache r) \<Longrightarrow> cache_lives n lo hi t r'"
  unfolding cache_lives_def by (cases "rs_cache r") (auto intro: run_clear)

lemma lives_sweep: "cache_lives n lo hi t r \<Longrightarrow> t \<le> now \<Longrightarrow> cache_lives n lo hi now (cache_sweep now r)"
  unfolding cache_lives_def cache_sweep_def by (cases "rs_cache r") (force intro: run_sweep)+

lemma lives_local:
  "cache_lives n lo hi t r \<Longrightarrow> t \<le> e_get E \<Longrightarrow> cache_lives n lo hi (e_get E) (fst (handle_local E request client r))"
proof -
  assume a: "cache_lives n lo hi t r" "t \<le> e_get E"
  have l: "cache_lookup E k (count_stat u r) = (r', hit) \<Longrightarrow> cache_lives n lo hi (e_get E) r'" for k u r' hit
    using lives_lookup [of n lo hi t "count_stat u r" E k] a by simp
  show ?thesis
    using lives_later [OF a] l by (auto simp: handle_local_def Let_def split: option.splits list.splits prod.splits)
qed

lemma lives_reply:
  assumes "cache_lives n lo hi t r" "t \<le> e_evict E" "e_evict E \<le> e_stamp E" "iteration_order (e_iter E)"
  shows "cache_lives n lo hi (e_stamp E) (fst (handle_reply E client p res r))"
  using lives_store [OF assms] lives_later [OF assms(1), of "e_stamp E"] assms(2,3)
  by (auto simp: handle_reply_def Let_def split: sum.splits option.splits)

lemma lives_timeout: "cache_lives n lo hi t (fst (handle_timeout E request r)) = cache_lives n lo hi t r"
  by (simp add: handle_timeout_def Let_def)

lemma lives_leaves: "leaves st st' \<Longrightarrow> cache_lives n lo hi t (ap_resolver st) \<Longrightarrow> cache_lives n lo hi t (ap_resolver st')"
  unfolding leaves_def using lives_clear lives_same by blast

text \<open>The readings of the clock by the cache operations of a run of the program do not go back.\<close>

fun clocked :: "instant \<Rightarrow> 'f Event list \<Rightarrow> bool" where
  "clocked t [] \<longleftrightarrow> True"
| "clocked t (Ev_Query E _ _ # es) \<longleftrightarrow> t \<le> e_get E \<and> clocked (e_get E) es"
| "clocked t (Ev_Answer E _ _ _ # es) \<longleftrightarrow>
     t \<le> e_evict E \<and> e_evict E \<le> e_stamp E \<and> iteration_order (e_iter E) \<and> clocked (e_stamp E) es"
| "clocked t (Ev_Sweep now # es) \<longleftrightarrow> t \<le> now \<and> clocked now es"
| "clocked t (_ # es) \<longleftrightarrow> clocked t es"

lemma program_cache:
  "clocked t es \<Longrightarrow> cache_lives n lo hi t (ap_resolver st) \<Longrightarrow> \<exists>u. cache_lives n lo hi u (ap_resolver (fold netwatch_step es st))"
proof (induction es arbitrary: t st)
  case (Cons e es)
  have later: "\<exists>u. cache_lives n lo hi u (ap_resolver (fold netwatch_step (e # es) st))"
    if "clocked t' es" "cache_lives n lo hi t' (ap_resolver (netwatch_step e st))" for t'
    using Cons.IH [OF that] by simp
  let ?r = "ap_resolver st"
  show ?case
  proof (cases e)
    case (Ev_Http E rq)
    then show ?thesis using later [of t] Cons.prems lives_leaves [OF request_leaves [of st E rq]] by simp
  next
    case (Ev_Refresh env joined)
    then show ?thesis using later [of t] Cons.prems lives_leaves [OF refresh_leaves] by simp
  next
    case (Ev_Query E request client)
    then show ?thesis using later [of "e_get E"] Cons.prems lives_local [of n lo hi t ?r E request client] by simp
  next
    case (Ev_Answer E client p res)
    then show ?thesis using later [of "e_stamp E"] Cons.prems lives_reply [of n lo hi t ?r E client p res] by simp
  next
    case (Ev_Sweep now)
    then show ?thesis using later [of now] Cons.prems lives_sweep [of n lo hi t ?r now] by simp
  next
    case (Ev_Denied c)
    then show ?thesis
      using later [of t] Cons.prems lives_same [of "fst (allows c ?r)" ?r] by (simp add: allows_def)
  next
    case (Ev_Turn w)
    then show ?thesis using later [of t] Cons.prems lives_same [OF turn_fields(8)] by simp
  qed (use later [of t] Cons.prems lives_timeout in \<open>simp_all add: note_defs cache_lives_def\<close>)
qed auto

section \<open>What arrives on the dashboard\<close>

text \<open>A turn of the writer thread whose transaction commits and that no retention pass follows.\<close>

fun plain_write :: "'f Event \<Rightarrow> bool" where
  "plain_write (Ev_Turn (T_Write n ok k now ts last_prune)) \<longleftrightarrow> ok \<and> \<not> from_secs 3600 < duration_since now last_prune"
| "plain_write _ \<longleftrightarrow> False"

lemma plain_write_turn:
  assumes "ap_db st = Some db" "plain_write e" "queue = w_queue (writer_of (ap_resolver st))"
  obtains m where "ap_db (netwatch_step e st) = Some (fold apply_op (take m queue) db)"
    "w_queue (writer_of (ap_resolver (netwatch_step e st))) = drop m queue" "queue \<noteq> [] \<longrightarrow> 0 < m"
proof (cases e rule: plain_write.cases)
  case (1 n ok k now ts last_prune)
  show thesis
  proof (rule that [of "if queue = [] then 0 else min (Suc n) 512"])
    show "ap_db (netwatch_step e st) = Some (fold apply_op (take (if queue = [] then 0 else min (Suc n) 512) queue) db)"
      "w_queue (writer_of (ap_resolver (netwatch_step e st))) = drop (if queue = [] then 0 else min (Suc n) 512) queue"
      using assms 1
      by (auto simp: write_turn_def writer_cycle_def writer_of_def hub_of_def flush_def Let_def)
  qed simp
qed (use assms(2) in simp_all)

lemma writes_drain:
  "ap_db st = Some db \<Longrightarrow> list_all plain_write es \<Longrightarrow> length (w_queue (writer_of (ap_resolver st))) \<le> length es \<Longrightarrow>
     ap_db (fold netwatch_step es st) = Some (fold apply_op (w_queue (writer_of (ap_resolver st))) db)"
proof (induction es arbitrary: st db)
  case (Cons e es)
  let ?q = "w_queue (writer_of (ap_resolver st))"
  obtain m where m: "ap_db (netwatch_step e st) = Some (fold apply_op (take m ?q) db)"
    "w_queue (writer_of (ap_resolver (netwatch_step e st))) = drop m ?q" "?q \<noteq> [] \<longrightarrow> 0 < m"
    using plain_write_turn [OF Cons.prems(1) _ refl, of e] Cons.prems(2) by auto
  have "length (drop m ?q) \<le> length es" using m(3) Cons.prems(3) by (cases "?q = []") auto
  then have "ap_db (fold netwatch_step es (netwatch_step e st)) = Some (fold apply_op (drop m ?q) (fold apply_op (take m ?q) db))"
    using Cons.IH [OF m(1)] Cons.prems(2) m(2) by simp
  then show ?case by (metis append_take_drop_id comp_apply fold_append fold_simps(2))
qed simp

lemma default_queries:
  assumes "rq_method rq = GET" "rq_path rq = ''/api/queries''"
    and "rq_query rq = Some \<lparr>qp_limit = None, qp_offset = None, qp_search = None, qp_client = None, qp_status = None\<rparr>"
    and "ev_cut A = None" "ev_sql A" "ap_db st = Some db"
  shows "re_body (snd (api_request A rq st)) = B_Queries (recent_queries (ev_like A) db
     \<lparr>f_limit = 100, f_offset = 0, f_search = None, f_client = None, f_status = None\<rparr>)"
proof -
  have "find_route readonly rq = Some E_Queries" using assms(1,2) by (simp add: find_route_def readonly_def)
  then show ?thesis
    using assms by (simp add: api_request_def api_queries_def db_handler_def with_db_def deadline_def security_headers_def
        query_filter_def unless_blank_def or_default_def clamp_def Let_def)
qed

definition no_later :: "int \<Rightarrow> WriteOp \<Rightarrow> bool" where
  "no_later t op = (case op of W_Query e \<Rightarrow> qe_ts e \<le> t | _ \<Rightarrow> True)"

lemma queries_after:
  "list_all (no_later t) ops \<Longrightarrow> \<forall>(_, e) \<in> set (t_queries db). qe_ts e \<le> t \<Longrightarrow>
     \<forall>(_, e) \<in> set (t_queries (fold apply_op ops db)). qe_ts e \<le> t"
proof (induction ops arbitrary: db)
  case (Cons op ops)
  then have "\<forall>(_, e) \<in> set (t_queries (apply_op op db)). qe_ts e \<le> t" by (cases op) (auto simp: no_later_def Let_def)
  then show ?case using Cons by simp
qed simp

lemma default_alerts:
  assumes "rq_method rq = GET" "rq_path rq = ''/api/alerts''"
    and "rq_range rq = Some \<lparr>rp_hours = None, rp_limit = None, rp_minutes = None\<rparr>"
    and "ev_cut A = None" "ev_sql A" "ap_db st = Some db"
  shows "re_body (snd (api_request A rq st)) = B_Alerts (recent_alerts 50 db)"
proof -
  have "find_route readonly rq = Some E_Alerts" using assms(1,2) by (simp add: find_route_def readonly_def)
  then show ?thesis
    using assms by (simp add: api_request_def api_alerts_def with_range_def db_handler_def with_db_def deadline_def
        security_headers_def or_default_def clamp_def Let_def)
qed

definition no_later_alert :: "int \<Rightarrow> WriteOp \<Rightarrow> bool" where
  "no_later_alert t op = (case op of W_Alert a \<Rightarrow> ao_ts a \<le> t | _ \<Rightarrow> True)"

lemma alerts_after:
  "list_all (no_later_alert t) ops \<Longrightarrow> \<forall>(_, a) \<in> set (t_alerts db). ao_ts a \<le> t \<Longrightarrow>
     \<forall>(_, a) \<in> set (t_alerts (fold apply_op ops db)). ao_ts a \<le> t"
proof (induction ops arbitrary: db)
  case (Cons op ops)
  then have "\<forall>(_, a) \<in> set (t_alerts (apply_op op db)). ao_ts a \<le> t" by (cases op) (auto simp: no_later_alert_def Let_def)
  then show ?case using Cons by simp
qed simp

end
