(* ===== verification/Policy_Edits.thy ===== *)
theory Policy_Edits
  imports Api
begin

text \<open>
  The list edits of \<open>src/api.rs\<close> seen from the specification of \<open>Blocklist_Spec\<close>: adding a domain to one of
  the manual lists adds one rule to the set of rules the lists describe, so a request that blocks or allows
  a domain changes the decision about that one name and about no other. And what a reload leaves behind
  that the request deadline cuts off.
\<close>

section \<open>Rules of an edited file\<close>

lemma domain_line_rules:
  assumes "valid_domain d" "d \<noteq> ''0.0.0.0.0''" "trim l = d"
  shows "line_rules al l = {if al then Allow_Name d else Deny_Name d}"
proof -
  have "x \<notin> set l" if "x = CHR ''#'' \<or> x = CHR ''!''" for x
    using kept_when_trimmed [OF that] assms(3) valid_domain_no [OF assms(1)] that by auto
  then have w: "takeWhile (\<lambda>c. c \<noteq> CHR ''#'' \<and> c \<noteq> CHR ''!'') l = l" by (auto simp: takeWhile_eq_all_conv)
  have "strip_comment l = d" unfolding strip_comment_def by (simp add: w assms(3))
  moreover have "split_whitespace d = [d]" "d \<noteq> []"
    using valid_domain_graphic [OF assms(1)] assms(1) split_whitespace_graphic [of d] by (auto simp: valid_domain_def)
  ultimately show ?thesis
    using assms(1,2) by (simp add: line_rules_def parse_adblock_domain not_hosts entry_rules_def normalize_exact_valid)
qed

lemma file_rules_text: "utf8_valid (map ch (file_text files p)) \<Longrightarrow> file_rules files al p = text_rules al (file_text files p)"
  by (auto simp: file_rules_def read_file_def file_text_def text_rules_def lines_def split: option.splits)

lemma appended_rules:
  assumes "valid_domain (manual_line d)" "manual_line d \<noteq> ''0.0.0.0.0''" "complete_lines (file_text files p)"
    "append_manual True p d files = (files', ok)"
  shows "file_rules files' al q =
    (if q = p then insert (if al then Allow_Name (manual_line d) else Deny_Name (manual_line d)) (file_rules files al p)
     else file_rules files al q)"
proof -
  let ?d = "manual_line d"
  have n: "normalize ?d = Some (Exact ?d)" using normalize_exact_valid [OF assms(1)] .
  note a = append_manual_adds_line [OF _ _ assms(4)]
  have f: "lines (file_text files' p) = (if list_ex (\<lambda>l. trim l = ?d) (lines (file_text files p)) then lines (file_text files p)
        else lines (file_text files p) @ [?d])" "utf8_valid (map ch (file_text files' p))"
      "q \<noteq> p \<Longrightarrow> hm_get files' q = hm_get files q"
    using a assms(3) n by (auto simp: complete_lines_def is_valid_domain_def normalize_manual_line)
  have "trim ?d = ?d" using manual_line_ok [of d] n by simp
  then have "text_rules al (file_text files' p) =
      insert (if al then Allow_Name ?d else Deny_Name ?d) (text_rules al (file_text files p))"
    using domain_line_rules [OF assms(1,2)] by (auto simp: text_rules_def f(1) list_ex_iff)
  then have "file_rules files' al p = insert (if al then Allow_Name ?d else Deny_Name ?d) (file_rules files al p)"
    using f(2) assms(3) by (simp add: file_rules_text complete_lines_def)
  then show ?thesis using f(3) by (auto simp: file_rules_def read_file_def)
qed

lemma manual_paths_differ: "manual_deny_path cfg \<noteq> manual_allow_path cfg"
  by (simp add: manual_deny_path_def manual_allow_path_def path_join_def)

lemma deny_adds_rule:
  assumes "b_enabled (blocking cfg)" "valid_domain (manual_line d)" "manual_line d \<noteq> ''0.0.0.0.0''"
    "complete_lines (file_text files (manual_deny_path cfg))"
    "append_manual True (manual_deny_path cfg) d files = (files', ok)"
  shows "listed_rules cfg files' = insert (Deny_Name (manual_line d)) (listed_rules cfg files)"
  using assms(1) manual_paths_differ [of cfg] by (auto simp: listed_rules_def appended_rules [OF assms(2-5)] split: if_splits)

lemma allow_adds_rule:
  assumes "b_enabled (blocking cfg)" "valid_domain (manual_line d)" "manual_line d \<noteq> ''0.0.0.0.0''"
    "complete_lines (file_text files (manual_allow_path cfg))" "manual_allow_path cfg \<notin> set (b_files (blocking cfg))"
    "append_manual True (manual_allow_path cfg) d files = (files', ok)"
  shows "listed_rules cfg files' = insert (Allow_Name (manual_line d)) (listed_rules cfg files)"
proof -
  let ?S = "cached_list_path cfg ` set (b_sources (blocking cfg)) \<union> set (b_files (blocking cfg)) \<union> {manual_deny_path cfg}"
  have "manual_allow_path cfg \<notin> ?S"
    using cached_list_path_confined [of cfg] assms(5) manual_paths_differ [of cfg] by (auto simp: image_iff) metis
  then have "file_rules files' False ` ?S = file_rules files False ` ?S"
    by (intro image_cong refl) (auto simp: appended_rules [OF assms(2-4,6)])
  then show ?thesis
    using assms(1) by (simp add: listed_rules_def appended_rules [OF assms(2-4,6)])
qed

text \<open>Removing a domain drops lines that name it and no other rule.\<close>

lemma utf8_low: "c < 128 \<Longrightarrow> utf8_valid (c # b) = utf8_valid b"
  by simp

lemma utf8_split: "utf8_valid (a @ c # b) \<Longrightarrow> c < 128 \<Longrightarrow> utf8_valid a \<and> utf8_valid b"
proof (induction a rule: length_induct)
  case (1 a)
  have IH: "utf8_valid (a' @ c # b) \<Longrightarrow> utf8_valid a' \<and> utf8_valid b" if "length a' < length a" for a'
    using "1.IH" that "1.prems"(2) by blast
  have c: "\<not> utf8_cont c" "utf8_valid (c # b) = utf8_valid b" using "1.prems"(2) by (auto simp: utf8_cont_def)
  show ?case
  proof (cases a)
    case Nil
    then show ?thesis using "1.prems"(1) c by simp
  next
    case (Cons x s)
    note head = utf8_valid.simps(2) [of x]
    show ?thesis
    proof (cases "x < 128")
      case True
      then show ?thesis using "1.prems"(1) IH [of s] Cons by (simp add: utf8_low del: utf8_valid.simps(2))
    next
      case False
      have v: "utf8_valid (x # s @ c # b)" using "1.prems"(1) Cons by simp
      have IHs: "utf8_valid (s' @ c # b) \<Longrightarrow> utf8_valid s' \<and> utf8_valid b" if "length s' \<le> length s" for s'
        using IH [of s'] that Cons by simp
      show ?thesis
      proof (cases s)
        case Nil
        then show ?thesis using v False c(1) Cons
          by (simp only: append.simps head list.case) (auto split: if_splits list.splits simp del: utf8_valid.simps(2))
      next
        case s: (Cons y s2)
        show ?thesis
        proof (cases s2)
          case Nil
          then show ?thesis using v False c IHs [of "[]"] Cons s
            by (simp only: append.simps head list.case) (auto split: if_splits list.splits simp del: utf8_valid.simps(2))
        next
          case s2: (Cons z s3)
          have IH2: "utf8_valid (z # s3 @ c # b) \<Longrightarrow> utf8_valid (z # s3) \<and> utf8_valid b" using IHs [of s2] s s2 by simp
          have IH3: "utf8_valid (s3 @ c # b) \<Longrightarrow> utf8_valid s3 \<and> utf8_valid b" using IHs [of s3] s s2 by simp
          show ?thesis
          proof (cases s3)
            case Nil
            show ?thesis using v False c IH2 IH3 unfolding Cons s s2 Nil append.simps head list.case
              by (auto split: if_splits list.splits simp del: utf8_valid.simps(2))
          next
            case s3: (Cons w s4)
            have IH4: "utf8_valid (s4 @ c # b) \<Longrightarrow> utf8_valid s4 \<and> utf8_valid b" using IHs [of s4] s s2 s3 by simp
            show ?thesis using v False c IH2 IH3 IH4 unfolding Cons s s2 s3 append.simps head list.case
              by (auto split: if_splits simp del: utf8_valid.simps(2))
          qed
        qed
      qed
    qed
  qed
qed

lemma utf8_pieces: "utf8_valid (map ch s) \<Longrightarrow> l \<in> set (split_on CHR 0x0A s) \<Longrightarrow> utf8_valid (map ch l)"
proof (induction s rule: length_induct)
  case (1 s)
  show ?case
  proof (cases "CHR 0x0A \<in> set s")
    case False
    then show ?thesis using 1 by (simp add: split_on_single)
  next
    case True
    then obtain a b where s: "s = a @ CHR 0x0A # b" "CHR 0x0A \<notin> set a" by (metis split_list_first)
    then have "utf8_valid (map ch a)" "utf8_valid (map ch b)"
      using utf8_split [of "map ch a" 10 "map ch b"] "1.prems"(1) by auto
    then show ?thesis using "1.IH" [rule_format, of b] "1.prems"(2) s by (auto simp: split_on_append)
  qed
qed

lemma utf8_join: "list_all (\<lambda>l. utf8_valid (map ch l)) ps \<Longrightarrow> utf8_valid (map ch (join [CHR 0x0A] ps))"
  by (induction "[CHR 0x0A]" ps rule: join.induct) (auto intro!: utf8_append)

lemma removed_rules:
  fixes al :: bool
  assumes "valid_domain (manual_line d)" "manual_line d \<noteq> ''0.0.0.0.0''" "utf8_valid (map ch (file_text files p))"
    "CHR 0x0D \<notin> set (file_text files p)" "remove_manual True p d files = (files', ok)"
  defines "rule \<equiv> (if al then Allow_Name (manual_line d) else Deny_Name (manual_line d))"
  shows "insert rule (file_rules files' al q) = insert rule (file_rules files al q)"
    "q \<noteq> p \<Longrightarrow> file_rules files' al q = file_rules files al q"
proof -
  show o: "file_rules files' al q = file_rules files al q" if "q \<noteq> p" for q
    using that assms(5) by (auto simp: file_rules_def read_file_def hm_simps remove_manual_def Let_def split: option.splits if_splits)
  show "insert rule (file_rules files' al q) = insert rule (file_rules files al q)"
  proof (cases "read_file files p")
    case None
    then show ?thesis using assms(5) by (auto simp: remove_manual_def)
  next
    case (Some old)
    then have old: "old = file_text files p" by (auto simp: read_file_def file_text_def split: option.splits if_splits)
    define kept where "kept = filter (\<lambda>l. trim l \<noteq> manual_line d) (lines old)"
    note r = remove_manual_removes_line [OF Some _ assms(5)]
    have f: "files' = hm_insert p (join [CHR 0x0A] kept @ [CHR 0x0A]) files"
      using assms(5) Some by (auto simp: remove_manual_def Let_def kept_def manual_line_def)
    have "utf8_valid (map ch l)" if "l \<in> set kept" for l
      using that utf8_pieces [of old l] lines_subset [of old l] assms(3,4) by (auto simp: kept_def old)
    then have u: "utf8_valid (map ch (file_text files' p))"
      using utf8_append [OF utf8_join [of kept], of "[10]"] by (simp add: f list_all_iff)
    have e: "line_rules al [] = {}" by (simp add: line_rules_def strip_comment_def trim_def)
    have t: "text_rules al s = \<Union> (line_rules al ` set (filter (\<lambda>l. l \<noteq> []) (lines s)))" for s
      using e by (auto simp: text_rules_def)
    have "insert rule (text_rules al (file_text files' p)) = insert rule (text_rules al old)"
      unfolding t using r domain_line_rules [OF assms(1,2)] assms(4)
      by (auto simp: old rule_def)
    then have "insert rule (file_rules files' al p) = insert rule (file_rules files al p)"
      using u assms(3) by (simp add: file_rules_text old)
    then show ?thesis using o by (cases "q = p") simp_all
  qed
qed

lemma insert_in_both: "insert x (A \<union> B) = insert x A \<union> insert x B"
  by auto

lemma deny_removes_rule:
  assumes "valid_domain (manual_line d)" "manual_line d \<noteq> ''0.0.0.0.0''"
    "utf8_valid (map ch (file_text files (manual_deny_path cfg)))" "CHR 0x0D \<notin> set (file_text files (manual_deny_path cfg))"
    "remove_manual True (manual_deny_path cfg) d files = (files', ok)"
  shows "insert (Deny_Name (manual_line d)) (listed_rules cfg files') = insert (Deny_Name (manual_line d)) (listed_rules cfg files)"
proof -
  have "insert (Deny_Name (manual_line d)) (\<Union> (file_rules files' False ` S)) = insert (Deny_Name (manual_line d)) (\<Union> (file_rules files False ` S))" for S
    using removed_rules(1) [OF assms, of False] by auto
  moreover have "file_rules files' True (manual_allow_path cfg) = file_rules files True (manual_allow_path cfg)"
    using removed_rules(2) [OF assms] manual_paths_differ [of cfg] by metis
  ultimately show ?thesis by (simp only: listed_rules_def insert_in_both split: if_split) simp
qed

lemma allow_removes_rule:
  assumes "valid_domain (manual_line d)" "manual_line d \<noteq> ''0.0.0.0.0''"
    "utf8_valid (map ch (file_text files (manual_allow_path cfg)))" "CHR 0x0D \<notin> set (file_text files (manual_allow_path cfg))"
    "remove_manual True (manual_allow_path cfg) d files = (files', ok)" "manual_allow_path cfg \<notin> set (b_files (blocking cfg))"
  shows "insert (Allow_Name (manual_line d)) (listed_rules cfg files') = insert (Allow_Name (manual_line d)) (listed_rules cfg files)"
proof -
  let ?S = "cached_list_path cfg ` set (b_sources (blocking cfg)) \<union> set (b_files (blocking cfg)) \<union> {manual_deny_path cfg}"
  have "manual_allow_path cfg \<notin> ?S"
    using cached_list_path_confined [of cfg] assms(6) manual_paths_differ [of cfg] by (auto simp: image_iff) metis
  then have "file_rules files' False ` ?S = file_rules files False ` ?S"
    using removed_rules(2) [OF assms(1-5)] by (intro image_cong refl) metis
  moreover have "insert (Allow_Name (manual_line d)) (file_rules files' True (manual_allow_path cfg)) =
      insert (Allow_Name (manual_line d)) (file_rules files True (manual_allow_path cfg))"
    using removed_rules(1) [OF assms(1-5), of True] by simp
  ultimately show ?thesis by (simp only: listed_rules_def insert_in_both split: if_split) simp
qed

text \<open>What the new rule changes.\<close>

lemma denied_insert:
  "denied (insert (Deny_Name d) R) x \<longleftrightarrow> denied R x \<or> x = d \<and> Allow_Name x \<notin> R \<and> \<not> (\<exists>r. covers r x \<and> Allow_Zone r \<in> R)"
  "denied (insert (Allow_Name d) R) x \<longleftrightarrow> denied R x \<and> x \<noteq> d"
  by (auto simp: denied_def)

lemma is_allowed_rules: "is_allowed bl x \<longleftrightarrow> Allow_Name x \<in> rules_of bl \<or> (\<exists>r. covers r x \<and> Allow_Zone r \<in> rules_of bl)"
  by (auto simp: is_allowed_iff rules_of_def)

section \<open>The edits\<close>

lemma edit_result:
  assumes "in_sync st" "ev_cut E = None" "ev_build E" "is_valid_domain d"
    "change (ev_write E) (list_path (ap_cfg st)) d (ap_files st) = (files, True)"
  shows "rs_blocklist (ap_resolver (fst (edit_list E change list_path (Some d) st))) = Some (build (ap_cfg st) files)"
  using assms rebuild_ok [OF assms(3), of "st\<lparr>ap_files := files\<rparr>"]
  by (simp add: edit_list_def in_sync_def)

text \<open>
  C5. An edit from the dashboard changes the decision about one name and about no other: whatever the
  lists contain, when the two manual lists are text files of complete lines without carriage returns (and
  the allow list is not also configured as a block list), then after \<open>POST /api/deny\<close> the blocked names are
  those that were blocked before and the domain, unless an allow rule covers it; after \<open>POST /api/allow\<close>
  they are those that were blocked before without the domain; and after \<open>DELETE\<close> of a domain from either
  list every other name is blocked exactly when it was before.
\<close>

theorem edit_changes_one_name:
  assumes "in_sync st" "ev_cut E = None" "ev_write E" "ev_build E" "b_enabled (blocking (ap_cfg st))"
    and "valid_domain (manual_line d)" "manual_line d \<noteq> ''0.0.0.0.0''"
    and deny: "complete_lines (file_text (ap_files st) (manual_deny_path (ap_cfg st)))"
      "CHR 0x0D \<notin> set (file_text (ap_files st) (manual_deny_path (ap_cfg st)))"
    and allow: "complete_lines (file_text (ap_files st) (manual_allow_path (ap_cfg st)))"
      "CHR 0x0D \<notin> set (file_text (ap_files st) (manual_allow_path (ap_cfg st)))"
      "manual_allow_path (ap_cfg st) \<notin> set (b_files (blocking (ap_cfg st)))"
  defines "blocked s x \<equiv> (\<exists>bl. rs_blocklist (ap_resolver s) = Some bl \<and> lookup bl x \<noteq> None)"
    and "exempt x \<equiv> (\<exists>bl. rs_blocklist (ap_resolver st) = Some bl \<and> is_allowed bl x)"
  shows "(blocked (fst (add_deny E (Some d) st)) x \<longleftrightarrow> blocked st x \<or> x = manual_line d \<and> \<not> exempt x) \<and>
    (blocked (fst (api_add_allow E (Some d) st)) x \<longleftrightarrow> blocked st x \<and> x \<noteq> manual_line d) \<and>
    (x \<noteq> manual_line d \<longrightarrow>
       blocked (fst (remove_deny E (Some d) st)) x = blocked st x \<and> blocked (fst (remove_allow E (Some d) st)) x = blocked st x)"
proof -
  let ?cfg = "ap_cfg st" and ?R = "listed_rules (ap_cfg st) (ap_files st)"
  have n: "normalize (manual_line d) = Some (Exact (manual_line d))" using normalize_exact_valid [OF assms(6)] .
  then have v: "is_valid_domain d" by (simp add: is_valid_domain_def normalize_manual_line)
  have old: "blocked st x = denied ?R x" "exempt x \<longleftrightarrow> Allow_Name x \<in> ?R \<or> (\<exists>r. covers r x \<and> Allow_Zone r \<in> ?R)"
    using assms(1) lookup_denied [of "build ?cfg (ap_files st)"]
    by (auto simp: blocked_def exempt_def in_sync_def build_rules is_allowed_rules)
  have edit: "blocked (fst (edit_list E change list_path (Some d) st)) x = denied (listed_rules ?cfg files) x"
    if "change True (list_path ?cfg) d (ap_files st) = (files, True)" for change list_path files
    using edit_result [OF assms(1,2,4) v, of change list_path files] that assms(3) lookup_denied [of "build ?cfg files" x]
    by (auto simp: blocked_def build_rules)
  obtain fd okd where d: "append_manual True (manual_deny_path ?cfg) d (ap_files st) = (fd, okd)" by fastforce
  obtain fa oka where a: "append_manual True (manual_allow_path ?cfg) d (ap_files st) = (fa, oka)" by fastforce
  obtain gd where rd: "remove_manual True (manual_deny_path ?cfg) d (ap_files st) = (gd, True)"
    by (cases "read_file (ap_files st) (manual_deny_path ?cfg)") (simp_all add: remove_manual_def Let_def)
  obtain ga where ra: "remove_manual True (manual_allow_path ?cfg) d (ap_files st) = (ga, True)"
    by (cases "read_file (ap_files st) (manual_allow_path ?cfg)") (simp_all add: remove_manual_def Let_def)
  have ok: "okd" "oka"
    using append_manual_adds_line [OF _ _ d] append_manual_adds_line [OF _ _ a] deny(1) allow(1) n
    by (auto simp: complete_lines_def is_valid_domain_def normalize_manual_line)
  have "denied (listed_rules ?cfg gd) x = denied ?R x" if "x \<noteq> manual_line d"
    using denied_insert(1) [of "manual_line d" _ x] that deny_removes_rule [OF assms(6,7) _ deny(2) rd] deny(1)
    by (metis complete_lines_def)
  moreover have "denied (listed_rules ?cfg ga) x = denied ?R x" if "x \<noteq> manual_line d"
    using denied_insert(2) [of "manual_line d" _ x] that allow_removes_rule [OF assms(6,7) _ allow(2) ra allow(3)] allow(1)
    by (metis complete_lines_def)
  ultimately show ?thesis
    using edit [of append_manual manual_deny_path] edit [of append_manual manual_allow_path]
      edit [of remove_manual manual_deny_path] edit [of remove_manual manual_allow_path] d a rd ra ok old
    by (auto simp: add_deny_def api_add_allow_def remove_deny_def remove_allow_def denied_insert
        deny_adds_rule [OF assms(5-7) deny(1) d] allow_adds_rule [OF assms(5-7) allow(1,3) a])
qed

section \<open>A reload that is cut off\<close>

lemma deadline_cut_at:
  assumes "sum_list xs \<le> HTTP_TIMEOUT" "HTTP_TIMEOUT < sum_list xs + y"
  shows "deadline_cut (xs @ y # ys) = Some (length xs)"
proof -
  have "sum_list (take n xs) \<le> sum_list xs" for n
    by (metis append_take_drop_id le_add1 sum_list_append)
  then have "\<not> HTTP_TIMEOUT < sum_list (take (Suc n) (xs @ y # ys))" if "n < length xs" for n
    using assms(1) that by (simp add: not_less) (meson order_trans)
  then have none: "List.find (\<lambda>n. HTTP_TIMEOUT < sum_list (take (Suc n) (xs @ y # ys))) [0..<length xs] = None"
    by (auto simp: find_None_iff)
  have upt: "[0..<length (xs @ y # ys)] = [0..<length xs] @ length xs # [Suc (length xs)..<length (xs @ y # ys)]"
    using upt_add_eq_append [of 0 "length xs" "Suc (length ys)"] upt_conv_Cons [of "length xs" "length (xs @ y # ys)"] by simp
  have "List.find P (as @ b # cs) = Some b" if "List.find P as = None" "P b" for P and as cs :: "nat list" and b
    using that by (induction as) (auto split: if_splits)
  then show ?thesis using none assms(2) unfolding deadline_cut_def upt by simp
qed

lemma fetched_file:
  assumes "env_reply env url = Some resp" "http_success resp" "http_length resp = None"
    and "read_body [] (http_chunks resp) = Inr body" "body \<noteq> []" "env_write env url" "env_rename env url"
  shows "snd (snd (refresh_one cfg env url (out, health, files))) = hm_insert (cached_list_path cfg url) body files"
  using assms by (simp add: refresh_one_def fetch_one_def Let_def)

text \<open>
  C37. A reload that runs into the request deadline leaves the resolver out of step with its own lists. Let
  the downloads before that of \<open>slow\<close> fit into the thirty seconds of the deadline and the download of \<open>slow\<close>
  not, and let the list downloaded just before it name a domain that the matcher in use neither blocks nor
  allows. Then the request is answered 504, the refresh lock is free again, a matcher built from the lists
  now on disk would block the domain (unless the lists now have an allow rule for it), and the matcher in
  use, which is no longer the one the lists describe, does not block it.
\<close>

theorem slow_reload_out_of_step:
  fixes wait :: "string \<Rightarrow> duration"
  assumes "rq_method rq = POST" "rq_path rq = ''/api/reload''" "admitted rq st" "\<not> ap_refreshing st"
    and "dir_ok (ev_refresh E)" "client_ok (ev_refresh E)" "b_enabled (blocking (ap_cfg st))" "in_sync st"
    and sources: "b_sources (blocking (ap_cfg st)) = before @ url # slow # rest"
    and "ev_cut E = deadline_cut (map wait (b_sources (blocking (ap_cfg st))) @ [build_wait])"
      "sum_list (map wait (before @ [url])) \<le> HTTP_TIMEOUT" "HTTP_TIMEOUT < sum_list (map wait (before @ [url, slow]))"
    and fetched: "env_reply (ev_refresh E) url = Some resp" "http_success resp" "http_length resp = None"
      "read_body [] (http_chunks resp) = Inr body" "env_write (ev_refresh E) url" "env_rename (ev_refresh E) url"
    and listed: "utf8_valid (map ch body)" "list_ex (\<lambda>l. trim l = d) (lines body)" "valid_domain d" "d \<noteq> ''0.0.0.0.0''"
    and new: "rs_blocklist (ap_resolver st) = Some bl" "lookup bl d = None" "\<not> is_allowed bl d"
  defines "after \<equiv> fst (api_request E rq st)"
  shows "re_status (snd (api_request E rq st)) = 504 \<and> \<not> ap_refreshing after \<and>
    blocked_by (ap_resolver after) d = None \<and>
    (lookup (build (ap_cfg after) (ap_files after)) d \<noteq> None \<or> is_allowed (build (ap_cfg after) (ap_files after)) d) \<and>
    \<not> in_sync after"
proof -
  let ?cfg = "ap_cfg st" and ?env = "ev_refresh E" and ?n = "length before + 1"
  have cut: "ev_cut E = Some ?n"
    using deadline_cut_at [of "map wait (before @ [url])" "wait slow" "map wait rest @ [build_wait]"] assms(10-12)
    by (simp add: sources add.assoc)
  obtain out health files where f: "fold (refresh_one ?cfg ?env) before (RefreshOutcome_default, ap_health st, ap_files st) =
      (out, health, files)" by (metis prod.collapse)
  have nonempty: "body \<noteq> []" using listed(2) by (auto simp: lines_def)
  let ?files = "hm_insert (cached_list_path ?cfg url) body files"
  note fetched_file [OF fetched(1-4) nonempty fetched(5,6), of ?cfg out health files]
  moreover have "?n < length (b_sources (blocking ?cfg))" "take ?n (b_sources (blocking ?cfg)) = before @ [url]"
    by (simp_all add: sources)
  moreover have "api_request E rq st = (after, snd (api_request E rq st))" by (simp add: after_def)
  ultimately have r: "re_status (snd (api_request E rq st)) = 504" "ap_resolver after = ap_resolver st" "ap_cfg after = ?cfg"
      "\<not> ap_refreshing after" "ap_files after = ?files"
    using slow_reload_not_installed [OF assms(1-6) cut] f by simp_all
  have "Deny_Name d \<in> file_rules ?files False (cached_list_path ?cfg url)"
    using listed domain_line_rules [OF listed(3,4)] nonempty
    by (fastforce simp: file_rules_def read_file_def text_rules_def list_ex_iff hm_simps)
  then have "Deny_Name d \<in> rules_of (build ?cfg ?files)"
    using assms(7) by (auto simp: build_rules listed_rules_def sources)
  moreover have "lookup (build ?cfg ?files) d \<noteq> None \<or> is_allowed (build ?cfg ?files) d"
    if "Deny_Name d \<in> rules_of (build ?cfg ?files)"
    using that unfolding lookup_denied is_allowed_rules denied_def by blast
  moreover have "Deny_Name d \<notin> rules_of bl"
    using new(2,3) lookup_denied [of bl d] unfolding is_allowed_rules denied_def by blast
  ultimately show ?thesis
    using r new(1,2) by (auto simp: in_sync_def blocked_by_def)
qed

lemma build_no_files: "build cfg [] = Blocklist_default"
proof -
  have "fold (build_source cfg []) us bl = bl" "fold (\<lambda>file bl. fst (ingest_file [] file False bl)) us bl = bl" for us bl
    by (induction us arbitrary: bl) (simp_all add: build_source_def ingest_file_def read_file_def hm_simps)
  then show ?thesis by (simp add: build_def ingest_file_def read_file_def hm_simps)
qed

lemma demo_in_sync: "in_sync demo_state" "b_enabled (blocking (ap_cfg demo_state))"
    "manual_allow_path (ap_cfg demo_state) \<notin> set (b_files (blocking (ap_cfg demo_state)))"
    "file_text (ap_files demo_state) p = []" "complete_lines []" "rs_blocklist (ap_resolver demo_state) = Some Blocklist_default"
  by (simp_all add: in_sync_def demo_state_def resolver_new_def build_no_files demo_config_def Config_default_def
      BlockingConfig_default_def file_text_def hm_simps complete_lines_def)

theorem edit_changes_one_name_witness:
  "(\<exists>bl. rs_blocklist (ap_resolver (fst (add_deny (demo_api None) (Some '' Tracker.Example'') demo_state))) = Some bl \<and>
      lookup bl ''tracker.example'' \<noteq> None) \<and>
   \<not> (\<exists>bl. rs_blocklist (ap_resolver (fst (add_deny (demo_api None) (Some '' Tracker.Example'') demo_state))) = Some bl \<and>
      lookup bl ''other.example'' \<noteq> None)"
proof -
  have e: "ev_cut (demo_api None) = None" "ev_write (demo_api None)" "ev_build (demo_api None)" by (simp_all add: demo_api_def)
  have a: "\<not> is_allowed Blocklist_default x" and b: "lookup Blocklist_default x = None" for x
    using lookup_denied [of Blocklist_default x]
    by (simp_all add: is_allowed_rules rules_of_def Blocklist_default_def hm_simps denied_def del: not_None_eq)
  have d: "valid_domain (manual_line '' Tracker.Example'')" "manual_line '' Tracker.Example'' \<noteq> ''0.0.0.0.0''"
    using demo_domain by (simp_all add: demo_manual_line)
  note c = edit_changes_one_name [OF demo_in_sync(1) e demo_in_sync(2) d]
  show ?thesis
    using c [of "''tracker.example''"] c [of "''other.example''"] demo_in_sync(3-6) a b
    by (simp add: demo_manual_line)
qed

definition two_sources :: AppState where
  "two_sources = demo_state\<lparr>ap_cfg := demo_config\<lparr>blocking := (blocking demo_config)\<lparr>b_sources := [''a'', ''b'']\<rparr>\<rparr>\<rparr>"

text \<open>The first list arrives in one second, the second would take two minutes.\<close>

definition demo_wait :: "string \<Rightarrow> duration" where
  "demo_wait url = from_secs (if url = ''a'' then 1 else 120)"

theorem slow_reload_out_of_step_witness:
  "let E = demo_api (deadline_cut [from_secs 1, from_secs 120, 0]);
       st = fst (api_request E (demo_post ''/api/reload'' (Some ''Bearer 0123456789abcdef'')) two_sources)
   in in_sync two_sources \<and> \<not> in_sync st \<and> blocked_by (ap_resolver st) ''tracker.example'' = None"
proof -
  let ?rq = "demo_post ''/api/reload'' (Some ''Bearer 0123456789abcdef'')"
    and ?E = "demo_api (deadline_cut [from_secs 1, from_secs 120, 0])"
    and ?resp = "\<lparr>http_success = True, http_length = None, http_chunks = [Some ''tracker.example'']\<rparr>"
  have "rq_method ?rq = POST" "rq_path ?rq = ''/api/reload''" "admitted ?rq two_sources" "\<not> ap_refreshing two_sources"
    by (simp_all add: admitted_def two_sources_def demo_config_def demo_state_def demo_post_def)
  moreover have "dir_ok (ev_refresh ?E)" "client_ok (ev_refresh ?E)" "env_reply (ev_refresh ?E) ''a'' = Some ?resp"
      "env_write (ev_refresh ?E) ''a''" "env_rename (ev_refresh ?E) ''a''"
    by (simp_all add: demo_api_def demo_refresh_env_def)
  moreover have sync: "b_enabled (blocking (ap_cfg two_sources))" "in_sync two_sources"
      "rs_blocklist (ap_resolver two_sources) = Some Blocklist_default"
    using demo_in_sync(1,2,6) by (simp_all add: two_sources_def in_sync_def demo_state_def build_no_files demo_config_def)
  moreover have "b_sources (blocking (ap_cfg two_sources)) = [] @ ''a'' # ''b'' # []" by (simp add: two_sources_def)
  moreover have "ev_cut ?E = deadline_cut (map demo_wait (b_sources (blocking (ap_cfg two_sources))) @ [0])"
    by (simp add: demo_api_def demo_wait_def two_sources_def)
  moreover have "sum_list (map demo_wait ([] @ [''a''])) \<le> HTTP_TIMEOUT" "HTTP_TIMEOUT < sum_list (map demo_wait ([] @ [''a'', ''b'']))"
    by (simp_all add: demo_wait_def HTTP_TIMEOUT_def from_secs_def)
  moreover have "read_body [] [Some ''tracker.example''] = Inr ''tracker.example''" by (simp add: MAX_LIST_BYTES_def)
  moreover have "utf8_valid (map ch ''tracker.example'')" "list_ex (\<lambda>l. trim l = ''tracker.example'') (lines ''tracker.example'')"
    by (simp_all add: lines_def strip_cr_def trim_graphic graphic_def)
  moreover have "lookup Blocklist_default x = None" "\<not> is_allowed Blocklist_default x" for x
    using lookup_denied [of Blocklist_default x]
    by (simp_all add: is_allowed_rules rules_of_def Blocklist_default_def hm_simps denied_def del: not_None_eq)
  ultimately show ?thesis
    using slow_reload_out_of_step [of ?rq two_sources ?E "[]" "''a''" "''b''" "[]" demo_wait 0 ?resp "''tracker.example''"
        "''tracker.example''" Blocklist_default] demo_domain
    by (simp add: Let_def)
qed

end
