(* ===== verification/Interleaving.thy ===== *)
theory Interleaving
  imports Running Policy_Edits
begin

text \<open>
  The tasks that change the lists, interleaved (\<open>rebuild\<close> and the list handlers of \<open>src/api.rs\<close>, the
  scheduled refresh of \<open>src/main.rs\<close>, \<open>remove_manual\<close> of \<open>src/blocklist.rs\<close>). \<open>Api\<close> and \<open>Running\<close> take a
  request as one step; here it is the parts between which other tasks run: the list files are changed,
  the matcher is built on the blocking pool, the matcher is installed. A part is atomic: a build reads
  all the files at one moment, and a refresh does its downloads at one moment.
  Shown: the parts run one after the other are the handlers of \<open>Api\<close>; one refresh at a time; when the
  matchers are installed in the order they were built, the one in use ends up describing the files; when
  they are not, an edit that was answered is undone; a removal that overlaps an addition undoes it even
  when they are. \<open>Lasting_Block\<close> has what holds in spite of this.
\<close>

section \<open>Parts and their interleaving\<close>

text \<open>A task that has changed the lists and has its matcher still to build or to install: a list handler,
  or a refresh, which holds the refresh lock until it ends.\<close>

datatype Rebuilder = By_Edit | By_Refresh

record Tasks =
  tk_app :: AppState
  tk_removing :: "(path \<times> string) list"
  tk_waiting :: "Rebuilder list"
  tk_built :: "(Rebuilder \<times> Blocklist) list"

definition manual_path :: "bool \<Rightarrow> Config \<Rightarrow> path" where
  "manual_path on_allow = (if on_allow then manual_allow_path else manual_deny_path)"

text \<open>\<open>add_deny\<close> and \<open>add_allow\<close> up to the rebuild.\<close>

definition begin_append :: "bool \<Rightarrow> bool \<Rightarrow> string \<Rightarrow> Tasks \<Rightarrow> Tasks" where
  "begin_append on_allow wr domain s =
     (let st = tk_app s in
      if \<not> is_valid_domain domain then s
      else case append_manual wr (manual_path on_allow (ap_cfg st)) domain (ap_files st) of
        (files, ok) \<Rightarrow>
          if \<not> ok then s\<lparr>tk_app := st\<lparr>ap_files := files\<rparr>\<rparr>
          else s\<lparr>tk_app := st\<lparr>ap_files := files\<rparr>, tk_waiting := tk_waiting s @ [By_Edit]\<rparr>)"

text \<open>\<open>remove_deny\<close> and \<open>remove_allow\<close> up to the moment \<open>remove_manual\<close> has computed the text to write, and
  from there to the rebuild.\<close>

definition read_removal :: "bool \<Rightarrow> string \<Rightarrow> Tasks \<Rightarrow> Tasks" where
  "read_removal on_allow body s =
     (let p = manual_path on_allow (ap_cfg (tk_app s)); domain = to_ascii_lowercase (trim body) in
      if \<not> is_valid_domain body then s
      else case read_file (ap_files (tk_app s)) p of
        None \<Rightarrow> s\<lparr>tk_waiting := tk_waiting s @ [By_Edit]\<rparr>
      | Some existing \<Rightarrow>
          let kept = filter (\<lambda>l. trim l \<noteq> domain) (lines existing)
          in s\<lparr>tk_removing := tk_removing s @ [(p, join [CHR 0x0A] kept @ [CHR 0x0A])]\<rparr>)"

definition write_removal :: "bool \<Rightarrow> nat \<Rightarrow> Tasks \<Rightarrow> Tasks" where
  "write_removal wr i s =
     (if length (tk_removing s) \<le> i then s
      else case tk_removing s ! i of
        (p, contents) \<Rightarrow>
          let s = s\<lparr>tk_removing := drop_nth i (tk_removing s)\<rparr>
          in if \<not> wr then s
             else s\<lparr>tk_app := (tk_app s)\<lparr>ap_files := hm_insert p contents (ap_files (tk_app s))\<rparr>,
                    tk_waiting := tk_waiting s @ [By_Edit]\<rparr>)"

text \<open>\<open>reload\<close> and the scheduled refresh up to the rebuild: neither waits for the lock.\<close>

definition begin_refresh :: "refresh_env \<Rightarrow> Tasks \<Rightarrow> Tasks" where
  "begin_refresh env s =
     (let st = tk_app s in
      if ap_refreshing st then s
      else case refresh_sources (ap_cfg st) env (ap_health st) (ap_files st) of
        (outcome, health, files) \<Rightarrow>
          let st = st\<lparr>ap_health := health, ap_files := files\<rparr>
          in if total_failure outcome then s\<lparr>tk_app := st\<rparr>
             else s\<lparr>tk_app := st\<lparr>ap_refreshing := True\<rparr>, tk_waiting := tk_waiting s @ [By_Refresh]\<rparr>)"

text \<open>The two halves of \<open>rebuild\<close>.\<close>

definition build_matcher :: "nat \<Rightarrow> Tasks \<Rightarrow> Tasks" where
  "build_matcher i s =
     (if length (tk_waiting s) \<le> i then s
      else s\<lparr>tk_waiting := drop_nth i (tk_waiting s),
             tk_built := tk_built s @ [(tk_waiting s ! i, build (ap_cfg (tk_app s)) (ap_files (tk_app s)))]\<rparr>)"

definition install :: "Blocklist \<Rightarrow> AppState \<Rightarrow> AppState" where
  "install fresh st =
     (let r = ap_resolver st;
          r = (case rs_blocklist r of Some _ \<Rightarrow> r\<lparr>rs_blocklist := Some fresh\<rparr> | None \<Rightarrow> r)
      in st\<lparr>ap_resolver := flush_cache r\<rparr>)"

text \<open>The refresh lock is released when its holder ends, also when it is dropped.\<close>

definition task_ends :: "Rebuilder \<Rightarrow> AppState \<Rightarrow> AppState" where
  "task_ends k st = (if k = By_Refresh then st\<lparr>ap_refreshing := False\<rparr> else st)"

definition install_matcher :: "nat \<Rightarrow> Tasks \<Rightarrow> Tasks" where
  "install_matcher i s =
     (if length (tk_built s) \<le> i then s
      else case tk_built s ! i of
        (k, fresh) \<Rightarrow> s\<lparr>tk_app := task_ends k (install fresh (tk_app s)), tk_built := drop_nth i (tk_built s)\<rparr>)"

text \<open>A task ends early: its request hits the deadline, or the blocking task is lost.\<close>

definition drop_waiting :: "nat \<Rightarrow> Tasks \<Rightarrow> Tasks" where
  "drop_waiting i s =
     (if length (tk_waiting s) \<le> i then s
      else s\<lparr>tk_app := task_ends (tk_waiting s ! i) (tk_app s), tk_waiting := drop_nth i (tk_waiting s)\<rparr>)"

definition drop_built :: "nat \<Rightarrow> Tasks \<Rightarrow> Tasks" where
  "drop_built i s =
     (if length (tk_built s) \<le> i then s
      else s\<lparr>tk_app := task_ends (fst (tk_built s ! i)) (tk_app s), tk_built := drop_nth i (tk_built s)\<rparr>)"

datatype 'f Task_Step =
    TS_Append bool bool string
  | TS_Read_Removal bool string
  | TS_Write_Removal bool nat
  | TS_Refresh refresh_env
  | TS_Build nat
  | TS_Install nat
  | TS_Drop_Waiting nat
  | TS_Drop_Built nat
  | TS_Other "'f Event"

fun task_step :: "'f Task_Step \<Rightarrow> Tasks \<Rightarrow> Tasks" where
  "task_step (TS_Append on_allow wr domain) s = begin_append on_allow wr domain s"
| "task_step (TS_Read_Removal on_allow body) s = read_removal on_allow body s"
| "task_step (TS_Write_Removal wr i) s = write_removal wr i s"
| "task_step (TS_Refresh env) s = begin_refresh env s"
| "task_step (TS_Build i) s = build_matcher i s"
| "task_step (TS_Install i) s = install_matcher i s"
| "task_step (TS_Drop_Waiting i) s = drop_waiting i s"
| "task_step (TS_Drop_Built i) s = drop_built i s"
| "task_step (TS_Other e) s = s\<lparr>tk_app := netwatch_step e (tk_app s)\<rparr>"

definition idle :: "AppState \<Rightarrow> Tasks" where
  "idle st = \<lparr>tk_app = st, tk_removing = [], tk_waiting = [], tk_built = []\<rparr>"

text \<open>What is not one of the tasks above in one piece.\<close>

fun quiet :: "'f Event \<Rightarrow> bool" where
  "quiet (Ev_Http E rq) \<longleftrightarrow> find_route mutating rq \<in> {None, Some E_Flush_Cache}"
| "quiet (Ev_Refresh _ _) \<longleftrightarrow> False"
| "quiet (Ev_Lock _) \<longleftrightarrow> False"
| "quiet _ \<longleftrightarrow> True"

fun quiet_step :: "'f Task_Step \<Rightarrow> bool" where
  "quiet_step (TS_Other e) \<longleftrightarrow> quiet e"
| "quiet_step _ \<longleftrightarrow> True"

text \<open>The matchers are installed in the order they were built, and every task reaches its end.\<close>

fun orderly :: "'f Task_Step \<Rightarrow> bool" where
  "orderly (TS_Install i) \<longleftrightarrow> i = 0"
| "orderly (TS_Drop_Waiting _) \<longleftrightarrow> False"
| "orderly (TS_Drop_Built _) \<longleftrightarrow> False"
| "orderly e \<longleftrightarrow> quiet_step e"

lemmas part_defs = begin_append_def read_removal_def write_removal_def begin_refresh_def build_matcher_def
  install_matcher_def drop_waiting_def drop_built_def

lemma drop_nth_only [simp]: "drop_nth 0 [x] = []"
  by (simp add: drop_nth_def)

lemma count_drop_nth:
  "i < length xs \<Longrightarrow> count_list (drop_nth i xs) x + (if xs ! i = x then 1 else 0) = count_list xs x"
  by (subst (3) id_take_nth_drop [of i xs]) (auto simp: drop_nth_def)

lemma map_drop_nth: "map f (drop_nth i xs) = drop_nth i (map f xs)"
  by (simp add: drop_nth_def take_map drop_map)

lemma install_fields [simp]:
  "ap_cfg (install bl st) = ap_cfg st" "ap_files (install bl st) = ap_files st"
  "ap_refreshing (install bl st) = ap_refreshing st" "ap_health (install bl st) = ap_health st"
  "rs_blocklist (ap_resolver (install bl st)) = map_option (\<lambda>_. bl) (rs_blocklist (ap_resolver st))"
  by (simp_all add: install_def Let_def flush_cache_def split: option.splits)

lemma task_ends_fields [simp]:
  "ap_cfg (task_ends k st) = ap_cfg st" "ap_files (task_ends k st) = ap_files st"
  "ap_resolver (task_ends k st) = ap_resolver st" "ap_refreshing (task_ends k st) = (k \<noteq> By_Refresh \<and> ap_refreshing st)"
  by (simp_all add: task_ends_def)

section \<open>Without interleaving\<close>

lemma rebuild_installs:
  "ev_build E \<Longrightarrow> fst (rebuild E st) = install (build (ap_cfg st) (ap_files st)) st"
  by (simp add: rebuild_def install_def Let_def)

text \<open>The matcher of the first task is built and installed.\<close>

abbreviation finish :: "Tasks \<Rightarrow> Tasks" where
  "finish s \<equiv> install_matcher 0 (build_matcher 0 s)"

lemma finish_idle [simp]: "finish (idle st) = idle st"
  by (simp add: idle_def part_defs)

lemma finish_one:
  "finish ((idle st)\<lparr>tk_waiting := [k]\<rparr>) = idle (task_ends k (install (build (ap_cfg st) (ap_files st)) st))"
  by (simp add: build_matcher_def install_matcher_def idle_def)

lemma edit_list_rebuilds:
  assumes "ev_cut E = None" "ev_build E" "change (ev_write E) (list_path (ap_cfg st)) d (ap_files st) = (files, ok)"
  shows "fst (edit_list E change list_path (Some d) st) =
    (if \<not> is_valid_domain d then st
     else let st = st\<lparr>ap_files := files\<rparr> in if ok then install (build (ap_cfg st) files) st else st)"
  using assms rebuild_installs [OF assms(2), of "st\<lparr>ap_files := files\<rparr>"]
  by (auto simp: edit_list_def Let_def split: prod.splits sum.splits)

lemma append_parts:
  assumes "ev_cut E = None" "ev_build E"
  shows "finish (begin_append on_allow (ev_write E) d (idle st)) =
    idle (fst (edit_list E append_manual (manual_path on_allow) (Some d) st))"
proof -
  obtain files ok where a: "append_manual (ev_write E) (manual_path on_allow (ap_cfg st)) d (ap_files st) = (files, ok)" by fastforce
  let ?st = "st\<lparr>ap_files := files\<rparr>"
  have "begin_append on_allow (ev_write E) d (idle st) =
      (if \<not> is_valid_domain d then idle st else if ok then (idle ?st)\<lparr>tk_waiting := [By_Edit]\<rparr> else idle ?st)"
    by (simp add: begin_append_def idle_def a)
  then show ?thesis using finish_one [of By_Edit ?st] by (simp add: edit_list_rebuilds [of E append_manual "manual_path on_allow" st d files ok, OF assms a] task_ends_def)
qed

lemma removal_parts:
  assumes "ev_cut E = None" "ev_build E"
  shows "finish (write_removal (ev_write E) 0 (read_removal on_allow d (idle st))) =
    idle (fst (edit_list E remove_manual (manual_path on_allow) (Some d) st))"
proof -
  obtain files ok where a: "remove_manual (ev_write E) (manual_path on_allow (ap_cfg st)) d (ap_files st) = (files, ok)" by fastforce
  let ?st = "st\<lparr>ap_files := files\<rparr>"
  have "write_removal (ev_write E) 0 (read_removal on_allow d (idle st)) =
      (if \<not> is_valid_domain d then idle st else if ok then (idle ?st)\<lparr>tk_waiting := [By_Edit]\<rparr> else idle ?st)"
    using a by (cases "read_file (ap_files st) (manual_path on_allow (ap_cfg st))"; cases "ev_write E")
      (simp_all add: read_removal_def write_removal_def remove_manual_def idle_def Let_def)
  then show ?thesis using finish_one [of By_Edit ?st] by (simp add: edit_list_rebuilds [of E remove_manual "manual_path on_allow" st d files ok, OF assms a] task_ends_def)
qed

lemma refresh_parts: "finish (begin_refresh env (idle st)) = idle (scheduled_refresh env True st)"
proof -
  obtain out health files where r: "refresh_sources (ap_cfg st) env (ap_health st) (ap_files st) = (out, health, files)"
    by (metis prod.collapse)
  let ?st = "st\<lparr>ap_health := health, ap_files := files\<rparr>"
  have b: "begin_refresh env (idle st) = (if ap_refreshing st then idle st else if total_failure out then idle ?st
      else (idle (?st\<lparr>ap_refreshing := True\<rparr>))\<lparr>tk_waiting := [By_Refresh]\<rparr>)"
    by (simp add: begin_refresh_def idle_def r)
  have t: "task_ends By_Refresh (install bl (?st\<lparr>ap_refreshing := True\<rparr>)) = install bl ?st" if "\<not> ap_refreshing st" for bl
    using that by (cases st) (simp add: task_ends_def install_def Let_def)
  have "scheduled_refresh env True st = (if ap_refreshing st then st else if total_failure out then ?st
      else install (build (ap_cfg st) files) ?st)"
    by (simp add: scheduled_refresh_def r install_def Let_def)
  then show ?thesis unfolding b
    using finish_one [of By_Refresh "?st\<lparr>ap_refreshing := True\<rparr>"] t by simp
qed

text \<open>A list edit over HTTP, a reload and a turn of the scheduled refresh, taken as one step, do what their
  parts do when no other task runs between them: \<open>Api\<close> and the steps here are two descriptions of the same
  handlers, which agree.\<close>

lemma handlers_are_their_parts:
  assumes "ev_cut E = None" "ev_build E"
  shows "fold task_step [TS_Append False (ev_write E) d, TS_Build 0, TS_Install 0] (idle st) = idle (fst (add_deny E (Some d) st)) \<and>
    fold task_step [TS_Append True (ev_write E) d, TS_Build 0, TS_Install 0] (idle st) = idle (fst (api_add_allow E (Some d) st)) \<and>
    fold task_step [TS_Read_Removal False d, TS_Write_Removal (ev_write E) 0, TS_Build 0, TS_Install 0] (idle st) =
      idle (fst (remove_deny E (Some d) st)) \<and>
    fold task_step [TS_Read_Removal True d, TS_Write_Removal (ev_write E) 0, TS_Build 0, TS_Install 0] (idle st) =
      idle (fst (remove_allow E (Some d) st)) \<and>
    fold task_step [TS_Refresh (ev_refresh E), TS_Build 0, TS_Install 0] (idle st) = idle (fst (reload E st)) \<and>
    fold task_step [TS_Refresh env, TS_Build 0, TS_Install 0] (idle st) = idle (scheduled_refresh env True st)"
proof -
  have p: "manual_path True = manual_allow_path" "manual_path False = manual_deny_path"
    by (simp_all add: fun_eq_iff manual_path_def)
  note a = append_parts [OF assms, of True d st, unfolded p] append_parts [OF assms, of False d st, unfolded p]
    removal_parts [OF assms, of True d st, unfolded p] removal_parts [OF assms, of False d st, unfolded p]
  have "scheduled_refresh (ev_refresh E) True st = fst (reload E st)"
    using scheduled_refresh_is_reload [of E st] assms by simp
  then show ?thesis
    using a refresh_parts [of "ev_refresh E" st] refresh_parts [of env st]
    by (simp add: add_deny_def api_add_allow_def remove_deny_def remove_allow_def)
qed

section \<open>The refresh lock\<close>

lemma quiet_keeps:
  assumes "quiet e"
  shows "ap_files (netwatch_step e st) = ap_files st" "ap_refreshing (netwatch_step e st) = ap_refreshing st"
    "ap_cfg (netwatch_step e st) = ap_cfg st"
    "rs_blocklist (ap_resolver (netwatch_step e st)) = rs_blocklist (ap_resolver st)"
proof -
  have f: "ap_files (fst (api_request E rq st)) = ap_files st \<and> ap_refreshing (fst (api_request E rq st)) = ap_refreshing st \<and>
      rs_blocklist (ap_resolver (fst (api_request E rq st))) = rs_blocklist (ap_resolver st)"
    if "find_route mutating rq \<in> {None, Some E_Flush_Cache}" for E :: "'a ApiEnv" and rq
    using that by (auto simp: api_request_def require_admin_def api_flush_cache_def Let_def split: option.splits)
  show "ap_files (netwatch_step e st) = ap_files st" "ap_refreshing (netwatch_step e st) = ap_refreshing st"
    "rs_blocklist (ap_resolver (netwatch_step e st)) = rs_blocklist (ap_resolver st)"
    using assms f by (cases e; simp add: handle_blocklist allows_def cache_sweep_def turn_fields note_defs case_prod_beta)+
  show "ap_cfg (netwatch_step e st) = ap_cfg st"
    using step_policy [of e st] by (simp add: policy_def)
qed

text \<open>The lock is held exactly while a refresh is between its downloads and its end.\<close>

definition refreshes :: "Tasks \<Rightarrow> nat" where
  "refreshes s = count_list (tk_waiting s @ map fst (tk_built s)) By_Refresh"

definition lock_inv :: "Tasks \<Rightarrow> bool" where
  "lock_inv s \<longleftrightarrow> refreshes s = (if ap_refreshing (tk_app s) then 1 else 0)"

lemma refreshes_simps:
  "i < length (tk_waiting s) \<Longrightarrow>
     count_list (drop_nth i (tk_waiting s)) By_Refresh + (if tk_waiting s ! i = By_Refresh then 1 else 0) = count_list (tk_waiting s) By_Refresh"
  "i < length (tk_built s) \<Longrightarrow>
     count_list (map fst (drop_nth i (tk_built s))) By_Refresh + (if fst (tk_built s ! i) = By_Refresh then 1 else 0) =
     count_list (map fst (tk_built s)) By_Refresh"
  using count_drop_nth [of i "tk_waiting s" By_Refresh] count_drop_nth [of i "map fst (tk_built s)" By_Refresh]
  by (simp_all add: map_drop_nth)

interpretation lock: event_system "task_step :: 'f Task_Step \<Rightarrow> Tasks \<Rightarrow> Tasks" quiet_step lock_inv
proof
  fix s and e :: "'f Task_Step"
  assume s: "lock_inv s" "quiet_step e"
  show "lock_inv (task_step e s)"
  proof (cases e)
    case (TS_Append al wr d)
    then show ?thesis using s by (auto simp: lock_inv_def refreshes_def begin_append_def Let_def split: prod.splits)
  next
    case (TS_Read_Removal al d)
    then show ?thesis using s by (auto simp: lock_inv_def refreshes_def read_removal_def Let_def split: option.splits)
  next
    case (TS_Write_Removal wr i)
    then show ?thesis using s by (auto simp: lock_inv_def refreshes_def write_removal_def Let_def split: prod.splits)
  next
    case (TS_Refresh env)
    then show ?thesis using s by (auto simp: lock_inv_def refreshes_def begin_refresh_def Let_def split: prod.splits)
  next
    case (TS_Build i)
    then show ?thesis
      using s refreshes_simps(1) [of i s]
      by (cases "i < length (tk_waiting s)") (auto simp: lock_inv_def refreshes_def build_matcher_def split: if_splits)
  next
    case (TS_Install i)
    then show ?thesis
      using s refreshes_simps(2) [of i s]
      by (cases "i < length (tk_built s)") (auto simp: lock_inv_def refreshes_def install_matcher_def split: if_splits prod.splits)
  next
    case (TS_Drop_Waiting i)
    then show ?thesis
      using s refreshes_simps(1) [of i s]
      by (cases "i < length (tk_waiting s)") (auto simp: lock_inv_def refreshes_def drop_waiting_def split: if_splits)
  next
    case (TS_Drop_Built i)
    then show ?thesis
      using s refreshes_simps(2) [of i s]
      by (cases "i < length (tk_built s)") (auto simp: lock_inv_def refreshes_def drop_built_def split: if_splits)
  next
    case (TS_Other e')
    then show ?thesis using s by (simp add: lock_inv_def refreshes_def quiet_keeps)
  qed
qed

section \<open>Matchers installed in order\<close>

text \<open>Some task has still to build, or the matcher built last, or the one in use when none is left to
  install, describes the files.\<close>

definition caught_up :: "Tasks \<Rightarrow> bool" where
  "caught_up s \<longleftrightarrow> rs_blocklist (ap_resolver (tk_app s)) \<noteq> None \<and>
     (tk_waiting s \<noteq> [] \<or>
      (if tk_built s = [] then in_sync (tk_app s)
       else snd (last (tk_built s)) = build (ap_cfg (tk_app s)) (ap_files (tk_app s))))"

lemma caught_up_waiting:
  "rs_blocklist (ap_resolver (tk_app s)) \<noteq> None \<Longrightarrow> tk_waiting s \<noteq> [] \<Longrightarrow> caught_up s"
  by (simp add: caught_up_def)

lemma refresh_caught_up: "caught_up s \<Longrightarrow> caught_up (begin_refresh env s)"
proof -
  assume c: "caught_up s"
  obtain out health files where r:
      "refresh_sources (ap_cfg (tk_app s)) env (ap_health (tk_app s)) (ap_files (tk_app s)) = (out, health, files)"
    by (metis prod.collapse)
  have "build cfg files = build cfg (ap_files (tk_app s))" if "total_failure out" for cfg
    using refresh_sources_inv [OF r] that by (intro build_cong) (auto simp: refresh_inv_def total_failure_def)
  then show ?thesis
    using c by (auto simp: begin_refresh_def r Let_def caught_up_def in_sync_def)
qed

interpretation ordered: event_system "task_step :: 'f Task_Step \<Rightarrow> Tasks \<Rightarrow> Tasks" orderly caught_up
proof
  fix s and e :: "'f Task_Step"
  assume s: "caught_up s" "orderly e"
  then have b: "rs_blocklist (ap_resolver (tk_app s)) \<noteq> None" by (simp add: caught_up_def)
  show "caught_up (task_step e s)"
  proof (cases e)
    case (TS_Append al wr d)
    then show ?thesis
      using s b by (auto simp: begin_append_def Let_def caught_up_waiting dest: change_failed split: prod.splits)
  next
    case (TS_Read_Removal al d)
    then show ?thesis using s b by (auto simp: read_removal_def Let_def caught_up_def split: option.splits)
  next
    case (TS_Write_Removal wr i)
    then show ?thesis using s b by (auto simp: write_removal_def Let_def caught_up_def split: prod.splits)
  next
    case (TS_Refresh env)
    then show ?thesis using s refresh_caught_up by simp
  next
    case (TS_Build i)
    then show ?thesis using s by (simp add: build_matcher_def caught_up_def)
  next
    case (TS_Install i)
    then show ?thesis
      using s b by (cases "tk_built s")
        (auto simp: install_matcher_def caught_up_def in_sync_def drop_nth_def split: prod.splits if_splits)
  next
    case (TS_Other e')
    then show ?thesis using s by (auto simp: caught_up_def in_sync_def quiet_keeps)
  qed (use s in simp_all)
qed

text \<open>The tasks can all come to their end, in order.\<close>

lemma all_can_finish:
  "\<exists>more :: 'f Task_Step list. list_all orderly more \<and> tk_waiting (fold task_step more s) = [] \<and> tk_built (fold task_step more s) = []"
proof (induction "2 * length (tk_waiting s) + length (tk_built s)" arbitrary: s rule: less_induct)
  case less
  let ?fewer = "\<lambda>s'. 2 * length (tk_waiting s') + length (tk_built s') < 2 * length (tk_waiting s) + length (tk_built s)"
  have step: ?case if "?fewer (task_step e s)" "orderly e" for e :: "'f Task_Step"
  proof -
    obtain more :: "'f Task_Step list" where "list_all orderly more"
      "tk_waiting (fold task_step more (task_step e s)) = []" "tk_built (fold task_step more (task_step e s)) = []"
      using less [OF \<open>?fewer (task_step e s)\<close>] by blast
    then show ?thesis using \<open>orderly e\<close> by (intro exI [of _ "e # more"]) simp
  qed
  show ?case
  proof (cases "tk_waiting s = []")
    case False
    then have "?fewer (task_step (TS_Build 0 :: 'f Task_Step) s)" by (cases "tk_waiting s") (simp_all add: build_matcher_def drop_nth_def)
    then show ?thesis by (rule step) simp
  next
    case w: True
    show ?thesis
    proof (cases "tk_built s = []")
      case False
      then have "?fewer (task_step (TS_Install 0 :: 'f Task_Step) s)"
        using w by (cases "tk_built s") (simp_all add: install_matcher_def drop_nth_def split: prod.splits)
      then show ?thesis by (rule step) simp
    qed (use w in \<open>auto intro: exI [of _ "[]"]\<close>)
  qed
qed

text \<open>
  C2. From startup on, whatever tasks change the lists and however they overlap with each other and with
  the rest of the program, two things hold. At most one refresh is between its downloads and its end, and
  it is there exactly while the refresh lock is held, also when requests are cut off. And when the
  matchers are installed in the order they were built and no task is cut off, then, as soon as no task is
  left, the matcher in use is the one the lists on disk describe; and the tasks in flight can always be
  brought to that end.
\<close>

theorem overlapping_edits_settle:
  fixes steps :: "'f Task_Step list"
  assumes "main_run B cli = Running p"
  defines "after \<equiv> \<lambda>es :: 'f Task_Step list. fold task_step es (idle (pg_state p))"
  shows "(list_all quiet_step steps \<longrightarrow> refreshes (after steps) = (if ap_refreshing (tk_app (after steps)) then 1 else 0)) \<and>
    (list_all orderly steps \<longrightarrow>
       (tk_waiting (after steps) = [] \<and> tk_built (after steps) = [] \<longrightarrow> in_sync (tk_app (after steps))) \<and>
       (\<exists>more :: 'f Task_Step list. list_all orderly more \<and> tk_waiting (after (steps @ more)) = [] \<and>
          tk_built (after (steps @ more)) = [] \<and> in_sync (tk_app (after (steps @ more)))))"
proof -
  have "in_sync (pg_state p)" "\<not> ap_refreshing (pg_state p)"
    using running_in_sync [OF assms(1)] running_unlocked [OF assms(1)] by simp_all
  then have start: "lock_inv (idle (pg_state p))" "caught_up (idle (pg_state p))"
    by (simp_all add: lock_inv_def refreshes_def idle_def caught_up_def in_sync_def)
  have lock: "list_all quiet_step es \<Longrightarrow> lock_inv (after es)" and order: "list_all orderly es \<Longrightarrow> caught_up (after es)"
    for es :: "'f Task_Step list"
    unfolding after_def using start by (simp_all add: lock.run_keeps ordered.run_keeps)
  obtain more :: "'f Task_Step list" where more: "list_all orderly more"
      "tk_waiting (fold task_step more (after steps)) = []" "tk_built (fold task_step more (after steps)) = []"
    using all_can_finish [of "after steps"] by blast
  then have "tk_waiting (after (steps @ more)) = []" "tk_built (after (steps @ more)) = []" by (simp_all add: after_def)
  then show ?thesis using lock [of steps] order [of steps] order [of "steps @ more"] more(1)
    by (auto simp: lock_inv_def caught_up_def)
qed

section \<open>Matchers installed out of order\<close>

text \<open>
  C38. When they are not installed in that order, an answered edit is undone: let another list edit or a
  refresh be at the point where it builds its matcher, and a \<open>POST /api/deny\<close> arrive after that build. If the
  second request's matcher is built and installed first (the request is answered and the domain is
  blocked), and then the older one, the domain is no longer blocked, although the deny list names it and
  no task is left that would put it right.
\<close>

theorem late_install_undoes_edit:
  assumes "tk_waiting s = [k]" "tk_built s = []"
    and "b_enabled (blocking (ap_cfg (tk_app s)))" "rs_blocklist (ap_resolver (tk_app s)) \<noteq> None"
    and "valid_domain (manual_line d)" "manual_line d \<noteq> ''0.0.0.0.0''"
    and "complete_lines (file_text (ap_files (tk_app s)) (manual_deny_path (ap_cfg (tk_app s))))"
    and "lookup (build (ap_cfg (tk_app s)) (ap_files (tk_app s))) (manual_line d) = None"
      "\<not> is_allowed (build (ap_cfg (tk_app s)) (ap_files (tk_app s))) (manual_line d)"
  defines "answered \<equiv> fold task_step [TS_Build 0, TS_Append False True d, TS_Build 0, TS_Install 1] s"
    and "final \<equiv> fold task_step [TS_Build 0, TS_Append False True d, TS_Build 0, TS_Install 1, TS_Install 0] s"
  shows "(\<exists>bl. rs_blocklist (ap_resolver (tk_app answered)) = Some bl \<and> lookup bl (manual_line d) \<noteq> None) \<and>
    (\<exists>bl. rs_blocklist (ap_resolver (tk_app final)) = Some bl \<and> lookup bl (manual_line d) = None) \<and>
    list_ex (\<lambda>l. trim l = manual_line d) (lines (file_text (ap_files (tk_app final)) (manual_deny_path (ap_cfg (tk_app final))))) \<and>
    tk_waiting final = [] \<and> tk_built final = [] \<and> \<not> in_sync (tk_app final)"
proof -
  let ?cfg = "ap_cfg (tk_app s)" and ?files = "ap_files (tk_app s)"
  obtain files ok where a: "append_manual True (manual_deny_path ?cfg) d ?files = (files, ok)" by fastforce
  note d = appended_denied [OF assms(3,5-7) a]
  have new: "lookup (build ?cfg files) (manual_line d) \<noteq> None"
    using assms(9) unfolding lookup_denied build_rules deny_adds_rule [OF assms(3,5-7) a] denied_insert is_allowed_rules by blast
  have two: "drop_nth (Suc 0) [x, y] = [x]" for x y :: 'a by (simp add: drop_nth_def)
  have s: "answered = s\<lparr>tk_app := install (build ?cfg files) ((tk_app s)\<lparr>ap_files := files\<rparr>), tk_waiting := [],
      tk_built := [(k, build ?cfg ?files)]\<rparr>"
    using assms(1,2) a d(1,2)
    by (simp add: answered_def build_matcher_def begin_append_def install_matcher_def manual_path_def task_ends_def drop_nth_def Let_def)
  have "final = install_matcher 0 answered" by (simp add: answered_def final_def)
  then have "final = s\<lparr>tk_app := task_ends k (install (build ?cfg ?files) (tk_app answered)), tk_waiting := [], tk_built := []\<rparr>"
    by (simp add: install_matcher_def s)
  then show ?thesis using new assms(4,8) d(4) s by (auto simp: in_sync_def)
qed

text \<open>
  C10. Installing the matchers in order is not enough: \<open>remove_manual\<close> reads the list and writes it back, and
  an addition between the two is lost. Let a removal of one domain from the deny list have read the file
  when \<open>POST /api/deny\<close> of another domain arrives, is carried out and answered: the domain is on the list and
  is blocked. When the removal then writes what it has read, and its matcher is built and installed as
  well, the domain is off the list and no longer blocked, the matcher agrees with the files, and no task is
  left that would bring the domain back.
\<close>

theorem removal_loses_addition:
  assumes "in_sync st" "b_enabled (blocking (ap_cfg st))"
    and "valid_domain (manual_line body)" "manual_line body \<noteq> ''0.0.0.0.0''"
    and "valid_domain (manual_line d)" "manual_line d \<noteq> ''0.0.0.0.0''" "manual_line body \<noteq> manual_line d"
    and old: "read_file (ap_files st) (manual_deny_path (ap_cfg st)) = Some old" "complete_lines old" "CHR 0x0D \<notin> set old"
    and "rs_blocklist (ap_resolver st) = Some bl" "lookup bl (manual_line d) = None" "\<not> is_allowed bl (manual_line d)"
  defines "on_list s \<equiv> list_ex (\<lambda>l. trim l = manual_line d) (lines (file_text (ap_files s) (manual_deny_path (ap_cfg s))))"
    and "blocked s \<equiv> (\<exists>bl. rs_blocklist (ap_resolver s) = Some bl \<and> lookup bl (manual_line d) \<noteq> None)"
    and "answered \<equiv> fold task_step [TS_Read_Removal False body, TS_Append False True d, TS_Build 0, TS_Install 0] (idle st)"
    and "final \<equiv> fold task_step [TS_Read_Removal False body, TS_Append False True d, TS_Build 0, TS_Install 0,
      TS_Write_Removal True 0, TS_Build 0, TS_Install 0] (idle st)"
  shows "on_list (tk_app answered) \<and> blocked (tk_app answered) \<and>
    \<not> on_list (tk_app final) \<and> \<not> blocked (tk_app final) \<and>
    in_sync (tk_app final) \<and> final = idle (tk_app final)"
proof -
  let ?cfg = "ap_cfg st" and ?files = "ap_files st" and ?p = "manual_deny_path (ap_cfg st)"
  let ?text = "join [CHR 0x0A] (filter (\<lambda>l. trim l \<noteq> manual_line body) (lines old)) @ [CHR 0x0A]"
  obtain files1 ok where a: "append_manual True ?p d ?files = (files1, ok)" by fastforce
  obtain files2 ok' where r: "remove_manual True ?p body ?files = (files2, ok')" by fastforce
  have t: "file_text ?files ?p = old" using old(1) by (auto simp: read_file_def file_text_def split: option.splits if_splits)
  note ad = appended_denied [OF assms(2,5,6) _ a, unfolded t, OF old(2)]
  have bl: "bl = build ?cfg ?files" using assms(1,11) by (simp add: in_sync_def)
  have v: "is_valid_domain body" using normalize_exact_valid [OF assms(3)] by (simp add: is_valid_domain_def normalize_manual_line)
  define files3 where "files3 = hm_insert ?p ?text files1"
  have f2: "files2 = hm_insert ?p ?text ?files" using r old(1) by (auto simp: remove_manual_def manual_line_def Let_def)
  have "hm_get files1 q = hm_get ?files q" if "q \<noteq> ?p" for q
    using a that by (auto simp: append_manual_def Let_def hm_simps split: if_splits)
  then have same: "build ?cfg files3 = build ?cfg files2"
    by (intro build_cong) (simp add: files3_def f2 hm_simps)
  have rules: "insert (Deny_Name (manual_line body)) (listed_rules ?cfg files2) = insert (Deny_Name (manual_line body)) (listed_rules ?cfg ?files)"
    using old(2,3) by (intro deny_removes_rule [OF assms(3,4) _ _ r]) (simp_all add: t complete_lines_def)
  have "denied (listed_rules ?cfg files2) (manual_line d) = denied (listed_rules ?cfg ?files) (manual_line d)"
    using denied_insert(1) [of "manual_line body" _ "manual_line d"] assms(7) rules by metis
  then have lost: "lookup (build ?cfg files3) (manual_line d) = None"
    using assms(12) lookup_denied [of "build ?cfg files2" "manual_line d"] lookup_denied [of "build ?cfg ?files" "manual_line d"]
    unfolding same bl build_rules by blast
  have allowed: "\<not> is_allowed (build ?cfg files1) (manual_line d)"
    using assms(13) unfolding bl is_allowed_rules build_rules deny_adds_rule [OF assms(2,5,6) _ a, unfolded t, OF old(2)] by blast
  have new: "lookup (build ?cfg files1) (manual_line d) \<noteq> None" using ad(3) allowed by (simp only: blocked_iff simp_thms)
  have unlisted: "\<not> list_ex (\<lambda>l. trim l = manual_line d) (lines old)"
    using build_lists_denied [OF assms(2) old(1) assms(5,6)] assms(12,13) blocked_iff [of bl "manual_line d"] by (auto simp: bl)
  have gone: "\<not> list_ex (\<lambda>l. trim l = manual_line d) (lines ?text)"
  proof -
    have l: "filter (\<lambda>l. l \<noteq> []) (lines ?text) = filter (\<lambda>l. trim l \<noteq> manual_line body \<and> l \<noteq> []) (lines old)"
      using remove_manual_removes_line [OF old(1,3) r] by (simp add: f2)
    have "trim l \<noteq> manual_line d" if "l \<in> set (lines ?text)" for l
    proof (cases "l = []")
      case True
      then show ?thesis using assms(5) by (auto simp: trim_def valid_domain_def)
    next
      case False
      then have "l \<in> set (filter (\<lambda>l. l \<noteq> []) (lines ?text))" using that by simp
      then have "l \<in> set (lines old)" unfolding l by simp
      then show ?thesis using unlisted by (auto simp: list_ex_iff)
    qed
    then show ?thesis by (auto simp: list_ex_iff)
  qed
  have answered: "answered = \<lparr>tk_app = install (build ?cfg files1) (st\<lparr>ap_files := files1\<rparr>),
      tk_removing = [(?p, ?text)], tk_waiting = [], tk_built = []\<rparr>"
    using a ad(1,2) v old(1)
    by (simp add: answered_def idle_def read_removal_def begin_append_def build_matcher_def install_matcher_def task_ends_def
        manual_path_def manual_line_def Let_def)
  have "final = fold task_step [TS_Write_Removal True 0, TS_Build 0, TS_Install 0] answered" by (simp add: final_def answered_def)
  then have final: "final = idle (install (build ?cfg files3) ((install (build ?cfg files1) (st\<lparr>ap_files := files1\<rparr>))\<lparr>ap_files := files3\<rparr>))"
    by (simp add: answered idle_def write_removal_def build_matcher_def install_matcher_def task_ends_def files3_def)
  have "file_text files3 ?p = ?text" by (simp add: files3_def)
  then show ?thesis
    using ad(4) new lost gone assms(11)
    unfolding on_list_def blocked_def final answered by (simp add: idle_def in_sync_def)
qed

section \<open>Instances\<close>

lemma demo_env_completes: "ev_cut (demo_api None) = None" "ev_build (demo_api None)" "ev_write (demo_api None)"
  by (simp_all add: demo_api_def)

theorem overlapping_edits_settle_witness:
  "\<exists>p. main_run demo_boot demo_cli = Running p \<and>
     in_sync (tk_app (fold task_step [TS_Append False True '' Tracker.Example'', TS_Build 0, TS_Install 0 :: unit Task_Step] (idle (pg_state p))))"
proof -
  obtain p where p: "main_run demo_boot demo_cli = Running p" using demo_running [of demo_cli] by (auto simp: demo_cli_def)
  let ?steps = "[TS_Append False True '' Tracker.Example'', TS_Build 0, TS_Install 0 :: unit Task_Step]"
  obtain st where "fold task_step ?steps (idle (pg_state p)) = idle st"
    using append_parts [OF demo_env_completes(1,2), of False "'' Tracker.Example''" "pg_state p"] demo_env_completes(3) by simp
  then have "tk_waiting (fold task_step ?steps (idle (pg_state p))) = []" "tk_built (fold task_step ?steps (idle (pg_state p))) = []"
    by (simp_all only: idle_def Tasks.simps)
  moreover have "list_all orderly ?steps" by simp
  ultimately show ?thesis using overlapping_edits_settle [OF p, of ?steps] p by blast
qed

text \<open>A deny list with one line.\<close>

definition demo_deny_file :: fs where
  "demo_deny_file = [(manual_deny_path demo_config, ''other.example\<newline>'')]"

definition edited_state :: AppState where
  "edited_state = demo_state\<lparr>ap_files := demo_deny_file,
     ap_resolver := (ap_resolver demo_state)\<lparr>rs_blocklist := Some (build demo_config demo_deny_file)\<rparr>\<rparr>"

lemma other_domain: "valid_domain ''other.example''" "manual_line ''other.example'' = ''other.example''"
proof -
  have "parse_ip ''other.example'' = None" by (rule parse_ip_nonhex) (simp_all add: str_eval)
  then show "valid_domain ''other.example''" by (simp add: valid_domain_def label_ok_def str_eval)
  show "manual_line ''other.example'' = ''other.example''" by (simp add: manual_line_def trim_graphic graphic_def str_eval)
qed

lemma edited_rules: "listed_rules demo_config demo_deny_file \<subseteq> {Deny_Name ''other.example''}"
proof -
  have "lines ''other.example\<newline>'' = [''other.example'']" by (simp add: lines_def strip_cr_def)
  then have "text_rules False ''other.example\<newline>'' = {Deny_Name ''other.example''}"
    using domain_line_rules [OF other_domain(1), of "''other.example''" False]
    by (simp add: text_rules_def trim_graphic graphic_def)
  moreover have "read_file demo_deny_file p = (if p = manual_deny_path demo_config then Some ''other.example\<newline>'' else None)" for p
    by (simp add: read_file_def demo_deny_file_def hm_defs)
  ultimately have "file_rules demo_deny_file False p \<subseteq> {Deny_Name ''other.example''}"
      "file_rules demo_deny_file True (manual_allow_path demo_config) = {}" for p
    using manual_paths_differ [of demo_config] by (simp_all add: file_rules_def)
  then show ?thesis unfolding listed_rules_def by auto
qed

theorem removal_loses_addition_witness:
  "let answered = fold task_step [TS_Read_Removal False ''other.example'', TS_Append False True '' Tracker.Example'',
         TS_Build 0, TS_Install 0 :: unit Task_Step] (idle edited_state);
       final = fold task_step [TS_Read_Removal False ''other.example'', TS_Append False True '' Tracker.Example'',
         TS_Build 0, TS_Install 0, TS_Write_Removal True 0, TS_Build 0, TS_Install 0 :: unit Task_Step] (idle edited_state)
   in (\<exists>bl. rs_blocklist (ap_resolver (tk_app answered)) = Some bl \<and> lookup bl ''tracker.example'' \<noteq> None) \<and>
     \<not> (\<exists>bl. rs_blocklist (ap_resolver (tk_app final)) = Some bl \<and> lookup bl ''tracker.example'' \<noteq> None)"
proof -
  let ?bl = "build demo_config demo_deny_file"
  have cfg: "ap_cfg edited_state = demo_config" "ap_files edited_state = demo_deny_file" "in_sync edited_state"
    "rs_blocklist (ap_resolver edited_state) = Some ?bl"
    by (simp_all add: edited_state_def demo_state_def in_sync_def)
  have "b_enabled (blocking (ap_cfg edited_state))" using demo_in_sync(2) by (simp add: cfg(1) demo_state_def)
  moreover have "read_file (ap_files edited_state) (manual_deny_path (ap_cfg edited_state)) = Some ''other.example\<newline>''"
    by (simp add: cfg demo_deny_file_def read_file_def hm_simps hm_defs)
  moreover have "complete_lines ''other.example\<newline>''" "CHR 0x0D \<notin> set ''other.example\<newline>''"
    by (simp_all add: complete_lines_def)
  moreover have "\<not> denied (listed_rules demo_config demo_deny_file) ''tracker.example''"
    using edited_rules by (auto simp: denied_def)
  then have "lookup ?bl ''tracker.example'' = None" using lookup_denied [of ?bl] unfolding build_rules by blast
  moreover have "\<not> is_allowed ?bl ''tracker.example''"
    using edited_rules unfolding is_allowed_rules build_rules by auto
  ultimately show ?thesis
    using removal_loses_addition [OF cfg(3), of "''other.example''" "'' Tracker.Example''" "''other.example\<newline>''" ?bl] cfg(4)
      other_domain demo_domain
    by (simp only: demo_manual_line Let_def) simp
qed

theorem late_install_undoes_edit_witness:
  "let s = fold task_step [TS_Build 0, TS_Append False True '' Tracker.Example'', TS_Build 0, TS_Install 1, TS_Install 0 :: unit Task_Step]
       ((idle demo_state)\<lparr>tk_waiting := [By_Refresh]\<rparr>)
   in \<not> in_sync (tk_app s) \<and>
     (\<exists>bl. rs_blocklist (ap_resolver (tk_app s)) = Some bl \<and> lookup bl ''tracker.example'' = None)"
proof -
  let ?s = "(idle demo_state)\<lparr>tk_waiting := [By_Refresh]\<rparr>"
  have b: "build (ap_cfg demo_state) (ap_files demo_state) = Blocklist_default"
    using demo_in_sync(1,6) by (simp add: in_sync_def)
  have l: "lookup Blocklist_default x = None" "\<not> is_allowed Blocklist_default x" for x
    using lookup_denied [of Blocklist_default x]
    by (simp_all add: is_allowed_rules rules_of_def Blocklist_default_def hm_simps denied_def del: not_None_eq)
  have "tk_waiting ?s = [By_Refresh]" "tk_built ?s = []" "tk_app ?s = demo_state" by (simp_all add: idle_def)
  then show ?thesis
    using late_install_undoes_edit [of ?s By_Refresh "'' Tracker.Example''"] demo_in_sync l b demo_domain
    by (simp only: demo_manual_line Let_def) simp
qed

end
