(* ===== verification/Lasting_Block.thy ===== *)
theory Lasting_Block
  imports Interleaving
begin

text \<open>
  How long a \<open>POST /api/deny\<close> holds (\<open>src/api.rs\<close>, \<open>src/blocklist.rs\<close>, \<open>src/dns/mod.rs\<close>): the deny list keeps a
  line for the domain through every other edit, refresh and overlap of them, and so every matcher built
  and installed later blocks it, until a request removes the domain from the deny list.
\<close>

section \<open>A line of the deny list through other edits\<close>















section \<open>Denied in the running program\<close>



















section \<open>The edit and what follows it\<close>






end
