(* ===== verification/Listeners.thy ===== *)
theory Listeners
  imports Running
begin

text \<open>
  The DNS listeners and the rest of the program together (\<open>main\<close> of \<open>src/main.rs\<close>: one UDP server for
  each listening address and, with \<open>dns.enable_tcp\<close>, one TCP server, all on the one shared resolver). A
  listener has its own requests in flight or connections and its own semaphore; its steps are those of
  \<open>Dns_Server\<close> and \<open>Tcp_Server\<close>, here as functions of what happens next. Shown: the program with its
  listeners is the event machine of \<open>Running\<close>; every listener serves admitted peers only; the two limits hold
  for each listener, and can be reached by all of them at once.
\<close>

section \<open>The steps of one listener\<close>

datatype Udp_Act =
    U_Datagram "u8 list" SocketAddr
  | U_Start Env nat
  | U_Reply Env network nat
  | U_Timeout Env nat

text \<open>A task starts when it has not yet, and continues when it waits; otherwise nothing happens.\<close>

fun udp_act :: "Udp_Act \<Rightarrow> UdpServer \<Rightarrow> UdpServer" where
  "udp_act (U_Datagram datagram peer) s = udp_receive datagram peer s"
| "udp_act (U_Start E i) s =
     (if i < length (us_tasks s) \<and> ut_pending (us_tasks s ! i) = None then udp_start E i s else s)"
| "udp_act (U_Reply E net i) s =
     (if length (us_tasks s) \<le> i then s
      else let t = us_tasks s ! i in
        case ut_pending t of
          None \<Rightarrow> s
        | Some p \<Rightarrow> udp_finish (e_proto E) i t
            (handle_reply E (sa_ip (ut_peer t)) p (forward (e_proto E) net (us_resolver s) (ut_request t) (pr_msg p)) (us_resolver s)) s)"
| "udp_act (U_Timeout E i) s =
     (if length (us_tasks s) \<le> i then s
      else let t = us_tasks s ! i in
        case ut_pending t of
          None \<Rightarrow> s
        | Some p \<Rightarrow> udp_finish (e_proto E) i t (handle_timeout E (ut_request t) (us_resolver s)) s)"

datatype Tcp_Act =
    T_Connect SocketAddr
  | T_Bytes nat "u8 list"
  | T_Begin Env nat
  | T_Reply Env network nat
  | T_Timeout Env nat
  | T_Send nat nat
  | T_Close nat

fun tcp_act :: "Tcp_Act \<Rightarrow> TcpServer \<Rightarrow> TcpServer" where
  "tcp_act (T_Connect peer) s = tcp_open peer s"
| "tcp_act (T_Bytes i bytes) s = (if i < length (ts_conns s) then tcp_arrive i bytes s else s)"
| "tcp_act (T_Begin E i) s =
     (if i < length (ts_conns s) \<and> tc_pending (ts_conns s ! i) = None \<and> tc_writing (ts_conns s ! i) = []
      then tcp_begin E i s else s)"
| "tcp_act (T_Reply E net i) s =
     (if length (ts_conns s) \<le> i then s
      else let c = ts_conns s ! i in
        case tc_pending c of
          None \<Rightarrow> s
        | Some (request, p) \<Rightarrow> tcp_respond i
            (handle_reply E (sa_ip (tc_peer c)) p (forward (e_proto E) net (ts_resolver s) request (pr_msg p)) (ts_resolver s)) s)"
| "tcp_act (T_Timeout E i) s =
     (if length (ts_conns s) \<le> i then s
      else case tc_pending (ts_conns s ! i) of
          None \<Rightarrow> s
        | Some (request, p) \<Rightarrow> tcp_respond i (handle_timeout E request (ts_resolver s)) s)"
| "tcp_act (T_Send i k) s = (if i < length (ts_conns s) then tcp_write i k s else s)"
| "tcp_act (T_Close i) s = (if i < length (ts_conns s) then tcp_close i s else s)"

lemma udp_act_step: "udp_act a s = s \<or> udp_step s (udp_act a s)"
  by (cases a) (auto simp: Let_def intro: udp_step.intros split: option.splits)

lemma tcp_act_step: "tcp_act a s = s \<or> tcp_step s (tcp_act a s)"
  by (cases a) (auto simp: Let_def intro: tcp_step.intros split: option.splits)

section \<open>The program with its listeners\<close>

type_synonym Udp_Socket = "UdpTask list \<times> (SocketAddr \<times> u8 list) list"
type_synonym Tcp_Socket = "TcpConn list \<times> (SocketAddr \<times> u8 list) list"

record Served =
  sv_app :: AppState
  sv_udp :: "Udp_Socket list"
  sv_tcp :: "Tcp_Socket list"

text \<open>Listener \<open>j\<close> as the server it is, over the shared resolver, and back.\<close>

definition udp_of :: "nat \<Rightarrow> Served \<Rightarrow> UdpServer" where
  "udp_of j s = \<lparr>us_resolver = ap_resolver (sv_app s), us_tasks = fst (sv_udp s ! j), us_sent = snd (sv_udp s ! j)\<rparr>"

definition with_udp :: "nat \<Rightarrow> UdpServer \<Rightarrow> Served \<Rightarrow> Served" where
  "with_udp j u s = s\<lparr>sv_app := (sv_app s)\<lparr>ap_resolver := us_resolver u\<rparr>, sv_udp := (sv_udp s)[j := (us_tasks u, us_sent u)]\<rparr>"

definition tcp_of :: "nat \<Rightarrow> Served \<Rightarrow> TcpServer" where
  "tcp_of j s = \<lparr>ts_resolver = ap_resolver (sv_app s), ts_conns = fst (sv_tcp s ! j), ts_ended = snd (sv_tcp s ! j)\<rparr>"

definition with_tcp :: "nat \<Rightarrow> TcpServer \<Rightarrow> Served \<Rightarrow> Served" where
  "with_tcp j u s = s\<lparr>sv_app := (sv_app s)\<lparr>ap_resolver := ts_resolver u\<rparr>, sv_tcp := (sv_tcp s)[j := (ts_conns u, ts_ended u)]\<rparr>"

datatype 'f Act = At_Udp nat Udp_Act | At_Tcp nat Tcp_Act | Elsewhere "'f Event"

text \<open>The parts of a DNS request come from the listeners only.\<close>

fun of_listener :: "'f Event \<Rightarrow> bool" where
  "of_listener (Ev_Query _ _ _) \<longleftrightarrow> True"
| "of_listener (Ev_Answer _ _ _ _) \<longleftrightarrow> True"
| "of_listener (Ev_Timeout _ _) \<longleftrightarrow> True"
| "of_listener (Ev_Denied _) \<longleftrightarrow> True"
| "of_listener Ev_Udp_Overload \<longleftrightarrow> True"
| "of_listener Ev_Tcp_Rejection \<longleftrightarrow> True"
| "of_listener _ \<longleftrightarrow> False"

fun served_step :: "'f Act \<Rightarrow> Served \<Rightarrow> Served" where
  "served_step (At_Udp j a) s = (if j < length (sv_udp s) then with_udp j (udp_act a (udp_of j s)) s else s)"
| "served_step (At_Tcp j a) s = (if j < length (sv_tcp s) then with_tcp j (tcp_act a (tcp_of j s)) s else s)"
| "served_step (Elsewhere e) s = (if of_listener e then s else s\<lparr>sv_app := netwatch_step e (sv_app s)\<rparr>)"

text \<open>The listeners of a started program are those of its tasks.\<close>

definition is_udp_listener :: "Task \<Rightarrow> bool" where
  "is_udp_listener t = (case t of Serve_Udp _ \<Rightarrow> True | _ \<Rightarrow> False)"

definition is_tcp_listener :: "Task \<Rightarrow> bool" where
  "is_tcp_listener t = (case t of Serve_Tcp _ \<Rightarrow> True | _ \<Rightarrow> False)"

definition served_new :: "Program \<Rightarrow> Served" where
  "served_new p = \<lparr>sv_app = pg_state p,
     sv_udp = map (\<lambda>_. ([], [])) (filter is_udp_listener (pg_tasks p)),
     sv_tcp = map (\<lambda>_. ([], [])) (filter is_tcp_listener (pg_tasks p))\<rparr>"

section \<open>As events of the program\<close>

fun udp_events :: "Udp_Act \<Rightarrow> UdpServer \<Rightarrow> 'f Event list" where
  "udp_events (U_Datagram _ peer) s =
     (if \<not> acl_allows (rs_acl (us_resolver s)) (sa_ip peer) then [Ev_Denied (sa_ip peer)]
      else if max_udp_in_flight (rs_cfg (us_resolver s)) \<le> length (us_tasks s) then [Ev_Udp_Overload] else [])"
| "udp_events (U_Start E i) s =
     (if i < length (us_tasks s) \<and> ut_pending (us_tasks s ! i) = None
      then [Ev_Query E (ut_request (us_tasks s ! i)) (sa_ip (ut_peer (us_tasks s ! i)))] else [])"
| "udp_events (U_Reply E net i) s =
     (if length (us_tasks s) \<le> i then []
      else let t = us_tasks s ! i in
        case ut_pending t of
          None \<Rightarrow> []
        | Some p \<Rightarrow> [Ev_Answer E (sa_ip (ut_peer t)) p (forward (e_proto E) net (us_resolver s) (ut_request t) (pr_msg p))])"
| "udp_events (U_Timeout E i) s =
     (if length (us_tasks s) \<le> i \<or> ut_pending (us_tasks s ! i) = None then []
      else [Ev_Timeout E (ut_request (us_tasks s ! i))])"

fun tcp_events :: "Tcp_Act \<Rightarrow> TcpServer \<Rightarrow> 'f Event list" where
  "tcp_events (T_Connect peer) s =
     (if \<not> acl_allows (rs_acl (ts_resolver s)) (sa_ip peer) then [Ev_Denied (sa_ip peer)]
      else if max_tcp_connections (rs_cfg (ts_resolver s)) \<le> length (ts_conns s) then [Ev_Tcp_Rejection] else [])"
| "tcp_events (T_Bytes i bytes) s = []"
| "tcp_events (T_Begin E i) s =
     (if i < length (ts_conns s) \<and> tc_pending (ts_conns s ! i) = None \<and> tc_writing (ts_conns s ! i) = []
      then (case next_frame (tc_input (ts_conns s ! i)) of
              Frame request _ \<Rightarrow> [Ev_Query E request (sa_ip (tc_peer (ts_conns s ! i)))]
            | _ \<Rightarrow> [])
      else [])"
| "tcp_events (T_Reply E net i) s =
     (if length (ts_conns s) \<le> i then []
      else let c = ts_conns s ! i in
        case tc_pending c of
          None \<Rightarrow> []
        | Some (request, p) \<Rightarrow> [Ev_Answer E (sa_ip (tc_peer c)) p (forward (e_proto E) net (ts_resolver s) request (pr_msg p))])"
| "tcp_events (T_Timeout E i) s =
     (if length (ts_conns s) \<le> i then []
      else case tc_pending (ts_conns s ! i) of None \<Rightarrow> [] | Some (request, _) \<Rightarrow> [Ev_Timeout E request])"
| "tcp_events (T_Send i k) s = []"
| "tcp_events (T_Close i) s = []"

fun act_events :: "'f Act \<Rightarrow> Served \<Rightarrow> 'f Event list" where
  "act_events (At_Udp j a) s = (if j < length (sv_udp s) then udp_events a (udp_of j s) else [])"
| "act_events (At_Tcp j a) s = (if j < length (sv_tcp s) then tcp_events a (tcp_of j s) else [])"
| "act_events (Elsewhere e) s = (if of_listener e then [] else [e])"

fun events_of :: "'f Act list \<Rightarrow> Served \<Rightarrow> 'f Event list" where
  "events_of [] s = []"
| "events_of (a # as) s = act_events a s @ events_of as (served_step a s)"

lemma finish_resolver [simp]: "us_resolver (udp_finish P i t res s) = fst res"
  by (simp add: udp_finish_def Let_def split: prod.splits)

lemma respond_resolver [simp]: "ts_resolver (tcp_respond i res s) = fst res"
  by (auto simp: tcp_respond_def tcp_close_def Let_def split: prod.splits option.splits)

lemma udp_act_events:
  "ap_resolver st = us_resolver s \<Longrightarrow> fold netwatch_step (udp_events a s) st = st\<lparr>ap_resolver := us_resolver (udp_act a s)\<rparr>"
  by (cases a) (auto simp: udp_receive_def udp_start_def allows_def Let_def split: option.splits prod.splits Outcome.splits)

lemma tcp_act_events:
  "ap_resolver st = ts_resolver s \<Longrightarrow> fold netwatch_step (tcp_events a s) st = st\<lparr>ap_resolver := ts_resolver (tcp_act a s)\<rparr>"
  by (cases a)
    (auto simp: tcp_open_def tcp_accept_def tcp_begin_def tcp_close_def tcp_arrive_def tcp_write_def allows_def Let_def
      split: option.splits prod.splits Outcome.splits Frame.splits)

lemma served_app: "sv_app (served_step a s) = fold netwatch_step (act_events a s) (sv_app s)"
  by (cases a) (simp_all add: udp_act_events tcp_act_events with_udp_def with_tcp_def udp_of_def tcp_of_def)

lemma served_run: "sv_app (fold served_step as s) = fold netwatch_step (events_of as s) (sv_app s)"
  by (induction as arbitrary: s) (simp_all add: served_app)

text \<open>No request is cut off and no blocking task is lost.\<close>

fun settles :: "'f Act \<Rightarrow> bool" where
  "settles (Elsewhere e) \<longleftrightarrow> completes e"
| "settles _ \<longleftrightarrow> True"

lemma act_completes: "settles a \<Longrightarrow> list_all completes (act_events a s)"
proof (cases a)
  case (At_Udp j b)
  then show ?thesis by (cases b) (simp_all add: Let_def split: option.splits)
next
  case (At_Tcp j b)
  then show ?thesis by (cases b) (simp_all add: Let_def split: option.splits Frame.splits)
qed simp

lemma run_completes: "list_all settles as \<Longrightarrow> list_all completes (events_of as s)"
  by (induction as arbitrary: s) (simp_all add: act_completes)

section \<open>Every listener\<close>

definition served_inv :: "Resolver \<Rightarrow> nat \<Rightarrow> nat \<Rightarrow> Served \<Rightarrow> bool" where
  "served_inv r0 n m s \<longleftrightarrow> rs_cfg (ap_resolver (sv_app s)) = rs_cfg r0 \<and> rs_acl (ap_resolver (sv_app s)) = rs_acl r0 \<and>
     length (sv_udp s) = n \<and> length (sv_tcp s) = m \<and>
     (\<forall>j < n. udp_inv r0 (udp_of j s)) \<and> (\<forall>j < m. tcp_inv r0 (tcp_of j s))"

text \<open>The invariants look at the policy of the shared resolver only.\<close>

lemma udp_inv_shared:
  "udp_inv r0 s \<Longrightarrow> rs_cfg r = rs_cfg r0 \<Longrightarrow> rs_acl r = rs_acl r0 \<Longrightarrow> udp_inv r0 (s\<lparr>us_resolver := r\<rparr>)"
  by (simp add: udp_inv_def)

lemma tcp_inv_shared:
  "tcp_inv r0 s \<Longrightarrow> rs_cfg r = rs_cfg r0 \<Longrightarrow> rs_acl r = rs_acl r0 \<Longrightarrow> tcp_inv r0 (s\<lparr>ts_resolver := r\<rparr>)"
  by (simp add: tcp_inv_def)

lemma of_with:
  "j < length (sv_udp s) \<Longrightarrow> udp_of k (with_udp j u s) = (if k = j then u else (udp_of k s)\<lparr>us_resolver := us_resolver u\<rparr>)"
  "tcp_of k (with_udp j u s) = (tcp_of k s)\<lparr>ts_resolver := us_resolver u\<rparr>"
  "j < length (sv_tcp s) \<Longrightarrow> tcp_of k (with_tcp j v s) = (if k = j then v else (tcp_of k s)\<lparr>ts_resolver := ts_resolver v\<rparr>)"
  "udp_of k (with_tcp j v s) = (udp_of k s)\<lparr>us_resolver := ts_resolver v\<rparr>"
  by (simp_all add: udp_of_def tcp_of_def with_udp_def with_tcp_def)

lemma with_udp_inv:
  assumes "served_inv r0 n m s" "j < n" "udp_inv r0 u"
  shows "served_inv r0 n m (with_udp j u s)"
proof -
  have "rs_cfg (us_resolver u) = rs_cfg r0" "rs_acl (us_resolver u) = rs_acl r0" using assms(3) by (simp_all add: udp_inv_def)
  then show ?thesis
    using assms by (auto simp: served_inv_def of_with udp_inv_shared tcp_inv_shared) (simp_all add: with_udp_def)
qed

lemma with_tcp_inv:
  assumes "served_inv r0 n m s" "j < m" "tcp_inv r0 u"
  shows "served_inv r0 n m (with_tcp j u s)"
proof -
  have "rs_cfg (ts_resolver u) = rs_cfg r0" "rs_acl (ts_resolver u) = rs_acl r0" using assms(3) by (simp_all add: tcp_inv_def)
  then show ?thesis
    using assms by (auto simp: served_inv_def of_with udp_inv_shared tcp_inv_shared) (simp_all add: with_tcp_def)
qed

interpretation served: event_system "served_step :: 'f Act \<Rightarrow> Served \<Rightarrow> Served" "\<lambda>_. True" "served_inv r0 n m" for r0 n m
proof
  fix s and a :: "'f Act"
  assume s: "served_inv r0 n m s"
  show "served_inv r0 n m (served_step a s)"
  proof (cases a)
    case (At_Udp j b)
    then show ?thesis
      using s udp_act_step [of b "udp_of j s"] udp_step_inv [of "udp_of j s" _ r0] with_udp_inv [OF s, of j]
      by (auto simp: served_inv_def)
  next
    case (At_Tcp j b)
    then show ?thesis
      using s tcp_act_step [of b "tcp_of j s"] tcp_step_inv [of "tcp_of j s" _ r0] with_tcp_inv [OF s, of j]
      by (auto simp: served_inv_def)
  next
    case (Elsewhere e)
    have p: "rs_cfg (ap_resolver (netwatch_step e (sv_app s))) = rs_cfg r0" "rs_acl (ap_resolver (netwatch_step e (sv_app s))) = rs_acl r0"
      using s step_policy [of e "sv_app s"] by (simp_all add: served_inv_def policy_def)
    have "udp_of j (s\<lparr>sv_app := st\<rparr>) = (udp_of j s)\<lparr>us_resolver := ap_resolver st\<rparr>"
      "tcp_of j (s\<lparr>sv_app := st\<rparr>) = (tcp_of j s)\<lparr>ts_resolver := ap_resolver st\<rparr>" for j st
      by (simp_all add: udp_of_def tcp_of_def)
    then show ?thesis
      using s p Elsewhere by (simp add: served_inv_def udp_inv_shared tcp_inv_shared)
  qed
qed

lemma listener_tasks:
  assumes "start_tasks B cfg lan = Some ts"
  shows "filter is_udp_listener ts = map Serve_Udp (dns_listeners cfg)"
    "filter is_tcp_listener ts = (if enable_tcp (dns cfg) then map Serve_Tcp (dns_listeners cfg) else [])"
proof -
  have none: "filter is_udp_listener (alert_tasks B a) = []" "filter is_tcp_listener (alert_tasks B a) = []"
    "filter is_udp_listener (discovery_tasks r l d) = []" "filter is_tcp_listener (discovery_tasks r l d) = []" for a r l d
    by (auto simp: alert_tasks_def discovery_tasks_def is_udp_listener_def is_tcp_listener_def filter_empty_conv
        split: option.splits if_splits prod.splits)
  have "filter is_udp_listener (map Serve_Udp as) = map Serve_Udp as" "filter is_tcp_listener (map Serve_Udp as) = []"
    "filter is_tcp_listener (map Serve_Tcp as) = map Serve_Tcp as" "filter is_udp_listener (map Serve_Tcp as) = []" for as
    by (induction as) (simp_all add: is_udp_listener_def is_tcp_listener_def)
  then show "filter is_udp_listener ts = map Serve_Udp (dns_listeners cfg)"
    "filter is_tcp_listener ts = (if enable_tcp (dns cfg) then map Serve_Tcp (dns_listeners cfg) else [])"
    using assms none
    by (auto simp: start_tasks_def Let_def is_udp_listener_def is_tcp_listener_def
        split: list.splits if_splits)
qed

lemma listeners_started:
  assumes "main_run B cli = Running p"
  shows "length (sv_udp (served_new p)) = length (dns_listeners (ap_cfg (pg_state p)))"
    "length (sv_tcp (served_new p)) = (if enable_tcp (dns (ap_cfg (pg_state p))) then length (dns_listeners (ap_cfg (pg_state p))) else 0)"
    "rs_cfg (ap_resolver (pg_state p)) = dns (ap_cfg (pg_state p))"
proof -
  obtain cfg lan b where p: "ap_cfg (pg_state p) = cfg" "start_tasks B cfg lan = Some (pg_tasks p)"
      "ap_resolver (pg_state p) = resolver_new cfg lan b (boot_registry B cfg)"
    using running_steps [OF assms] by metis
  then show "length (sv_udp (served_new p)) = length (dns_listeners (ap_cfg (pg_state p)))"
    "length (sv_tcp (served_new p)) = (if enable_tcp (dns (ap_cfg (pg_state p))) then length (dns_listeners (ap_cfg (pg_state p))) else 0)"
    "rs_cfg (ap_resolver (pg_state p)) = dns (ap_cfg (pg_state p))"
    using listener_tasks [OF p(2)] by (simp_all add: served_new_def resolver_new_def)
qed

lemma served_new_inv: "served_inv (ap_resolver (pg_state p)) (length (sv_udp (served_new p))) (length (sv_tcp (served_new p))) (served_new p)"
  by (simp add: served_inv_def served_new_def udp_of_def tcp_of_def udp_inv_def tcp_inv_def)

lemmas served_run_inv = served.run_keeps [OF served_new_inv, unfolded list_all_iff, simplified]

section \<open>Properties\<close>

text \<open>
  The program with its listeners is the event machine: whatever arrives at whatever listener, in
  whatever order with the rest of the program, the shared state is the one after the corresponding
  events, so the policy never changes and, when nothing is cut off, the matcher describes the lists on disk.
\<close>

lemma listeners_refine_events:
  assumes "main_run B cli = Running p"
  shows "sv_app (fold served_step as (served_new p)) = fold netwatch_step (events_of as (served_new p)) (pg_state p) \<and>
    policy (sv_app (fold served_step as (served_new p))) = policy (pg_state p) \<and>
    (list_all settles as \<longrightarrow> in_sync (sv_app (fold served_step as (served_new p))))"
proof -
  have run: "sv_app (fold served_step as (served_new p)) = fold netwatch_step (events_of as (served_new p)) (pg_state p)"
    using served_run [of as "served_new p"] by (simp add: served_new_def)
  have "in_sync (pg_state p)" using assms by (rule running_in_sync)
  then show ?thesis
    unfolding run using sync.run_keeps [of "pg_state p" "events_of as (served_new p)"] run_completes [of as "served_new p"]
      fixed.run_keeps [of "pg_state p" "policy (pg_state p)" "events_of as (served_new p)"]
    by (simp add: list_all_iff)
qed

text \<open>
  C3. The whole program serves only whom its access list admits, and within its limits: it has one UDP
  listener for each configured address and as many TCP listeners where TCP is enabled; at any time each
  of them works for admitted peers only, has answered admitted peers only, over TCP with a sequence of
  complete frames of which only the last can be unfinished (still being written, or broken off where its
  connection ended), and has no more requests in flight or connections open than configured.
\<close>

theorem program_serves_only_admitted:
  fixes as :: "'f Act list"
  assumes "main_run B cli = Running p"
  defines "s \<equiv> fold served_step as (served_new p)" and "cfg \<equiv> ap_cfg (pg_state p)"
    and "ok peer \<equiv> acl_allows (rs_acl (ap_resolver (pg_state p))) (sa_ip peer)"
  shows "length (sv_udp s) = length (dns_listeners cfg) \<and>
    length (sv_tcp s) = (if enable_tcp (dns cfg) then length (dns_listeners cfg) else 0) \<and>
    list_all (\<lambda>(tasks, sent). length tasks \<le> max_udp_in_flight (dns cfg) \<and> list_all (\<lambda>t. ok (ut_peer t)) tasks \<and>
      list_all (\<lambda>(peer, _). ok peer) sent) (sv_udp s) \<and>
    list_all (\<lambda>(conns, ended). length conns \<le> max_tcp_connections (dns cfg) \<and>
      list_all (\<lambda>c. ok (tc_peer c) \<and> whole_frames (tc_output c @ tc_writing c)) conns \<and>
      list_all (\<lambda>(peer, out). ok peer \<and> broken_off out) ended) (sv_tcp s)"
proof -
  note inv = served_run_inv [of p as]
  have u: "udp_inv (ap_resolver (pg_state p)) (udp_of j s)" if "j < length (sv_udp s)" for j
    using inv that by (simp add: served_inv_def s_def)
  have t: "tcp_inv (ap_resolver (pg_state p)) (tcp_of j s)" if "j < length (sv_tcp s)" for j
    using inv that by (simp add: served_inv_def s_def)
  show ?thesis
    using inv listeners_started [OF assms(1)] u t
    by (simp add: served_inv_def s_def [symmetric] cfg_def ok_def udp_inv_def tcp_inv_def conn_ok_def udp_of_def tcp_of_def list_all_length
        case_prod_beta list_all_iff)
qed

text \<open>The UDP requests in flight, over all listeners.\<close>

definition in_flight :: "Served \<Rightarrow> nat" where
  "in_flight s = sum_list (map (length \<circ> fst) (sv_udp s))"

lemma datagram_taken:
  assumes "j < length (sv_udp s)" "acl_allows (rs_acl (ap_resolver (sv_app s))) (sa_ip peer)"
    "length (fst (sv_udp s ! j)) < max_udp_in_flight (rs_cfg (ap_resolver (sv_app s)))"
  shows "served_step (At_Udp j (U_Datagram d peer)) s =
    s\<lparr>sv_udp := (sv_udp s)[j := (fst (sv_udp s ! j) @ [\<lparr>ut_request = take 4096 d, ut_peer = peer, ut_pending = None\<rparr>], snd (sv_udp s ! j))]\<rparr>"
  using assms by (simp add: with_udp_def udp_of_def udp_receive_def allows_def)

lemma datagrams_taken:
  assumes "j < length (sv_udp s)" "acl_allows (rs_acl (ap_resolver (sv_app s))) (sa_ip peer)" "sv_udp s ! j = ([], [])"
  shows "k \<le> max_udp_in_flight (rs_cfg (ap_resolver (sv_app s))) \<Longrightarrow>
    fold served_step (replicate k (At_Udp j (U_Datagram [] peer) :: 'f Act)) s =
      s\<lparr>sv_udp := (sv_udp s)[j := (replicate k \<lparr>ut_request = [], ut_peer = peer, ut_pending = None\<rparr>, [])]\<rparr>"
proof (induction k)
  case 0
  have "(sv_udp s)[j := ([], [])] = sv_udp s" using assms(3) list_update_id by metis
  then show ?case by simp
next
  case (Suc k)
  let ?t = "\<lparr>ut_request = [], ut_peer = peer, ut_pending = None\<rparr>"
  have "replicate (Suc k) a = replicate k a @ [a]" for a :: "'f Act" by (simp add: replicate_append_same)
  then show ?case
    using Suc assms(1,2) datagram_taken [of j "s\<lparr>sv_udp := (sv_udp s)[j := (replicate k ?t, [])]\<rparr>" peer "[]"]
    by (simp del: served_step.simps replicate.simps) (simp add: replicate_append_same)
qed

definition flood :: "nat \<Rightarrow> nat \<Rightarrow> SocketAddr \<Rightarrow> 'f Act list" where
  "flood n k peer = concat (map (\<lambda>j. replicate k (At_Udp j (U_Datagram [] peer))) [0..<n])"

lemma flood_taken:
  assumes "acl_allows (rs_acl (ap_resolver (sv_app s))) (sa_ip peer)" "k \<le> max_udp_in_flight (rs_cfg (ap_resolver (sv_app s)))"
    "sv_udp s = replicate m ([], [])"
  shows "n \<le> m \<Longrightarrow> fold served_step (flood n k peer :: 'f Act list) s =
    s\<lparr>sv_udp := replicate n (replicate k \<lparr>ut_request = [], ut_peer = peer, ut_pending = None\<rparr>, []) @ replicate (m - n) ([], [])\<rparr>"
proof (induction n)
  case 0
  then show ?case using assms(3) by (simp add: flood_def)
next
  case (Suc n)
  let ?x = "(replicate k \<lparr>ut_request = [], ut_peer = peer, ut_pending = None\<rparr>, []) :: Udp_Socket"
  let ?s = "s\<lparr>sv_udp := replicate n ?x @ replicate (m - n) ([], [])\<rparr>"
  have f: "(flood (Suc n) k peer :: 'f Act list) = flood n k peer @ replicate k (At_Udp n (U_Datagram [] peer))"
    by (simp add: flood_def)
  have n: "m - n = Suc (m - Suc n)" using Suc.prems by simp
  have "fold served_step (replicate k (At_Udp n (U_Datagram [] peer) :: 'f Act)) ?s = ?s\<lparr>sv_udp := (sv_udp ?s)[n := ?x]\<rparr>"
    using assms(1,2) Suc.prems by (intro datagrams_taken) (simp_all add: nth_append)
  moreover have "(replicate n ?x @ replicate (m - n) ([], []))[n := ?x] = replicate (Suc n) ?x @ replicate (m - Suc n) ([], [])"
    unfolding n by (simp add: list_update_append replicate_app_Cons_same)
  ultimately show ?case using Suc f by simp
qed

text \<open>
  C15. The limit on UDP requests is one for each listener: the program never has more requests in flight
  than \<open>dns.max_udp_in_flight\<close> for each UDP listener it has, and whenever the access list admits anyone at
  all, datagrams can make it have that many, so with \<open>dns.listen_v6\<close> it works on twice the number the
  setting is documented to allow at once.
\<close>

theorem limit_is_per_listener:
  fixes peer :: SocketAddr
  assumes "main_run B cli = Running p"
    and "acl_allows (rs_acl (ap_resolver (pg_state p))) (sa_ip peer)"
  defines "cfg \<equiv> dns (ap_cfg (pg_state p))"
  defines "bound \<equiv> (case listen_v6 cfg of None \<Rightarrow> max_udp_in_flight cfg | Some _ \<Rightarrow> 2 * max_udp_in_flight cfg)"
  shows "(\<forall>as :: 'f Act list. in_flight (fold served_step as (served_new p)) \<le> bound) \<and>
    (\<exists>as :: 'f Act list. in_flight (fold served_step as (served_new p)) = bound)"
proof -
  let ?n = "length (dns_listeners (ap_cfg (pg_state p)))"
  have b: "bound = ?n * max_udp_in_flight cfg" by (simp add: bound_def cfg_def dns_listeners_def split: option.splits)
  note st = listeners_started [OF assms(1)]
  have "in_flight (fold served_step as (served_new p)) \<le> bound" for as :: "'f Act list"
  proof -
    let ?s = "fold served_step as (served_new p)"
    have inv: "served_inv (ap_resolver (pg_state p)) ?n (length (sv_tcp (served_new p))) ?s"
      using served_run_inv [of p as] st(1) by simp
    then have "length (fst x) \<le> max_udp_in_flight cfg" if "x \<in> set (sv_udp ?s)" for x
      using that st(3) by (auto simp: served_inv_def udp_inv_def udp_of_def cfg_def in_set_conv_nth)
    then have "sum_list (map (length \<circ> fst) (sv_udp ?s)) \<le> length (sv_udp ?s) * max_udp_in_flight cfg"
      using sum_list_mono [of "sv_udp ?s" "length \<circ> fst" "\<lambda>_. max_udp_in_flight cfg"] by (simp add: sum_list_triv comp_def)
    then show ?thesis using inv by (simp add: in_flight_def b served_inv_def comp_def)
  qed
  moreover have "in_flight (fold served_step (flood ?n (max_udp_in_flight cfg) peer :: 'f Act list) (served_new p)) = bound"
  proof -
    have "sv_udp (served_new p) = replicate ?n ([], [])" using st(1) by (simp add: served_new_def map_replicate_const)
    then show ?thesis
      using flood_taken [where 'f = 'f, of "served_new p" peer "max_udp_in_flight cfg" ?n ?n] assms(2) st(3)
      by (simp add: in_flight_def b cfg_def served_new_def sum_list_replicate)
  qed
  ultimately show ?thesis by blast
qed

section \<open>Instances\<close>

definition dual_config :: Config where
  "dual_config = Config_default\<lparr>dns := DnsConfig_default\<lparr>listen_v6 := Some \<lparr>sa_ip = IpV6 0, sa_port = 53\<rparr>\<rparr>\<rparr>"

definition dual_boot :: BootEnv where
  "dual_boot = demo_boot\<lparr>bt_exists := True, bt_content := Some [], bt_toml := (\<lambda>_. Some dual_config)\<rparr>"

lemma dual_valid: "validate dual_config = Inr ()"
  by (simp add: validate_def dual_config_def Config_default_def DnsConfig_default_def WebConfig_default_def
      BlockingConfig_default_def AlertConfig_default_def default_acl v4_from_octets_def dotted_def
      octet_def starts_with_def trim_def)

lemma dual_running:
  obtains p where "main_run dual_boot demo_cli = Running p" "dns (ap_cfg (pg_state p)) = dns dual_config"
    "rs_acl (ap_resolver (pg_state p)) = \<lparr>rules = [Loopback, Private]\<rparr>"
proof -
  have l: "loaded dual_boot = Inr dual_config"
    using dual_valid by (simp add: loaded_def load_or_default_def config_load_def dual_boot_def)
  have o: "apply_overrides demo_cli dual_config = dual_config" by (simp add: apply_overrides_def demo_cli_def)
  have d: "d_subnet (discovery dual_config) = None" "upstreams (dns dual_config) \<noteq> []"
    "allow_from (dns dual_config) = [''loopback'', ''private'']"
    by (simp_all add: dual_config_def Config_default_def DiscoveryConfig_default_def DnsConfig_default_def)
  have "\<exists>p. main_run dual_boot demo_cli = Running p"
    using l o d by (cases "upstreams (dns dual_config)")
      (simp_all add: main_run_def first_download_def boot_subnet_def start_tasks_def Let_def dual_boot_def demo_boot_def demo_cli_def)
  then obtain p where p: "main_run dual_boot demo_cli = Running p" by blast
  have "boot_subnet dual_boot dual_config = Inr None"
    using d(1) by (simp add: boot_subnet_def dual_boot_def demo_boot_def default_route_def)
  moreover obtain cfg lan b where "loaded dual_boot = Inr cfg" "boot_subnet dual_boot (apply_overrides demo_cli cfg) = Inr lan"
    "ap_cfg (pg_state p) = apply_overrides demo_cli cfg"
    "ap_resolver (pg_state p) = resolver_new (apply_overrides demo_cli cfg) lan b (boot_registry dual_boot (apply_overrides demo_cli cfg))"
    using running_steps [OF p] by metis
  ultimately have "ap_cfg (pg_state p) = dual_config"
    "rs_acl (ap_resolver (pg_state p)) = resolver_acl (allow_from (dns dual_config)) None"
    using l o by (simp_all add: resolver_new_def)
  then show thesis using that [OF p] d(3) default_acl by (simp add: resolver_acl_def)
qed

lemma listeners_refine_events_witness:
  "\<exists>p. main_run dual_boot demo_cli = Running p \<and>
     in_sync (sv_app (fold served_step [At_Udp 0 (U_Datagram [0, 5, 1] \<lparr>sa_ip = IpV4 5, sa_port = 9\<rparr>),
       Elsewhere (Ev_Refresh demo_refresh_env True) :: unit Act, At_Tcp 1 (T_Connect \<lparr>sa_ip = IpV6 1, sa_port = 9\<rparr>)] (served_new p)))"
proof -
  obtain p where p: "main_run dual_boot demo_cli = Running p" using dual_running by metis
  let ?as = "[At_Udp 0 (U_Datagram [0, 5, 1] \<lparr>sa_ip = IpV4 5, sa_port = 9\<rparr>),
       Elsewhere (Ev_Refresh demo_refresh_env True) :: unit Act, At_Tcp 1 (T_Connect \<lparr>sa_ip = IpV6 1, sa_port = 9\<rparr>)]"
  have "list_all settles ?as" by simp
  then show ?thesis using listeners_refine_events [OF p, of ?as] p by blast
qed

theorem program_serves_only_admitted_witness:
  "\<exists>p. main_run dual_boot demo_cli = Running p \<and>
     length (sv_udp (fold served_step [At_Udp 1 (U_Datagram [0, 5, 1] \<lparr>sa_ip = IpV6 1, sa_port = 9\<rparr>) :: unit Act] (served_new p))) = 2"
proof -
  obtain p where p: "main_run dual_boot demo_cli = Running p" "dns (ap_cfg (pg_state p)) = dns dual_config" using dual_running by metis
  moreover have "length (dns_listeners (ap_cfg (pg_state p))) = 2"
    using p(2) by (simp add: dns_listeners_def dual_config_def)
  ultimately show ?thesis
    using conjunct1 [OF program_serves_only_admitted [OF p(1), of "[At_Udp 1 (U_Datagram [0, 5, 1] \<lparr>sa_ip = IpV6 1, sa_port = 9\<rparr>) :: unit Act]"]] p(1)
    by (auto simp del: fold_simps served_step.simps)
qed

theorem limit_is_per_listener_witness:
  "\<exists>p. main_run dual_boot demo_cli = Running p \<and> max_udp_in_flight (dns (ap_cfg (pg_state p))) = 128 \<and>
     (\<exists>as :: unit Act list. in_flight (fold served_step as (served_new p)) = 256)"
proof -
  obtain p where p: "main_run dual_boot demo_cli = Running p" "dns (ap_cfg (pg_state p)) = dns dual_config"
    "rs_acl (ap_resolver (pg_state p)) = \<lparr>rules = [Loopback, Private]\<rparr>" using dual_running by metis
  have a: "acl_allows (rs_acl (ap_resolver (pg_state p))) (sa_ip \<lparr>sa_ip = IpV6 1, sa_port = 9\<rparr>)"
    by (simp add: p(3) acl_allows_def)
  have "max_udp_in_flight (dns dual_config) = 128" "listen_v6 (dns dual_config) \<noteq> None"
    by (simp_all add: dual_config_def DnsConfig_default_def)
  then show ?thesis
    using limit_is_per_listener [where 'f = unit, OF p(1) a] p(1,2) by (auto simp del: fold_simps)
qed

end
