(* ===== verification/Spec2Isabelle.thy ===== *)
theory Spec2Isabelle
  imports Lasting_Block Listeners
begin

text \<open>
  netwatch is a DNS forwarder and network monitor for a home LAN: it answers the LAN's queries, blocks
  names from downloaded and manual lists, remembers answers, keeps a log and a register of devices in
  SQLite, raises alerts, and serves a dashboard. This development models the crate under \<open>src/src\<close>.

  \<^bold>\<open>The parts and the theories.\<close> Each theory opens with its own description.

  \<^item> \<open>Prelude\<close>: machine types, hash maps, locks, descending sort keys; the interfaces shared by several
    components as locales (\<open>hash_map\<close>, \<open>bounded_queue\<close>, \<open>lossy_queue\<close>, \<open>rate_gate\<close>, \<open>event_system\<close>,
    \<open>simulation\<close>, \<open>reachable_invariant\<close>, \<open>draining\<close>); \<open>registry_law\<close> (\<open>Devices\<close>) and \<open>task_law\<close>
    (\<open>Workers\<close>) are the interfaces between the registry and what works on it. \<open>Rust_Str\<close>, \<open>Net_Addr\<close>: the parts of
    the standard library's strings and addresses the code calls.
  \<^item> \<open>Oui\<close> (\<open>oui.rs\<close>): MAC vendor table. \<open>Acl\<close> (\<open>dns/acl.rs\<close>): who may ask. \<open>Netinfo\<close>
    (\<open>netinfo.rs\<close>): the kernel's tables and subnets. \<open>Config\<close> (\<open>config.rs\<close>): settings and their check.
  \<^item> \<open>Dns_Message\<close>, \<open>Cache\<close> (\<open>dns/cache.rs\<close>): messages as the DNS crate gives them, and the answer cache.
  \<^item> \<open>Blocklist\<close> (\<open>blocklist.rs\<close>): list syntax, matcher, downloads, rebuilding; \<open>Blocklist_Spec\<close>: the set of
    rules the lists describe, and that the matcher refines it; \<open>Manual_Lists\<close>: the two edited lists.
  \<^item> \<open>Db\<close> (\<open>db.rs\<close>): writer queue, transactions as operations on tables, retention; \<open>Reports\<close>: the read
    queries; \<open>Db_File\<close>: opening, maintaining and rebuilding the file, over SQLite as a parameter.
    \<open>Alerts\<close> (\<open>alerts.rs\<close>): sink, cooldown, draining task, storm scan.
  \<^item> \<open>Discovery\<close>, \<open>Devices\<close> (\<open>devices.rs\<close>): host names, PTR names and DHCP packets; the registry, its
    restoration from the database, and one turn of each discovery worker.
  \<^item> \<open>Resolver\<close>, \<open>Sockets\<close>, \<open>Dns_Server\<close>, \<open>Tcp_Server\<close> (\<open>dns/mod.rs\<close>): one request from bytes to bytes, the
    upstream exchanges; the construction of the listening sockets (also those of \<open>devices.rs\<close>), binding with
    retry, the UDP server as a step relation over tasks in flight, TCP sessions and the TCP server.
  \<^item> \<open>Monitor\<close> (\<open>monitor.rs\<close>): the throughput and latency samplers. \<open>Api\<close> (\<open>api.rs\<close>): routes, admin
    check, layers, every handler. \<open>Startup\<close> (\<open>main.rs\<close>): command line, configuration check, setup,
    tasks, scheduled refresh. \<open>Workers\<close>: one turn of each background task on the shared state, and the
    laws every task keeps. \<open>Running\<close>: the running program as a sequence of events, a program's life as a
    sequence of runs. \<open>Listeners\<close>: all DNS listeners together with the rest of the program, as a refinement
    of those events.
  \<^item> \<open>Policy_Edits\<close>: the list edits over HTTP as changes of the set of rules. \<open>Interleaving\<close>: the tasks that
    change the lists (edits, reload, refresh) in parts that overlap. \<open>Lasting_Block\<close>: how long a domain
    blocked over HTTP stays blocked. This theory: the properties that span components.

  \<^bold>\<open>How they interact.\<close> A DNS request passes the access list, then the matcher, then the cache, then the
  upstreams; its outcome is logged through the writer, and what it says about devices goes to the
  registry, which writes rows and raises alerts. The HTTP interface edits the manual lists or
  downloads the others, rebuilds the matcher and empties the cache; the scheduled refresh does the
  same. The discovery workers feed the registry, the samplers the writer; the alert task takes alerts
  from their queue to the writer, and the writer thread takes the writer's queue to the database the
  reports are read from. Startup builds all of it from the configuration, the files and the database.

  \<^bold>\<open>State and operations.\<close> A struct is a record, an enum a datatype; an operation is a function that
  returns the new state, and the error paths are values. Everything the outside decides is an
  argument: clock readings, file contents, what the kernel and SQLite answer, upstream replies, the
  moment a timeout fires, iteration orders of hash maps, and the functions of third-party crates (the
  DNS codec, the TOML reader, the HTTP client and framework), whose documented laws are named hypotheses
  (\<open>proto_ok\<close>, \<open>iteration_order\<close>, \<open>sqlite_ok\<close>, \<open>vacuum_ok\<close>, \<open>refuses_only_clashes\<close>). A lock is an
  option, \<open>None\<close> being poisoned. Integers keep their width where they can wrap. Where tasks interleave,
  the order is explicit: a DNS request is a part before and a part after its only suspension point, the
  UDP and the TCP server are inductive step relations (bytes arrive and answers are written in pieces over
  TCP), the program is a fold over its events, a handler that is dropped at its deadline is told at which
  wait, which \<open>deadline_cut\<close> computes from how long the waits take. \<open>Api\<close> and \<open>Running\<close> take a request that changes the
  lists as one step; \<open>Interleaving\<close> has the parts between which other tasks run, and shows that they make
  up the step when nothing gets in between.

  \<^bold>\<open>What is shown.\<close>

  \<^item> The request path: blocked names never leave the house, answers match their questions, forwarding
    takes the first usable reply in configured order, repeated questions are answered from the cache
    with exact TTLs and within its bound, every query is accounted for once: logged, or counted as a timeout
    (\<open>Resolver\<close>, \<open>Cache\<close>).
  \<^item> The access list admits exactly the documented networks, and the servers work only for admitted
    peers, within their bounds, answer a datagram at most once and a connection with complete frames (but for
    the last when it ends while that is written), and regain their capacity; the listeners of
    both address families coexist, and the whole program with all of them keeps to this, each listener with
    a limit of its own (\<open>Acl\<close>, \<open>Dns_Server\<close>, \<open>Tcp_Server\<close>, \<open>Sockets\<close>, \<open>Listeners\<close>).
  \<^item> The matcher built from the files decides as the set of all their rules does, in whatever order and
    however often they are listed; it is well formed; downloads never cost a cached list; an edit over HTTP
    changes the decision about one name (\<open>Blocklist\<close>, \<open>Blocklist_Spec\<close>, \<open>Policy_Edits\<close>).
  \<^item> The reports: pages of the query log, chart and rankings count every query exactly once, in the
    documented order, and the counts per device stay within the totals (\<open>Reports\<close>).
  \<^item> The database: one device per address, batching refines the log of accepted operations, every
    event is queued or counted; device strings are safe across restarts, alerts and heartbeats are
    rate limited, restarts raise no alarms; a new file can shrink, a rebuilt one too, and the maintenance
    loop ends (\<open>Db\<close>, \<open>Db_File\<close>, \<open>Devices\<close>, \<open>Alerts\<close>).
  \<^item> The program: nothing is changed over HTTP without the token, a domain blocked over HTTP stays blocked
    until it is removed from the list (with the conditions stated there), startup is sound and panics only
    where the system refuses the writer thread, over any sequence of events the policy is fixed and the matcher agrees
    with the lists on disk, and with overlapping edits it does when the matchers are installed in the order
    they were built; a blocked query and a new device arrive on the dashboard; over any number of
    runs the device list it gets is sound and the cache and the queues stay within their bounds
    (\<open>Api\<close>, \<open>Startup\<close>, \<open>Running\<close>, \<open>Interleaving\<close>, \<open>Lasting_Block\<close>, here).
  \<^item> Where the code does not do what it means to, the behaviour it has is proved instead (the access
    list without rules, element-hiding rules, appending to a file without a final line feed, DHCP-first
    devices, overrides after validation, reloads cut off by the deadline, edits undone by a matcher built
    before them, additions lost to a removal that overlaps them, limits that hold per listener).

  \<^bold>\<open>Bounds and termination.\<close> Loops are structural recursion or folds over the data they read. The two
  loops that could run on are partial functions: binding a socket with retries is proved to return after
  at most eleven attempts, stepping the vacuum statement to end when each row gives back a page. A
  receive loop that waits for a datagram that never comes is the value \<open>Pending\<close> of its exchange, which
  the timeouts turn into an error. No fuel is used.

  \<^bold>\<open>Not modelled.\<close> Logging, and printing to the terminal, which is taken to succeed; the async runtime beyond the interleavings above (a file is read or written,
  a matcher built and a refresh downloaded at one moment); signals; serialisation to
  JSON and TOML; floating-point arithmetic (a parameter where a value depends on it); SQLite itself;
  the construction of HTTP clients; the dashboard page and the tests.
\<close>

section \<open>Consistency\<close>

text \<open>
  C1. From startup on, whatever requests, refreshes and queries follow in whatever order, a request that
  changes the lists being over before the next begins (\<open>Interleaving\<close> has those that overlap), the running
  program keeps two promises. The policy it was started with (the configuration and the access list)
  never changes. And as long as no request is cut off by its deadline and no matcher task is lost, the
  matcher in use is at every moment the one the lists on disk describe, also across refreshes of which
  some or all sources fail.
\<close>

theorem netwatch_consistent:
  assumes "main_run B cli = Running p"
  shows "policy (fold netwatch_step es (pg_state p)) = policy (pg_state p) \<and>
    (list_all completes es \<longrightarrow> in_sync (fold netwatch_step es (pg_state p)))"
proof -
  have "in_sync (pg_state p)" using assms by (rule running_in_sync)
  then show ?thesis using sync.run_keeps [of "pg_state p" es] fixed.run_keeps [of "pg_state p" "policy (pg_state p)" es]
    by (simp add: list_all_iff)
qed

theorem netwatch_consistent_witness:
  "\<exists>p. main_run demo_boot demo_cli = Running p \<and>
     in_sync (fold netwatch_step [Ev_Http (demo_api None) (demo_post ''/api/deny'' None), Ev_Refresh demo_refresh_env True,
       Ev_Query demo_env [0, 5, 1] (IpV4 5), Ev_Sweep 9] (pg_state p))"
proof -
  obtain p where "main_run demo_boot demo_cli = Running p" using demo_running [of demo_cli] by (auto simp: demo_cli_def)
  then show ?thesis
    using netwatch_consistent [of demo_boot demo_cli p "[Ev_Http (demo_api None) (demo_post ''/api/deny'' None),
        Ev_Refresh demo_refresh_env True, Ev_Query demo_env [0, 5, 1] (IpV4 5), Ev_Sweep 9]"]
    by (simp add: demo_api_def)
qed

section \<open>From the wire to the dashboard\<close>

text \<open>
  C11. A blocked query reaches the dashboard: when a client asks for a blocked name and the writer's queue
  has room, then, once the writer thread has had as many turns as there were operations to write and its
  transactions commit, the page of recent queries lists that query first, with the client, the name, the
  status \<open>blocked\<close> and the list that blocks it, provided nothing recorded before has a later time.
\<close>

theorem blocked_query_reported:
  fixes es :: "'g Event list" and A :: "'f ApiEnv"
  assumes blocked: "standard_query (e_proto E) request msg q" "\<not> is_canary (ap_resolver st) (query_domain q)"
      "blocked_by (ap_resolver st) (query_domain q) = Some list"
    and db: "ap_db st = Some db" "db_run db" "\<forall>(_, e) \<in> set (t_queries db). qe_ts e \<le> e_ts E"
    and queue: "queue = w_queue (writer_of (ap_resolver st))" "w_connected (writer_of (ap_resolver st))"
      "length queue + 2 \<le> WRITER_DEPTH" "list_all (no_later (e_ts E)) queue"
    and writes: "list_all plain_write es" "length queue + 2 \<le> length es"
    and http: "rq_method rq = GET" "rq_path rq = ''/api/queries''"
      "rq_query rq = Some \<lparr>qp_limit = None, qp_offset = None, qp_search = None, qp_client = None, qp_status = None\<rparr>"
      "ev_cut A = None" "ev_sql A"
  shows "\<exists>i ev d rows.
    re_body (snd (api_request A rq (fold netwatch_step (Ev_Query E request client # es) st))) = B_Queries (((i, ev), d) # rows) \<and>
    qe_ts ev = e_ts E \<and> qe_client_ip ev = show_ip client \<and> qe_domain ev = query_domain q \<and>
    qe_status ev = Blocked \<and> qe_blocklist ev = Some list"
proof -
  let ?st = "netwatch_step (Ev_Query E request client :: 'g Event) st"
  let ?ev = "\<lparr>qe_ts = e_ts E, qe_client_ip = show_ip client, qe_domain = query_domain q, qe_qtype = rtype_str (e_proto E) (q_type q),
      qe_status = Blocked, qe_elapsed_ms = None, qe_answer = None, qe_blocklist = Some list\<rparr>"
  obtain ops where ops: "device_rows_only ops"
    "writer_of (ap_resolver ?st) = fold writer_send (ops @ [W_Query ?ev]) (writer_of (ap_resolver st))"
    using resolver_log_writes [of E "query_domain q" "q_type q" client Blocked None None "Some list"
        "count_stat s_blocked_update (count_stat s_total_update (ap_resolver st))"] local_blocked [OF blocked, of client]
    by (auto simp: writer_of_def)
  have few: "length (ops @ [W_Query ?ev]) \<le> 2" using ops(1) by (auto simp: device_rows_only_def)
  have q: "w_queue (writer_of (ap_resolver ?st)) = queue @ ops @ [W_Query ?ev]"
    unfolding ops(2) using wq.fifo [OF queue(2), of "ops @ [W_Query ?ev]"] few queue(3) by (simp add: queue(1) [symmetric])
  let ?before = "fold apply_op (queue @ ops) db"
  have "ap_db ?st = Some db" "length (queue @ ops @ [W_Query ?ev]) \<le> length es" using db(1) writes(2) few by simp_all
  then have "ap_db (fold netwatch_step es ?st) = Some (fold apply_op (queue @ ops @ [W_Query ?ev]) db)"
    using writes_drain [of ?st db es] writes(1) unfolding q by blast
  then have final: "ap_db (fold netwatch_step es ?st) = Some (apply_op (W_Query ?ev) ?before)" by simp
  have "db_run ?before" using run_flush [OF db(2), of True "queue @ ops"] by (simp add: flush_def)
  moreover have "\<forall>(_, e) \<in> set (t_queries ?before). qe_ts e \<le> qe_ts ?ev"
    using queries_after [of "e_ts E" "queue @ ops" db] queue(4) db(3) ops(1) by (auto simp: device_rows_only_def no_later_def)
  ultimately obtain d rows where "recent_queries (ev_like A) (apply_op (W_Query ?ev) ?before)
      \<lparr>f_limit = 100, f_offset = 0, f_search = None, f_client = None, f_status = None\<rparr> = ((t_next_query ?before, ?ev), d) # rows"
    using newest_listed_first [of ?before ?ev "\<lparr>f_limit = 100, f_offset = 0, f_search = None, f_client = None, f_status = None\<rparr>" "ev_like A"]
    by auto
  then show ?thesis using default_queries [OF http final] by auto
qed

theorem blocked_query_reported_witness:
  "\<exists>i ev d rows. re_body (snd (api_request (demo_api None)
       \<lparr>rq_method = GET, rq_path = ''/api/queries'', rq_authorization = None,
        rq_query = Some \<lparr>qp_limit = None, qp_offset = None, qp_search = None, qp_client = None, qp_status = None\<rparr>,
        rq_range = None, rq_domain = None\<rparr>
       (fold netwatch_step [Ev_Query demo_env [0, 5, 1] (IpV4 5), Ev_Turn (T_Write 0 True 0 0 0 0), Ev_Turn (T_Write 0 True 0 0 0 0) :: unit Event]
         (demo_state\<lparr>ap_resolver := demo_resolver demo_list\<rparr>)))) = B_Queries (((i, ev), d) # rows) \<and>
     qe_domain ev = ''ads.example.com'' \<and> qe_status ev = Blocked \<and> qe_blocklist ev = Some ''my list''"
proof -
  let ?st = "demo_state\<lparr>ap_resolver := demo_resolver demo_list\<rparr>"
  have "\<not> is_canary (ap_resolver ?st) (query_domain demo_question)"
    by (simp add: is_canary_def demo_query_domain FIREFOX_CANARY_def)
  moreover have "blocked_by (ap_resolver ?st) (query_domain demo_question) = Some ''my list''"
    by (simp add: demo_query_domain demo_blocked)
  moreover have "ap_db ?st = Some db_empty" "t_queries db_empty = []" by (simp_all add: demo_state_def db_empty_def)
  moreover have "w_queue (writer_of (ap_resolver ?st)) = []" "w_connected (writer_of (ap_resolver ?st))"
    by (simp_all add: writer_of_def hub_of_def demo_resolver_def resolver_new_def hub_new_def writer_new_def)
  ultimately show ?thesis
    using blocked_query_reported [OF demo_standard, of ?st "''my list''" db_empty "[]"
        "[Ev_Turn (T_Write 0 True 0 0 0 0), Ev_Turn (T_Write 0 True 0 0 0 0) :: unit Event]"
        "\<lparr>rq_method = GET, rq_path = ''/api/queries'', rq_authorization = None,
          rq_query = Some \<lparr>qp_limit = None, qp_offset = None, qp_search = None, qp_client = None, qp_status = None\<rparr>,
          rq_range = None, rq_domain = None\<rparr>" "demo_api None" "IpV4 5"] run_empty
    by (simp add: WRITER_DEPTH_def demo_query_domain demo_api_def duration_since_def from_secs_def del: netwatch_step.simps) blast
qed

text \<open>
  C12. A device nobody has seen before is reported: when the ARP table shows an address the registry does
  not hold, and no alert about it is cooling down, then, once the alert task and the writer thread
  have had their turns, the page of alerts lists a new-device alert about exactly that address first,
  marked as notified exactly when the push was accepted. Nothing consults \<open>alerts.new_device\<close>.
\<close>

theorem new_device_reported:
  fixes es :: "'g Event list" and A :: "'f ApiEnv"
  assumes device: "rs_registry (ap_resolver st) = (d, hub)" "ds_inner d = Some i" "oui_normalize (arp_mac e) = Some mac"
      "hm_get (by_mac i) mac = None" "iface = None \<or> iface = Some (arp_iface e)"
      "case subnet of Some s \<Rightarrow> subnet_contains s (arp_ip e) | None \<Rightarrow> True"
    and sink: "h_alerts hub = Some s" "as_open s" "as_queue s = []" "as_cooldown s = Some m"
      "hm_get m (''new_device'', mac) = None"
    and db: "ap_db st = Some db" "db_run db" "\<forall>(_, a) \<in> set (t_alerts db). ao_ts a \<le> ts"
    and queue: "w_connected (h_writer hub)" "length (w_queue (h_writer hub)) + 2 \<le> WRITER_DEPTH"
      "list_all (no_later_alert ts) (w_queue (h_writer hub))"
    and writes: "list_all plain_write es" "length (w_queue (h_writer hub)) + 2 \<le> length es"
    and http: "rq_method rq = GET" "rq_path rq = ''/api/alerts''"
      "rq_range rq = Some \<lparr>rp_hours = None, rp_limit = None, rp_minutes = None\<rparr>" "ev_cut A = None" "ev_sql A"
  shows "\<exists>host vendor i a rows.
    re_body (snd (api_request A rq (fold netwatch_step
      (Ev_Turn (T_Arp fp ck subnet iface (Some [e])) # Ev_Turn (T_Alert client post ts) # es) st))) = B_Alerts ((i, a) # rows) \<and>
    ao_ts a = ts \<and> ao_kind a = ''new_device'' \<and> ao_subject a = mac \<and>
    ao_notified a = (client \<and> notify post (alert_new_device mac host vendor))"
proof -
  let ?q = "w_queue (h_writer hub)" and ?st = "turn (T_Alert client post ts) (turn (T_Arp fp ck subnet iface (Some [e])) st)"
  obtain row host vendor where q: "w_queue (writer_of (ap_resolver ?st)) =
      ?q @ [W_Device row, W_Alert (alert_op client post ts (alert_new_device mac host vendor))]"
    using sighting_recorded [OF device sink queue(1,2)] by metis
  let ?al = "alert_new_device mac host vendor" and ?before = "fold apply_op (?q @ [W_Device row]) db"
  let ?op = "alert_op client post ts ?al"
  have "ap_db ?st = Some db" using db(1) turn_db [of "T_Alert client post ts"] turn_db [of "T_Arp fp ck subnet iface (Some [e])"] by simp
  then have "ap_db (fold netwatch_step es ?st) = Some (fold apply_op (?q @ [W_Device row, W_Alert ?op]) db)"
    using writes_drain [of ?st db es] writes unfolding q by simp
  moreover have "fold apply_op (?q @ [W_Device row, W_Alert ?op]) db = apply_op (W_Alert ?op) ?before" by simp
  ultimately have final: "ap_db (fold netwatch_step es ?st) = Some (apply_op (W_Alert ?op) ?before)" by metis
  have "db_run ?before" using run_flush [OF db(2), of True "?q @ [W_Device row]"] by (simp add: flush_def)
  moreover have "\<forall>(_, a) \<in> set (t_alerts ?before). ao_ts a \<le> ao_ts ?op"
    using alerts_after [of ts "?q @ [W_Device row]" db] queue(3) db(3) by (simp add: no_later_alert_def alert_op_def)
  ultimately obtain rows where "recent_alerts 50 (apply_op (W_Alert ?op) ?before) = (t_next_alert ?before, ?op) # rows"
    using newest_alert_first [of _ ?op 50] by fastforce
  then have "re_body (snd (api_request A rq (fold netwatch_step es ?st))) = B_Alerts ((t_next_alert ?before, ?op) # rows)"
    using default_alerts [OF http final] by simp
  moreover have "ao_ts ?op = ts" "ao_kind ?op = ''new_device''" "ao_subject ?op = mac" "ao_notified ?op = (client \<and> notify post ?al)"
    by (simp_all add: alert_op_def alert_new_device_def Let_def)
  ultimately show ?thesis unfolding fold_simps netwatch_step.simps by blast
qed

theorem new_device_reported_witness:
  "\<exists>i a rows. re_body (snd (api_request (demo_api None)
     \<lparr>rq_method = GET, rq_path = ''/api/alerts'', rq_authorization = None, rq_query = None,
      rq_range = Some \<lparr>rp_hours = None, rp_limit = None, rp_minutes = None\<rparr>, rq_domain = None\<rparr>
     (fold netwatch_step
       [Ev_Turn (T_Arp demo_hash (\<lambda>_. demo_ck 0) None None (Some [\<lparr>arp_ip = 5, arp_mac = demo_mac, arp_iface = ''eth0''\<rparr>])),
        Ev_Turn (T_Alert False (\<lambda>_ _ _ _. None) 7), Ev_Turn (T_Write 0 True 0 0 7 0), Ev_Turn (T_Write 0 True 0 0 7 0) :: unit Event]
       (demo_state\<lparr>ap_resolver := (demo_resolver demo_list)
          \<lparr>rs_registry := (devices_new demo_oui, hub_new\<lparr>h_alerts := Some demo_sink\<rparr>)\<rparr>\<rparr>)))) = B_Alerts ((i, a) # rows) \<and>
     ao_kind a = ''new_device'' \<and> ao_subject a = demo_mac"
proof -
  let ?hub = "hub_new\<lparr>h_alerts := Some demo_sink\<rparr>"
  let ?st = "demo_state\<lparr>ap_resolver := (demo_resolver demo_list)\<lparr>rs_registry := (devices_new demo_oui, ?hub)\<rparr>\<rparr>"
  let ?i = "\<lparr>by_mac = [], ip_to_mac = [], pending_names = []\<rparr>"
  have "rs_registry (ap_resolver ?st) = (devices_new demo_oui, ?hub)" "ds_inner (devices_new demo_oui) = Some ?i"
    by (simp_all add: devices_new_def)
  moreover have "hm_get (by_mac ?i) demo_mac = None" by (simp add: hm_get_def)
  moreover have "ap_db ?st = Some db_empty" "t_alerts db_empty = []" by (simp_all add: demo_state_def db_empty_def)
  moreover have "w_queue (h_writer ?hub) = []" "w_connected (h_writer ?hub)" "h_alerts ?hub = Some demo_sink"
    by (simp_all add: hub_new_def writer_new_def)
  moreover have "as_open demo_sink" "as_queue demo_sink = []" "as_cooldown demo_sink = Some []" by (simp_all add: demo_sink_def)
  ultimately show ?thesis
    using new_device_reported [of ?st "devices_new demo_oui" ?hub ?i "\<lparr>arp_ip = 5, arp_mac = demo_mac, arp_iface = ''eth0''\<rparr>" demo_mac
        None None demo_sink "[]" db_empty 7 "[Ev_Turn (T_Write 0 True 0 0 7 0), Ev_Turn (T_Write 0 True 0 0 7 0) :: unit Event]"
        "\<lparr>rq_method = GET, rq_path = ''/api/alerts'', rq_authorization = None, rq_query = None,
          rq_range = Some \<lparr>rp_hours = None, rp_limit = None, rp_minutes = None\<rparr>, rq_domain = None\<rparr>" "demo_api None"
        demo_hash "\<lambda>_. demo_ck 0" False "\<lambda>_ _ _ _. None"] run_empty demo_mac_norm
    by (simp add: WRITER_DEPTH_def hm_get_def demo_api_def duration_since_def from_secs_def del: netwatch_step.simps) blast
qed

section \<open>Over the life of the program\<close>

lemma demo_runs: "\<exists>p. main_run (demo_boot\<lparr>bt_db := db\<rparr>) demo_cli = Running p"
proof -
  obtain u us where u: "upstreams (dns Config_default) = u # us" using demo_upstreams by (cases "upstreams (dns Config_default)") auto
  have "loaded (demo_boot\<lparr>bt_db := db\<rparr>) = Inr Config_default" by (simp add: loaded_def load_or_default_def demo_boot_def)
  moreover have "d_subnet (discovery Config_default) = None"
    by (simp add: Config_default_def DiscoveryConfig_default_def)
  ultimately show ?thesis
    using u by (simp add: main_run_def first_download_def boot_subnet_def start_tasks_def Let_def demo_cli_def)
      (simp add: demo_boot_def)
qed

definition demo_life :: "unit Event list" where
  "demo_life = [Ev_Turn (T_Arp demo_hash (\<lambda>_. demo_ck 0) None None (Some [\<lparr>arp_ip = 5, arp_mac = demo_mac, arp_iface = ''eth0''\<rparr>])), Ev_Turn (T_Write 9 True 0 0 7 0)]"

text \<open>A first run on an empty database that sees one device and records it.\<close>

lemma demo_database:
  "\<exists>db d. database_after [(demo_boot, demo_cli, demo_life)] db_empty = Some db \<and> t_devices db = [d] \<and> dv_mac d = demo_mac"
proof -
  obtain p where p: "main_run (demo_boot\<lparr>bt_db := db_empty\<rparr>) demo_cli = Running p" using demo_runs by blast
  obtain cfg lan b where "ap_resolver (pg_state p) = resolver_new cfg lan b (boot_registry (demo_boot\<lparr>bt_db := db_empty\<rparr>) cfg)"
    using running_steps [OF p] by metis
  moreover obtain d hub where r: "boot_registry (demo_boot\<lparr>bt_db := db_empty\<rparr>) cfg = (d, hub)" by fastforce
  ultimately have reg: "rs_registry (ap_resolver (pg_state p)) = (d, hub)" by (simp add: resolver_new_def)
  have boot: "ds_inner d = Some \<lparr>by_mac = [], ip_to_mac = [], pending_names = []\<rparr>" "h_writer hub = writer_new"
    using r by (auto simp: boot_registry_def demo_boot_def with_alerts_def Let_def devices_new_def hydrate_def known_devices_def db_empty_def)
  let ?arp = "T_Arp demo_hash (\<lambda>_. demo_ck 0) None None (Some [\<lparr>arp_ip = 5, arp_mac = demo_mac, arp_iface = ''eth0''\<rparr>])"
  obtain row host vendor where hub: "hub_of (ap_resolver (turn ?arp (pg_state p))) =
      hub_raise (ck_alert (demo_ck 0)) (alert_new_device demo_mac host vendor) (hub\<lparr>h_writer := writer_send (W_Device row) writer_new\<rparr>)"
      "do_mac row = demo_mac"
    by (rule arp_new_device [OF reg boot(1), of "\<lparr>arp_ip = 5, arp_mac = demo_mac, arp_iface = ''eth0''\<rparr>" demo_mac None None demo_hash
          "\<lambda>_. demo_ck 0"]) (simp_all add: demo_mac_norm hm_get_def boot(2))
  have "w_queue (writer_of (ap_resolver (turn ?arp (pg_state p)))) = [W_Device row]"
    unfolding writer_of_def hub by (simp add: hub_raise_def writer_send_def writer_new_def WRITER_DEPTH_def)
  moreover have "ap_db (turn ?arp (pg_state p)) = Some db_empty" using turn_db [of ?arp] running_db [OF p] by simp
  ultimately have "ap_db (fold netwatch_step demo_life (pg_state p)) = Some (apply_op (W_Device row) db_empty)"
    using writes_drain [of "turn ?arp (pg_state p)" db_empty "[Ev_Turn (T_Write 9 True 0 0 7 0)]"]
    by (simp add: demo_life_def duration_since_def)
  moreover have "\<exists>d. t_devices (apply_op (W_Device row) db_empty) = [d] \<and> dv_mac d = demo_mac"
    using hub(2) by (cases "do_ip row") (auto simp: upsert_device_def db_empty_def release_ip_def)
  ultimately show ?thesis using p by simp
qed

text \<open>
  C13. Whatever devices announce about themselves, from any bytes on the wire, over any number of runs of
  the program with any configurations, and whatever its tasks and clients do in whatever order, the
  device list the dashboard gets holds only canonical MAC addresses and host names that are absent or
  made of at most 64 lower-case letters, digits and \<open>-_.\<close>; every device is listed once, and no two
  hold the same address.
\<close>

theorem devices_sound:
  fixes es :: "'f Event list" and A :: "'g ApiEnv"
  assumes "database_after runs db_empty = Some (bt_db B)" "main_run B cli = Running p"
    and "iteration_order (ev_visit_devices A)" "rq_method rq = GET" "rq_path rq = ''/api/devices''"
    and "re_body (snd (api_request A rq (fold netwatch_step es (pg_state p)))) = B_Devices rows"
  shows "list_all (\<lambda>row. is_mac (dv_mac (dr_device row)) \<and> name_ok (dv_hostname (dr_device row))) rows \<and>
    distinct (map (\<lambda>row. dv_mac (dr_device row)) rows) \<and>
    (\<forall>ip. length (filter (\<lambda>row. dv_ip (dr_device row) = Some ip) rows) \<le> 1)"
proof -
  let ?st = "fold netwatch_step es (pg_state p)"
  have "state_law ?st" by (rule life_law [OF assms(1,2)])
  moreover have "find_route readonly rq = Some E_Devices" using assms(4,5) by (simp add: find_route_def readonly_def)
  ultimately obtain db where db: "db_law db" "rows = device_rows (ev_visit_devices A) (ev_now A) db"
    using assms(6)
    by (auto simp: api_request_def api_devices_def db_handler_def with_db_def deadline_def security_headers_def
        into_response_def internal_error_def state_law_def Let_def split: if_splits option.splits)
  let ?ds = "map dr_device rows"
  have "?ds = sort_key (\<lambda>d. Desc (dv_last_seen d)) (ev_visit_devices A (t_devices db))"
    by (simp add: db(2) device_rows_def Let_def comp_def)
  then have m: "mset ?ds = mset (t_devices db)" using assms(3) by (simp add: iteration_order_def)
  have s: "set ?ds = set (t_devices db)" using m by (metis set_mset_mset)
  have "list_all row_safe ?ds" using db(1) s unfolding db_law_def db_safe_def list_all_iff by simp
  moreover have "distinct (map dv_mac ?ds)"
    using db(1) m unfolding db_law_def devices_wf_def by (metis mset_eq_imp_distinct_iff mset_map)
  moreover have "length (filter (\<lambda>d. dv_ip d = Some ip) ?ds) \<le> 1" for ip
  proof -
    have "mset (filter (\<lambda>d. dv_ip d = Some ip) ?ds) = mset (filter (\<lambda>d. dv_ip d = Some ip) (t_devices db))"
      using m by (simp add: mset_filter)
    then have "length (filter (\<lambda>d. dv_ip d = Some ip) ?ds) = length (filter (\<lambda>d. dv_ip d = Some ip) (t_devices db))"
      by (metis size_mset)
    then show ?thesis using unique_filter db(1) by (simp add: db_law_def)
  qed
  ultimately show ?thesis by (simp add: list_all_iff row_safe_def comp_def filter_map)
qed

theorem devices_sound_witness:
  "\<exists>db p rows. database_after [(demo_boot, demo_cli, demo_life)] db_empty = Some db \<and>
     main_run (demo_boot\<lparr>bt_db := db\<rparr>) demo_cli = Running p \<and>
     re_body (snd (api_request (demo_api None) \<lparr>rq_method = GET, rq_path = ''/api/devices'', rq_authorization = None, rq_query = None,
       rq_range = None, rq_domain = None\<rparr> (fold netwatch_step [Ev_Sweep 9 :: unit Event] (pg_state p)))) = B_Devices rows \<and>
     length rows = 1 \<and> list_all (\<lambda>row. is_mac (dv_mac (dr_device row))) rows"
proof -
  let ?rq = "\<lparr>rq_method = GET, rq_path = ''/api/devices'', rq_authorization = None, rq_query = None, rq_range = None, rq_domain = None\<rparr>"
  obtain db d where db: "database_after [(demo_boot, demo_cli, demo_life)] db_empty = Some db" "t_devices db = [d]"
    using demo_database by blast
  obtain p where p: "main_run (demo_boot\<lparr>bt_db := db\<rparr>) demo_cli = Running p" using demo_runs by blast
  let ?st = "fold netwatch_step [Ev_Sweep 9 :: unit Event] (pg_state p)"
  let ?rows = "device_rows id 0 db"
  have "re_body (snd (api_request (demo_api None) ?rq ?st)) = B_Devices ?rows"
    using running_db [OF p] by (simp add: api_request_def find_route_def readonly_def api_devices_def db_handler_def with_db_def
        deadline_def security_headers_def demo_api_def Let_def)
  moreover have "length ?rows = 1" using db(2) by (simp add: device_rows_def Let_def)
  ultimately show ?thesis
    using devices_sound [of "[(demo_boot, demo_cli, demo_life)]" "demo_boot\<lparr>bt_db := db\<rparr>" demo_cli p "demo_api None" ?rq
        "[Ev_Sweep 9 :: unit Event]" ?rows] db p iteration_order_id
    by (fastforce simp: demo_api_def list_all_iff)
qed

text \<open>
  C14. What a running program keeps for its clients stays within its bounds: over any number of runs and
  any sequence of events whose cache clock does not go back, the answer cache holds no more entries than
  configured (one, if configured for none), at most 8192 operations wait for the writer, and at most 256
  alerts wait to be sent.
\<close>

theorem memory_bounded:
  fixes es :: "'f Event list"
  assumes "database_after runs db_empty = Some (bt_db B)" "main_run B cli = Running p" "clocked t es"
  defines "r \<equiv> ap_resolver (fold netwatch_step es (pg_state p))"
  shows "resolver_cache_len r \<le> max (cache_max_entries (dns (ap_cfg (pg_state p)))) 1 \<and>
    length (w_queue (writer_of r)) \<le> 8192 \<and>
    (case h_alerts (hub_of r) of Some s \<Rightarrow> length (as_queue s) \<le> 256 | None \<Rightarrow> True)"
proof -
  have "state_law (fold netwatch_step es (pg_state p))" by (rule life_law [OF assms(1,2)])
  then have "hub_bounded (hub_of r)" by (simp add: state_law_def hub_law_def hub_of_def r_def)
  moreover obtain cfg lan b where p: "ap_resolver (pg_state p) = resolver_new cfg lan b (boot_registry B cfg)"
      "ap_cfg (pg_state p) = cfg"
    using running_steps [OF assms(2)] by metis
  then have "cache_lives (cache_max_entries (dns cfg)) (cache_min_ttl (dns cfg)) (cache_max_ttl (dns cfg)) t (ap_resolver (pg_state p))"
    using run_new by (auto simp: cache_lives_def resolver_new_def)
  then obtain u where "cache_lives (cache_max_entries (dns cfg)) (cache_min_ttl (dns cfg)) (cache_max_ttl (dns cfg)) u r"
    using program_cache [OF assms(3)] unfolding r_def by blast
  then have "cache_len c \<le> max (cache_max_entries (dns cfg)) 1" if "rs_cache r = Some c" for c
    using cache_run_wf that unfolding cache_lives_def by (fastforce simp: cache_wf_def cache_len_def)
  then have "resolver_cache_len r \<le> max (cache_max_entries (dns cfg)) 1"
    by (cases "rs_cache r") (auto simp: resolver_cache_len_def)
  ultimately show ?thesis
    by (auto simp: hub_bounded_def writer_of_def WRITER_DEPTH_def ALERT_QUEUE_DEPTH_def p(2) split: option.splits)
qed

theorem memory_bounded_witness:
  "\<exists>db p. database_after [(demo_boot, demo_cli, demo_life)] db_empty = Some db \<and>
     main_run (demo_boot\<lparr>bt_db := db\<rparr>) demo_cli = Running p \<and>
     length (w_queue (writer_of (ap_resolver (fold netwatch_step [Ev_Sweep 9 :: unit Event] (pg_state p))))) \<le> 8192"
proof -
  obtain db where db: "database_after [(demo_boot, demo_cli, demo_life)] db_empty = Some db" using demo_database by blast
  obtain p where p: "main_run (demo_boot\<lparr>bt_db := db\<rparr>) demo_cli = Running p" using demo_runs by blast
  show ?thesis
    using memory_bounded [of "[(demo_boot, demo_cli, demo_life)]" "demo_boot\<lparr>bt_db := db\<rparr>" demo_cli p 0 "[Ev_Sweep 9 :: unit Event]"] db p
    by auto
qed

end
